(* ===== verification/Prelude.thy ===== *)
theory Prelude
  imports Main "HOL-Library.Word"
begin

text \<open>
  What every component shares: the ways a piece of kernel code can fail to return, the integer
  types of the C source, the constants of \<^verbatim>\<open>param.h\<close>, and generic facts about bounded loops,
  circular indices and words.

  A C array is a total function from \<^typ>\<open>nat\<close>; the code that indexes it with a value it has not
  checked tests the bound in the model and fails with \<open>Fault\<close> outside it, since the C program's
  behaviour is then undefined.
\<close>

unbundle bit_operations_syntax

named_theorems km_simps \<open>unfolding rules of the kernel monad and its primitives\<close>
named_theorems const_defs \<open>the numeric constants of the header files\<close>

type_synonym uint = "32 word"
type_synonym uchar = "8 word"

text \<open>
  \<^item> \<open>Panic msg\<close>: the code calls \<open>panic(msg)\<close>, which never returns (\<^verbatim>\<open>console.c\<close>).
  \<^item> \<open>Stuck what\<close>: in this state the code loops for ever (a spin on a lock another CPU holds).
  \<^item> \<open>Fault what\<close>: undefined behaviour of C (index out of bounds, null dereference).
\<close>

datatype kerr = Panic string | Stuck string | Fault string

section \<open>Constants of param.h and the struct sizes\<close>

definition NPROC :: nat where "NPROC = 64"
definition NSIG :: nat where "NSIG = 8"
definition NCONTAINER :: nat where "NCONTAINER = 15"
definition NUMOFMESSAGEQUEUES :: nat where "NUMOFMESSAGEQUEUES = 64"
definition NUMOFMESSAGEBUFFERS :: nat where "NUMOFMESSAGEBUFFERS = 5001"
definition MessageSize :: nat where "MessageSize = 16"
definition NOFILE :: nat where "NOFILE = 300"
definition NFILE :: nat where "NFILE = 100"

definition SIGIGN :: uint where "SIGIGN = 0"
definition SIGDFL :: uint where "SIGDFL = 1"
definition SIGMSGSENT :: uint where "SIGMSGSENT = 4"

lemmas param_consts [const_defs] =
  NPROC_def NSIG_def NCONTAINER_def NUMOFMESSAGEQUEUES_def NUMOFMESSAGEBUFFERS_def
  MessageSize_def NOFILE_def NFILE_def

lemma consts_pos [simp]:
  "0 < NPROC" "0 < NSIG" "0 < NCONTAINER" "0 < NUMOFMESSAGEQUEUES" "0 < NUMOFMESSAGEBUFFERS"
  "0 < MessageSize"
  by (simp_all add: const_defs)

section \<open>Array indices\<close>

text \<open>An \<open>int\<close> used as an index of an array of \<open>n\<close> elements.\<close>

definition in_bounds :: "int \<Rightarrow> nat \<Rightarrow> bool" where
  "in_bounds i n \<longleftrightarrow> 0 \<le> i \<and> i < int n"

lemma in_bounds_of_nat [simp]: "in_bounds (int i) n \<longleftrightarrow> i < n"
  by (simp add: in_bounds_def)

lemma in_bounds_nat_less: "in_bounds i n \<Longrightarrow> nat i < n"
  by (auto simp: in_bounds_def)

lemma in_bounds_int_nat: "in_bounds i n \<Longrightarrow> int (nat i) = i"
  by (auto simp: in_bounds_def)

section \<open>First match of a bounded loop\<close>

text \<open>
  \<open>for(i = lo; i < hi; i++) if(P(i)) return i;\<close> is \<open>find P [lo..<hi]\<close>.
\<close>

lemma find_upt_Some_iff:
  "find P [lo..<hi] = Some i \<longleftrightarrow> lo \<le> i \<and> i < hi \<and> P i \<and> (\<forall>j. lo \<le> j \<and> j < i \<longrightarrow> \<not> P j)"
proof
  assume "find P [lo..<hi] = Some i"
  then obtain n where n: "n < length [lo..<hi]" "P ([lo..<hi] ! n)" "i = [lo..<hi] ! n"
    and first: "\<And>j. j < n \<Longrightarrow> \<not> P ([lo..<hi] ! j)"
    by (auto simp: find_Some_iff)
  have "\<not> P j" if "lo \<le> j" "j < i" for j
    using first [of "j - lo"] that n by auto
  with n show "lo \<le> i \<and> i < hi \<and> P i \<and> (\<forall>j. lo \<le> j \<and> j < i \<longrightarrow> \<not> P j)"
    by auto
next
  assume "lo \<le> i \<and> i < hi \<and> P i \<and> (\<forall>j. lo \<le> j \<and> j < i \<longrightarrow> \<not> P j)"
  then show "find P [lo..<hi] = Some i"
    unfolding find_Some_iff by (intro exI [of _ "i - lo"]) auto
qed

lemma find_upt_None_iff:
  "find P [lo..<hi] = None \<longleftrightarrow> (\<forall>i. lo \<le> i \<and> i < hi \<longrightarrow> \<not> P i)"
  by (auto simp: find_None_iff)

lemma find_upt_SomeD:
  assumes "find P [lo..<hi] = Some i"
  shows "lo \<le> i" "i < hi" "P i" "\<And>j. lo \<le> j \<Longrightarrow> j < i \<Longrightarrow> \<not> P j"
  using assms by (auto simp: find_upt_Some_iff)

lemma find_upt_ex: "lo \<le> i \<Longrightarrow> i < hi \<Longrightarrow> P i \<Longrightarrow> \<exists>j. find P [lo..<hi] = Some j"
  by (cases "find P [lo..<hi]") (auto simp: find_upt_None_iff)

text \<open>Extending a table that a loop has filled up to \<open>n\<close>.\<close>

lemma if_less_Suc_upd:
  "v = f n \<Longrightarrow> (\<lambda>i. if i < n then f i else g i)(n := v) = (\<lambda>i. if i < Suc n then f i else g i)"
  by (auto simp: fun_eq_iff less_Suc_eq)

section \<open>Circular indices\<close>

lemma mod_shift_inj:
  assumes "i < n" "j < n" "(a + i) mod n = (a + j) mod (n::nat)"
  shows "i = j"
proof -
  have "(int a + int i) mod int n = (int a + int j) mod int n"
    using assms(3) by (metis of_nat_add of_nat_mod)
  then have "int n dvd (int i - int j)"
    by (simp add: mod_eq_dvd_iff)
  moreover have "\<bar>int i - int j\<bar> < int n"
    using assms(1,2) by linarith
  ultimately have "int i - int j = 0"
    by (metis zdvd_not_zless zero_less_abs_iff dvd_abs_iff)
  then show ?thesis by simp
qed

lemma mod_shift_surj:
  assumes "k < (n::nat)"
  shows "\<exists>i < n. (a + i) mod n = k"
proof -
  let ?i = "(k + (n - a mod n)) mod n"
  have "(a + ?i) mod n = (a mod n + (k + (n - a mod n))) mod n"
    by (metis mod_add_eq mod_mod_trivial)
  also have "a mod n + (k + (n - a mod n)) = k + n"
    using assms mod_less_divisor [of n a] by linarith
  also have "(k + n) mod n = k" using assms by simp
  finally have "(a + ?i) mod n = k" .
  moreover have "?i < n" using assms by simp
  ultimately show ?thesis by blast
qed

section \<open>Round robin\<close>

text \<open>The first index after \<open>cur\<close>, in circular order over \<open>n\<close> indices, that satisfies \<open>P\<close>.\<close>

definition cyc_next :: "nat \<Rightarrow> (nat \<Rightarrow> bool) \<Rightarrow> nat \<Rightarrow> nat option" where
  "cyc_next n P cur =
     map_option (\<lambda>j. (cur + 1 + j) mod n) (find (\<lambda>j. P ((cur + 1 + j) mod n)) [0..<n])"

lemma cyc_next_Some:
  assumes "cyc_next n P cur = Some c" "0 < n"
  shows "c < n" "P c"
  using assms by (auto simp: cyc_next_def find_upt_Some_iff)

lemma cyc_next_None:
  assumes "cyc_next n P cur = None" "c < n"
  shows "\<not> P c"
  using assms mod_shift_surj [of c n "cur + 1"] by (auto simp: cyc_next_def find_upt_None_iff)

text \<open>An index that qualifies is \<open>d + 1\<close> places ahead; a step picks it or comes nearer.\<close>

lemma cyc_next_progress:
  assumes "P ((cur + 1 + d) mod n)" "d < n"
  shows "\<exists>c. cyc_next n P cur = Some c \<and> (c = (cur + 1 + d) mod n \<or>
    (\<exists>d' < d. (cur + 1 + d) mod n = (c + 1 + d') mod n))"
proof -
  obtain j where j: "find (\<lambda>j. P ((cur + 1 + j) mod n)) [0..<n] = Some j"
    using find_upt_ex [of 0 d n "\<lambda>j. P ((cur + 1 + j) mod n)"] assms by blast
  then have nx: "cyc_next n P cur = Some ((cur + 1 + j) mod n)"
    by (simp add: cyc_next_def)
  have "j \<le> d"
    using find_upt_SomeD(4) [OF j, of d] assms by (meson le0 not_le)
  show ?thesis
  proof (cases "j = d")
    case False
    with \<open>j \<le> d\<close> have d: "d = j + 1 + (d - j - 1)" by simp
    have "((cur + 1 + j) mod n + 1 + (d - j - 1)) mod n = (cur + 1 + j + (1 + (d - j - 1))) mod n"
      unfolding add.assoc [of "(cur + 1 + j) mod n"] by (rule mod_add_left_eq)
    also have "cur + 1 + j + (1 + (d - j - 1)) = cur + 1 + d" using d by linarith
    finally have "(cur + 1 + d) mod n = ((cur + 1 + j) mod n + 1 + (d - j - 1)) mod n" ..
    moreover have "d - j - 1 < d" using False \<open>j \<le> d\<close> by simp
    ultimately show ?thesis using nx by blast
  qed (simp add: nx)
qed

text \<open>The indices picked by \<open>n\<close> steps.\<close>

primrec cyc_run :: "nat \<Rightarrow> nat \<Rightarrow> (nat \<Rightarrow> bool) \<Rightarrow> nat \<Rightarrow> nat list" where
  "cyc_run 0 n P cur = []"
| "cyc_run (Suc t) n P cur =
     (case cyc_next n P cur of None \<Rightarrow> [] | Some c \<Rightarrow> c # cyc_run t n P c)"

lemma cyc_run_reaches:
  "P ((cur + 1 + d) mod n) \<Longrightarrow> d < n \<Longrightarrow> d < t \<Longrightarrow> (cur + 1 + d) mod n \<in> set (cyc_run t n P cur)"
proof (induction t arbitrary: cur d)
  case (Suc t)
  from cyc_next_progress [where P = P, OF Suc.prems(1,2)] obtain c where
    c: "cyc_next n P cur = Some c"
    and dist: "c = (cur + 1 + d) mod n \<or> (\<exists>d' < d. (cur + 1 + d) mod n = (c + 1 + d') mod n)" by blast
  show ?case
  proof (cases "c = (cur + 1 + d) mod n")
    case False
    with dist obtain d' where d': "d' < d" "(cur + 1 + d) mod n = (c + 1 + d') mod n" by blast
    have "(c + 1 + d') mod n \<in> set (cyc_run t n P c)"
      using Suc.prems d' by (intro Suc.IH) auto
    then show ?thesis using c d'(2) by simp
  qed (simp add: c)
qed simp

lemma cyc_run_fair:
  assumes "c < n" "P c"
  shows "c \<in> set (cyc_run n n P cur)"
proof -
  obtain d where "d < n" "(cur + 1 + d) mod n = c"
    using mod_shift_surj [OF assms(1), of "cur + 1"] by auto
  then show ?thesis using cyc_run_reaches [of P cur d n n] assms by simp
qed

lemma cyc_run_sound: "0 < n \<Longrightarrow> c \<in> set (cyc_run t n P cur) \<Longrightarrow> c < n \<and> P c"
  by (induction t arbitrary: cur) (auto simp: cyc_next_Some split: option.splits)

section \<open>Circular buffers\<close>

text \<open>The contents of a circular buffer of \<open>n\<close> slots, oldest first.\<close>

definition ring :: "nat \<Rightarrow> (nat \<Rightarrow> 'a) \<Rightarrow> nat \<Rightarrow> nat \<Rightarrow> 'a list" where
  "ring n f h s = map (\<lambda>i. f ((h + i) mod n)) [0..<s]"

lemma length_ring [simp]: "length (ring n f h s) = s"
  by (simp add: ring_def)

lemma ring_0 [simp]: "ring n f h 0 = []"
  by (simp add: ring_def)

lemma ring_snoc:
  assumes "s < n"
  shows "ring n (f((h + s) mod n := x)) h (Suc s) = ring n f h s @ [x]"
proof -
  have "(h + i) mod n \<noteq> (h + s) mod n" if "i < s" for i
    using mod_shift_inj [of i n s h] that assms by auto
  then show ?thesis
    by (simp add: ring_def)
qed

lemma ring_Cons:
  assumes "0 < n"
  shows "ring n f h (Suc s) = f (h mod n) # ring n f ((h + 1) mod n) s"
proof -
  have "map (\<lambda>i. f ((h + i) mod n)) [0..<Suc s]
      = f (h mod n) # map (\<lambda>i. f ((h + Suc i) mod n)) [0..<s]"
    by (simp add: upt_rec [of 0] map_Suc_upt [symmetric] comp_def del: map_Suc_upt upt_Suc)
  moreover have "(h + Suc i) mod n = ((h + 1) mod n + i) mod n" for i
    by (simp add: mod_add_left_eq)
  ultimately show ?thesis
    by (simp add: ring_def del: upt_Suc)
qed

lemma set_ring: "set (ring n f h s) = (\<lambda>i. f ((h + i) mod n)) ` {..<s}"
  by (auto simp: ring_def)

section \<open>32-bit words\<close>

lemma unat32_less: "unat (w :: uint) < 2 ^ 32"
proof -
  have "unat w < 2 ^ LENGTH(32)" by (rule unsigned_less)
  then show ?thesis by simp
qed

lemma unat32_of_nat: "n < 2 ^ 32 \<Longrightarrow> unat (of_nat n :: uint) = n"
  by (simp add: unsigned_of_nat take_bit_nat_eq_self)

lemma unat32_add: "unat a + unat b < 2 ^ 32 \<Longrightarrow> unat (a + b :: uint) = unat a + unat b"
  by (simp add: unat_word_ariths)

lemma unat32_sub: "b \<le> a \<Longrightarrow> unat (a - b :: uint) = unat a - unat b"
  by (simp add: unat_sub)

lemma unat32_plus_if:
  "unat (a + b :: uint) = (if unat a + unat b < 2 ^ 32 then unat a + unat b else unat a + unat b - 2 ^ 32)"
  using unat32_less [of a] unat32_less [of b]
  by (auto simp: unat_word_ariths mod_if [of "unat a + unat b"])

end
