(* ===== verification/Cmem.thy ===== *)
theory Cmem
  imports Prelude
begin

text \<open>
  Byte-addressed memory and the functions of \<^verbatim>\<open>string.c\<close> on it, with the two string instructions
  of \<^verbatim>\<open>x86.h\<close> they use.  An address is a 32-bit word, so pointer arithmetic wraps as on the
  machine.  The lemmas give each loop its closed form: \<open>memset\<close> fills the range whichever of its
  two instructions it picks, \<open>memmove\<close> copies correctly for overlapping blocks in both
  directions, and the string functions agree with list functions on null-terminated strings.
\<close>

section \<open>Memory\<close>

type_synonym memory = "uint \<Rightarrow> uchar"

text \<open>A 32-bit little-endian access.\<close>

definition rd32 :: "memory \<Rightarrow> uint \<Rightarrow> uint" where
  "rd32 m a = ucast (m a) OR push_bit 8 (ucast (m (a + 1))) OR
     push_bit 16 (ucast (m (a + 2))) OR push_bit 24 (ucast (m (a + 3)))"

definition wr32 :: "memory \<Rightarrow> uint \<Rightarrow> uint \<Rightarrow> memory" where
  "wr32 m a v = m(a := ucast v, a + 1 := ucast (drop_bit 8 v),
     a + 2 := ucast (drop_bit 16 v), a + 3 := ucast (drop_bit 24 v))"

text \<open>The bytes of a block.\<close>

definition bytes :: "memory \<Rightarrow> uint \<Rightarrow> nat \<Rightarrow> uchar list" where
  "bytes m a n = map (\<lambda>i. m (a + of_nat i)) [0..<n]"

section \<open>string.c\<close>

primrec stosb :: "memory \<Rightarrow> uint \<Rightarrow> uchar \<Rightarrow> nat \<Rightarrow> memory" where
  "stosb m d c 0 = m"
| "stosb m d c (Suc n) = stosb (m(d := c)) (d + 1) c n"

primrec stosl :: "memory \<Rightarrow> uint \<Rightarrow> uint \<Rightarrow> nat \<Rightarrow> memory" where
  "stosl m d v 0 = m"
| "stosl m d v (Suc n) = stosl (wr32 m d v) (d + 4) v n"

definition memset :: "memory \<Rightarrow> uint \<Rightarrow> uint \<Rightarrow> uint \<Rightarrow> memory" where
  "memset m dst c n =
     (if dst mod 4 = 0 \<and> n mod 4 = 0
      then let c' = c AND 0xFF
        in stosl m dst (push_bit 24 c' OR push_bit 16 c' OR push_bit 8 c' OR c') (unat (n div 4))
      else stosb m dst (ucast c) (unat n))"

primrec memcmp_loop :: "memory \<Rightarrow> uint \<Rightarrow> uint \<Rightarrow> nat \<Rightarrow> int" where
  "memcmp_loop m s1 s2 0 = 0"
| "memcmp_loop m s1 s2 (Suc n) =
     (if m s1 \<noteq> m s2 then uint (m s1) - uint (m s2) else memcmp_loop m (s1 + 1) (s2 + 1) n)"

definition memcmp :: "memory \<Rightarrow> uint \<Rightarrow> uint \<Rightarrow> uint \<Rightarrow> int" where
  "memcmp m v1 v2 n = memcmp_loop m v1 v2 (unat n)"

primrec copy_up :: "memory \<Rightarrow> uint \<Rightarrow> uint \<Rightarrow> nat \<Rightarrow> memory" where
  "copy_up m d s 0 = m"
| "copy_up m d s (Suc n) = copy_up (m(d := m s)) (d + 1) (s + 1) n"

primrec copy_down :: "memory \<Rightarrow> uint \<Rightarrow> uint \<Rightarrow> nat \<Rightarrow> memory" where
  "copy_down m d s 0 = m"
| "copy_down m d s (Suc n) = copy_down (m(d - 1 := m (s - 1))) (d - 1) (s - 1) n"

definition memmove :: "memory \<Rightarrow> uint \<Rightarrow> uint \<Rightarrow> uint \<Rightarrow> memory" where
  "memmove m dst src n =
     (if src < dst \<and> src + n > dst then copy_down m (dst + n) (src + n) (unat n)
      else copy_up m dst src (unat n))"

primrec strncmp_loop :: "memory \<Rightarrow> uint \<Rightarrow> uint \<Rightarrow> nat \<Rightarrow> int" where
  "strncmp_loop m p q 0 = 0"
| "strncmp_loop m p q (Suc n) =
     (if m p \<noteq> 0 \<and> m p = m q then strncmp_loop m (p + 1) (q + 1) n
      else uint (m p) - uint (m q))"

definition strncmp :: "memory \<Rightarrow> uint \<Rightarrow> uint \<Rightarrow> uint \<Rightarrow> int" where
  "strncmp m p q n = strncmp_loop m p q (unat n)"

text \<open>The first loop of \<open>strncpy\<close> copies up to and including a null byte, the second pads.\<close>

primrec strncpy_loop :: "memory \<Rightarrow> uint \<Rightarrow> uint \<Rightarrow> nat \<Rightarrow> memory" where
  "strncpy_loop m s t 0 = m"
| "strncpy_loop m s t (Suc n) =
     (let m' = m(s := m t) in
      if m t \<noteq> 0 then strncpy_loop m' (s + 1) (t + 1) n else stosb m' (s + 1) 0 n)"

definition strncpy :: "memory \<Rightarrow> uint \<Rightarrow> uint \<Rightarrow> int \<Rightarrow> memory" where
  "strncpy m s t n = strncpy_loop m s t (nat n)"

primrec safestrcpy_loop :: "memory \<Rightarrow> uint \<Rightarrow> uint \<Rightarrow> nat \<Rightarrow> memory \<times> uint" where
  "safestrcpy_loop m s t 0 = (m, s)"
| "safestrcpy_loop m s t (Suc n) =
     (let m' = m(s := m t) in
      if m t \<noteq> 0 then safestrcpy_loop m' (s + 1) (t + 1) n else (m', s + 1))"

definition safestrcpy :: "memory \<Rightarrow> uint \<Rightarrow> uint \<Rightarrow> int \<Rightarrow> memory" where
  "safestrcpy m s t n =
     (if n \<le> 0 then m else let (m', s') = safestrcpy_loop m s t (nat (n - 1)) in m'(s' := 0))"

text \<open>\<open>for(n = 0; s[n]; n++);\<close> ends only if it meets a null byte: \<open>None\<close> is a loop that does not.\<close>

partial_function (option) strlen_from :: "memory \<Rightarrow> uint \<Rightarrow> nat \<Rightarrow> nat option" where
  "strlen_from m s n = (if m (s + of_nat n) = 0 then Some n else strlen_from m s (Suc n))"

definition strlen :: "memory \<Rightarrow> uint \<Rightarrow> nat option" where
  "strlen m s = strlen_from m s 0"

section \<open>Addresses\<close>

lemma unat_sub_Suc:
  fixes a d :: uint
  assumes "a \<noteq> d"
  shows "unat (a - d) = Suc (unat (a - (d + 1)))"
proof -
  have "a - d \<noteq> 0" using assms by simp
  then have "unat (a - d - 1) = unat (a - d) - 1" "0 < unat (a - d)"
    by (simp_all add: unat_minus_one unat_gt_0)
  then show ?thesis by (simp add: algebra_simps)
qed

lemma unat_sub_Suc_self: "unat (d - (d + 1) :: uint) = 2 ^ 32 - 1"
  by (simp add: unsigned_minus_1_eq_mask mask_eq_exp_minus_1)

lemma sub_less_Suc:
  fixes a d :: uint
  assumes "n < 2 ^ 32"
  shows "unat (a - d) < Suc n \<longleftrightarrow> a = d \<or> unat (a - (d + 1)) < n \<and> a \<noteq> d"
  using assms unat_sub_Suc [of a d] by (cases "a = d") auto

lemma bytes_nth [simp]: "i < n \<Longrightarrow> bytes m a n ! i = m (a + of_nat i)"
  by (simp add: bytes_def)

lemma length_bytes [simp]: "length (bytes m a n) = n"
  by (simp add: bytes_def)

section \<open>Closed forms of the loops\<close>

lemma stosb_closed:
  "n \<le> 2 ^ 32 \<Longrightarrow> stosb m d c n = (\<lambda>a. if unat (a - d) < n then c else m a)"
proof (induction n arbitrary: m d)
  case 0
  then show ?case by simp
next
  case (Suc n)
  then have "stosb m d c (Suc n) = (\<lambda>a. if unat (a - (d + 1)) < n then c else (m(d := c)) a)"
    by simp
  then show ?case
    using Suc.prems sub_less_Suc [of n _ d] by (auto simp: fun_eq_iff)
qed

lemma wr32_const:
  fixes c :: uint
  assumes "v = push_bit 24 (c AND 0xFF) OR push_bit 16 (c AND 0xFF) OR push_bit 8 (c AND 0xFF) OR (c AND 0xFF)"
  shows "wr32 m a v = stosb m a (ucast c) 4"
proof -
  have ff: "(0xFF :: uint) = mask 8"
    by (simp add: mask_eq_exp_minus_1)
  have "ucast (drop_bit 0 v) = (ucast c :: uchar)" "ucast (drop_bit 8 v) = (ucast c :: uchar)"
    "ucast (drop_bit 16 v) = (ucast c :: uchar)" "ucast (drop_bit 24 v) = (ucast c :: uchar)"
    unfolding assms ff by (rule bit_word_eqI, auto simp: bit_simps)+
  then show ?thesis
    by (simp add: wr32_def numeral_eq_Suc add.assoc)
qed

lemma stosb_append: "stosb m d c (n + k) = stosb (stosb m d c n) (d + of_nat n) c k"
  by (induction n arbitrary: m d) (simp_all add: algebra_simps)

lemma stosl_stosb:
  fixes c :: uint
  assumes "v = push_bit 24 (c AND 0xFF) OR push_bit 16 (c AND 0xFF) OR push_bit 8 (c AND 0xFF) OR (c AND 0xFF)"
  shows "stosl m d v n = stosb m d (ucast c) (4 * n)"
proof (induction n arbitrary: m d)
  case (Suc n)
  then show ?case
    using stosb_append [of m d "ucast c" 4 "4 * n"] by (simp add: wr32_const [OF assms])
qed simp

text \<open>Both instructions fill the same bytes.\<close>

lemma memset_closed: "memset m dst c n = (\<lambda>a. if a - dst < n then ucast c else m a)"
proof -
  have n: "unat n \<le> 2 ^ 32" using unat32_less [of n] by simp
  have "stosl m dst v (unat (n div 4)) = stosb m dst (ucast c) (unat n)"
    if "n mod 4 = 0" and v: "v = push_bit 24 (c AND 0xFF) OR push_bit 16 (c AND 0xFF) OR
      push_bit 8 (c AND 0xFF) OR (c AND 0xFF)" for v
  proof -
    have "unat n mod 4 = 0"
      using arg_cong [OF that(1), of unat] by (simp add: unat_mod)
    then have "4 * unat (n div 4) = unat n"
      by (auto simp: unat_div)
    then show ?thesis using stosl_stosb [OF v] by simp
  qed
  then have "memset m dst c n = stosb m dst (ucast c) (unat n)"
    by (simp add: memset_def Let_def)
  then show ?thesis
    by (simp add: stosb_closed [OF n] word_less_nat_alt)
qed

lemma copy_up_closed:
  "n < 2 ^ 32 \<Longrightarrow> d = s \<or> n \<le> unat (d - s) \<Longrightarrow>
   copy_up m d s n = (\<lambda>a. if unat (a - d) < n then m (s + (a - d)) else m a)"
proof (induction n arbitrary: m d s)
  case 0
  then show ?case by simp
next
  case (Suc n)
  let ?m = "m(d := m s)"
  have IH: "copy_up m d s (Suc n) =
      (\<lambda>a. if unat (a - (d + 1)) < n then ?m (s + 1 + (a - (d + 1))) else ?m a)"
    unfolding copy_up.simps by (rule Suc.IH) (use Suc.prems in auto)
  have "?m (s + 1 + (a - (d + 1))) = m (s + (a - d))" if "unat (a - d) < Suc n" "a \<noteq> d" for a
  proof (cases "d = s")
    case False
    with Suc.prems have "Suc n \<le> unat (d - s)" by simp
    with that have "a - d \<noteq> d - s" by auto
    then have "s + (a - d) \<noteq> d" by (metis add_diff_cancel_left')
    then show ?thesis by (simp add: algebra_simps)
  qed auto
  then show ?case
    unfolding IH using Suc.prems sub_less_Suc [of n _ d] by (auto simp: fun_eq_iff)
qed

lemma copy_down_closed:
  "n < 2 ^ 32 \<Longrightarrow> d = s \<or> n \<le> unat (s - d) \<Longrightarrow>
   copy_down m (d + of_nat n) (s + of_nat n) n = (\<lambda>a. if unat (a - d) < n then m (s + (a - d)) else m a)"
proof (induction n arbitrary: m)
  case 0
  then show ?case by simp
next
  case (Suc n)
  let ?m = "m(d + of_nat n := m (s + of_nat n))"
  have IH: "copy_down m (d + of_nat (Suc n)) (s + of_nat (Suc n)) (Suc n) =
      (\<lambda>a. if unat (a - d) < n then ?m (s + (a - d)) else ?m a)"
  proof -
    have "copy_down ?m (d + of_nat n) (s + of_nat n) n =
        (\<lambda>a. if unat (a - d) < n then ?m (s + (a - d)) else ?m a)"
      by (rule Suc.IH) (use Suc.prems in auto)
    moreover have "x + of_nat (Suc n) - 1 = x + of_nat n" for x :: uint
      by simp
    ultimately show ?thesis
      unfolding copy_down.simps by metis
  qed
  have n: "unat (of_nat n :: uint) = n"
    using Suc.prems by (simp add: unat32_of_nat)
  have here: "a = d + of_nat n \<longleftrightarrow> unat (a - d) = n" for a
  proof -
    have "a = d + of_nat n \<longleftrightarrow> a - d = of_nat n" by (auto simp: algebra_simps)
    then show ?thesis by (simp add: word_unat_eq_iff n)
  qed
  have "?m (s + (a - d)) = m (s + (a - d))" if "unat (a - d) < n" for a
  proof (cases "d = s")
    case False
    with Suc.prems have far: "Suc n \<le> unat (s - d)" by simp
    have "s + (a - d) \<noteq> d + of_nat n"
    proof
      assume "s + (a - d) = d + of_nat n"
      then have "unat ((s - d) + (a - d)) = n" using n by (simp add: algebra_simps)
      then show False
        unfolding unat32_plus_if using far that unat32_less [of "s - d"]
        by (cases "unat (s - d) + unat (a - d) < 2 ^ 32") simp_all
    qed
    then show ?thesis by simp
  qed (use here that in auto)
  then show ?case
    unfolding IH using here by (auto simp: fun_eq_iff less_Suc_eq)
qed

lemma memmove_closed:
  assumes "unat src + unat n < 2 ^ 32" "unat dst + unat n \<le> 2 ^ 32"
  shows "memmove m dst src n = (\<lambda>a. if a - dst < n then m (src + (a - dst)) else m a)"
proof (cases "src < dst \<and> src + n > dst")
  case True
  then have lt: "unat src < unat dst" by (simp add: word_less_nat_alt)
  have "unat (src - dst) = 2 ^ 32 - (unat dst - unat src)"
    using lt by (simp add: unat_sub_if')
  then have "unat n \<le> unat (src - dst)" using assms lt by simp
  then show ?thesis
    using True copy_down_closed [of "unat n" dst src m] unat32_less [of n]
    by (simp add: memmove_def word_less_nat_alt)
next
  case False
  have "dst = src \<or> unat n \<le> unat (dst - src)"
  proof (cases "src < dst")
    case True
    with False have "src + n \<le> dst" by simp
    then have "unat src + unat n \<le> unat dst"
      using assms(1) by (simp add: word_le_nat_alt unat32_plus_if)
    then have "unat n \<le> unat (dst - src)" using True by (simp add: unat_sub_if' word_less_nat_alt)
    then show ?thesis ..
  next
    case False
    then have "unat dst \<le> unat src" by (simp add: word_le_nat_alt not_less)
    then show ?thesis
      using assms(1) unat32_less [of dst]
      by (cases "unat dst = unat src") (simp_all add: word_unat_eq_iff unat_sub_if')
  qed
  then show ?thesis
    using False copy_up_closed [of "unat n" dst src m] unat32_less [of n]
    by (auto simp: memmove_def word_less_nat_alt)
qed

section \<open>Strings\<close>

text \<open>The null-terminated string \<open>xs\<close> stands at \<open>a\<close>.\<close>

primrec cstr :: "memory \<Rightarrow> uint \<Rightarrow> uchar list \<Rightarrow> bool" where
  "cstr m a [] \<longleftrightarrow> m a = 0"
| "cstr m a (x # xs) \<longleftrightarrow> m a = x \<and> x \<noteq> 0 \<and> cstr m (a + 1) xs"

lemma strlen_from_cstr: "cstr m (s + of_nat n) xs \<Longrightarrow> strlen_from m s n = Some (n + length xs)"
proof (induction xs arbitrary: n)
  case Nil
  then show ?case by (simp add: strlen_from.simps)
next
  case (Cons x xs)
  then have "strlen_from m s (Suc n) = Some (Suc n + length xs)"
    by (intro Cons.IH) (simp add: algebra_simps)
  then show ?case using Cons.prems by (simp add: strlen_from.simps [of m s n])
qed

lemma cstr_upd_far:
  "cstr m t xs \<Longrightarrow> length xs < unat (s - t) \<Longrightarrow> cstr (m(s := v)) t xs"
proof (induction xs arbitrary: t)
  case (Cons x xs)
  then have "s \<noteq> t" by auto
  with Cons unat_sub_Suc [of s t] show ?case by auto
qed auto

text \<open>The copying loops copy the string up to and including its null byte, or \<open>k\<close> bytes.\<close>

lemma safestrcpy_loop_cstr:
  "cstr m t xs \<Longrightarrow> length xs < unat (s - t) \<Longrightarrow>
   safestrcpy_loop m s t k =
     (copy_up m s t (min k (Suc (length xs))), s + of_nat (min k (Suc (length xs))))"
proof (induction k arbitrary: m s t xs)
  case (Suc k)
  show ?case
  proof (cases xs)
    case Nil
    with Suc.prems show ?thesis by (cases k) (simp_all add: fun_upd_def)
  next
    case (Cons x ys)
    have far: "length ys < unat (s - (t + 1))"
      using Suc.prems Cons unat_sub_Suc [of s t] by (cases "s = t") auto
    have "cstr (m(s := m t)) (t + 1) ys"
      using Suc.prems Cons far by (intro cstr_upd_far) auto
    moreover have "length ys < unat (s + 1 - (t + 1))"
      using Suc.prems Cons by simp
    ultimately have "safestrcpy_loop (m(s := m t)) (s + 1) (t + 1) k =
        (copy_up (m(s := m t)) (s + 1) (t + 1) (min k (Suc (length ys))),
         s + 1 + of_nat (min k (Suc (length ys))))"
      by (rule Suc.IH)
    then show ?thesis
      using Suc.prems Cons by (simp add: Let_def add.assoc)
  qed
qed simp

lemma strncpy_loop_cstr:
  "cstr m t xs \<Longrightarrow> length xs < unat (s - t) \<Longrightarrow>
   strncpy_loop m s t k =
     (let c = min k (Suc (length xs)) in stosb (copy_up m s t c) (s + of_nat c) 0 (k - c))"
proof (induction k arbitrary: m s t xs)
  case (Suc k)
  show ?case
  proof (cases xs)
    case Nil
    with Suc.prems show ?thesis by simp
  next
    case (Cons x ys)
    have far: "length ys < unat (s - (t + 1))"
      using Suc.prems Cons unat_sub_Suc [of s t] by (cases "s = t") auto
    have "cstr (m(s := m t)) (t + 1) ys"
      using Suc.prems Cons far by (intro cstr_upd_far) auto
    moreover have "length ys < unat (s + 1 - (t + 1))"
      using Suc.prems Cons by simp
    ultimately have "strncpy_loop (m(s := m t)) (s + 1) (t + 1) k =
        (let c = min k (Suc (length ys)) in
         stosb (copy_up (m(s := m t)) (s + 1) (t + 1) c) (s + 1 + of_nat c) 0 (k - c))"
      by (rule Suc.IH)
    then show ?thesis
      using Suc.prems Cons by (simp add: Let_def add.assoc)
  qed
qed simp

lemma cstr_iff:
  "cstr m a xs \<longleftrightarrow> (\<forall>i < length xs. m (a + of_nat i) = xs ! i \<and> xs ! i \<noteq> 0) \<and> m (a + of_nat (length xs)) = 0"
proof (induction xs arbitrary: a)
  case (Cons x xs)
  show ?case
    by (simp add: Cons.IH All_less_Suc2 algebra_simps)
qed simp

text \<open>The address \<open>d + i\<close> for a small offset.\<close>

lemma unat_offset: "i < 2 ^ 32 \<Longrightarrow> unat (d + of_nat i - d :: uint) = i"
  by (simp add: unat32_of_nat)

lemma safestrcpy_closed:
  assumes "cstr m t xs" "0 < n" "nat n < 2 ^ 32" "length xs < unat (s - t)"
  shows "safestrcpy m s t n = (let c = min (nat n - 1) (Suc (length xs)) in
    (\<lambda>a. if unat (a - s) < c then m (t + (a - s)) else if unat (a - s) = c then 0 else m a))"
proof -
  let ?c = "min (nat n - 1) (Suc (length xs))"
  have c: "?c < 2 ^ 32" "?c \<le> unat (s - t)" using assms(3,4) by auto
  have "nat (n - 1) = nat n - 1" using assms(2) by simp
  then have "safestrcpy m s t n = (copy_up m s t ?c)(s + of_nat ?c := 0)"
    using assms safestrcpy_loop_cstr [OF assms(1,4), of "nat n - 1"] by (simp add: safestrcpy_def)
  also have "\<dots> = (\<lambda>a. if unat (a - s) < ?c then m (t + (a - s)) else if unat (a - s) = ?c then 0 else m a)"
  proof -
    have "a = s + of_nat ?c \<longleftrightarrow> unat (a - s) = ?c" for a
    proof -
      have "a = s + of_nat ?c \<longleftrightarrow> a - s = of_nat ?c" by (auto simp: algebra_simps)
      then show ?thesis using c(1) by (simp add: word_unat_eq_iff unat32_of_nat)
    qed
    then show ?thesis
      unfolding copy_up_closed [OF c(1) disjI2 [OF c(2)]] by (auto simp: fun_eq_iff)
  qed
  finally show ?thesis unfolding Let_def .
qed

section \<open>Word accesses\<close>

lemma rd32_wr32 [simp]: "rd32 (wr32 m a v) a = v"
proof -
  have "rd32 (wr32 m a v) a = ucast (ucast v :: uchar) OR push_bit 8 (ucast (ucast (drop_bit 8 v) :: uchar)) OR
      push_bit 16 (ucast (ucast (drop_bit 16 v) :: uchar)) OR push_bit 24 (ucast (ucast (drop_bit 24 v) :: uchar))"
    by (simp add: rd32_def wr32_def)
  also have "\<dots> = v"
  proof (rule bit_word_eqI)
    fix n
    assume "n < LENGTH(32)"
    then consider "n < 8" | "8 \<le> n" "n < 16" | "16 \<le> n" "n < 24" | "24 \<le> n" "n < 32" by fastforce
    then show "bit (ucast (ucast v :: uchar) OR push_bit 8 (ucast (ucast (drop_bit 8 v) :: uchar)) OR
        push_bit 16 (ucast (ucast (drop_bit 16 v) :: uchar)) OR
        push_bit 24 (ucast (ucast (drop_bit 24 v) :: uchar)) :: uint) n = bit v n"
      by cases (auto simp: bit_simps)
  qed
  finally show ?thesis .
qed

lemma wr32_other:
  assumes "4 \<le> unat (b - a)"
  shows "wr32 m a v b = m b"
proof -
  have "b \<noteq> a + k" if "unat k < 4" for k
    using assms that by auto
  from this [of 0] this [of 1] this [of 2] this [of 3] show ?thesis
    by (simp add: wr32_def)
qed

lemma rd32_wr32_other:
  assumes "4 \<le> unat (b - a)" "4 \<le> unat (a - b)"
  shows "rd32 (wr32 m a v) b = rd32 m b"
proof -
  have "4 \<le> unat (b + k - a)" if "unat k < 4" for k
  proof -
    have "unat (b - a) + unat k < 2 ^ 32"
    proof -
      have "unat (b - a) + unat (a - b) = 2 ^ 32"
        using unat32_plus_if [of "b - a" "a - b"] assms by (simp split: if_splits)
      then show ?thesis using assms(2) that by linarith
    qed
    then have "unat (b - a + k) = unat (b - a) + unat k"
      by (rule unat32_add)
    then show ?thesis using assms(1) by (simp add: algebra_simps)
  qed
  from this [of 0] this [of 1] this [of 2] this [of 3] show ?thesis
    by (simp add: rd32_def wr32_other)
qed

section \<open>Properties\<close>

text \<open>C31: \<open>memset\<close> sets exactly the \<open>n\<close> bytes from \<open>dst\<close> to the low byte of \<open>c\<close>, for every
  alignment and length: the word-wise fill and the byte-wise fill do the same.\<close>

theorem memset_fills: "memset m dst c n = (\<lambda>a. if a - dst < n then ucast c else m a)"
  by (rule memset_closed)

text \<open>C30: \<open>memmove\<close> copies the block as it was before the call, also when source and destination
  overlap, and changes nothing else, for blocks that do not reach the top of the address space.\<close>

theorem memmove_copies:
  assumes "unat src + unat n < 2 ^ 32" "unat dst + unat n \<le> 2 ^ 32"
  shows "bytes (memmove m dst src n) dst (unat n) = bytes m src (unat n) \<and>
    (\<forall>a. \<not> a - dst < n \<longrightarrow> memmove m dst src n a = m a)"
proof -
  have "(of_nat i :: uint) < n" if "i < unat n" for i
    using that unat32_less [of n] by (simp add: word_less_nat_alt unat32_of_nat)
  then show ?thesis
    by (simp add: memmove_closed [OF assms] bytes_def)
qed

text \<open>A copy by three bytes to the right within a block of eight.\<close>

theorem memmove_copies_witness:
  "bytes (memmove (\<lambda>a. ucast a) 0x1003 0x1000 8) 0x1003 8 = [0, 1, 2, 3, 4, 5, 6, 7]"
  using memmove_copies [of "0x1000" 8 "0x1003" "\<lambda>a. ucast a"]
  by (simp add: bytes_def upt_rec numeral_eq_Suc [symmetric])

text \<open>C34: \<open>safestrcpy\<close> always leaves a null-terminated string, the source cut to \<open>n - 1\<close> bytes, and
  writes no byte beyond the \<open>n\<close> of the destination.\<close>

theorem safestrcpy_bounded:
  assumes "cstr m t xs" "0 < n" "nat n < 2 ^ 32"
    and "length xs < unat (s - t)"
  shows "cstr (safestrcpy m s t n) s (take (nat n - 1) xs) \<and>
    (\<forall>a. nat n \<le> unat (a - s) \<longrightarrow> safestrcpy m s t n a = m a)"
proof -
  let ?c = "min (nat n - 1) (Suc (length xs))" and ?k = "nat n - 1"
  have off: "unat (s + of_nat i - s) = i" if "i \<le> ?k" for i
    using that assms(3) by (intro unat_offset) simp
  have src: "m (t + of_nat i) = xs ! i \<and> xs ! i \<noteq> 0" if "i < length xs" for i
    using assms(1) that by (simp add: cstr_iff)
  have last: "m (t + of_nat (length xs)) = 0"
    using assms(1) by (simp add: cstr_iff)
  note closed = safestrcpy_closed [OF assms(1-4)]
  have "safestrcpy m s t n (s + of_nat i) = (if i < ?c then m (t + of_nat i) else if i = ?c then 0 else m (s + of_nat i))"
    if "i \<le> ?k" for i
    unfolding closed Let_def off [OF that] by simp
  then have "cstr (safestrcpy m s t n) s (take ?k xs)"
    unfolding cstr_iff using src last by (auto simp: min_def)
  moreover have "safestrcpy m s t n a = m a" if "nat n \<le> unat (a - s)" for a
    using that assms(2) by (auto simp: closed Let_def min_def)
  ultimately show ?thesis by blast
qed

text \<open>Copying "hello" into four bytes.\<close>

theorem safestrcpy_bounded_witness:
  "let m = (\<lambda>a :: uint. if a < 5 then [104, 101, 108, 108, 111] ! unat a else 0)
   in cstr m 0 [104, 101, 108, 108, 111] \<and> cstr (safestrcpy m 100 0 4) 100 [104, 101, 108]"
  using safestrcpy_bounded [of "\<lambda>a :: uint. if a < 5 then [104, 101, 108, 108, 111] ! unat a else 0"
      0 "[104, 101, 108, 108, 111]" 4 100]
  by (simp add: Let_def)

end
