(* ===== verification/Machine.thy ===== *)
theory Machine
  imports Prelude
begin

text \<open>
  The machine every kernel function runs on: the CPUs of \<^verbatim>\<open>proc.h\<close>, the interrupt flag, the spin
  locks of \<^verbatim>\<open>spinlock.c\<close> and the bytes written to the console.  A kernel function over a component
  state \<open>'c\<close> is a function \<open>mach \<Rightarrow> 'c \<Rightarrow> kerr + ('a \<times> mach \<times> 'c)\<close>: it returns a value with the new
  machine and component, or it fails.  A spin lock is named by the address it has in C.

  The lemmas show that \<open>acquire\<close> of a free lock succeeds and disables interrupts, that the
  matching \<open>release\<close> restores the machine exactly, and that a second \<open>acquire\<close> by the holder
  panics: the facts every critical section of the other theories rests on.
\<close>

section \<open>Locks, CPUs, machine\<close>

datatype lock_id =
    PtableLock | ProcbufferLock nat | ContainerLock | QueueLock nat | FreeMessageBufferLock
  | MessageBufferLock nat | KmemLock | TicksLock | ConsLock | FtableLock | IcacheLock | LogLock
  | BcacheLock | IdeLock | PipeLock uint | SleepLock nat

record spinlock =
  locked :: bool
  lkcpu :: "nat option"

record cpu =
  apicid :: nat
  ncli :: int
  intena :: bool
  curproc :: "nat option"

text \<open>The CGA screen of \<^verbatim>\<open>console.c\<close>: cursor position and character memory.\<close>

record cga =
  pos :: int
  crt :: "nat \<Rightarrow> 16 word"

definition cga_ok :: "cga \<Rightarrow> bool" where
  "cga_ok g \<longleftrightarrow> 0 \<le> pos g \<and> pos g < 24 * 80"

text \<open>
  \<open>cout\<close> is what has been sent to the serial port, \<open>cons_locking\<close> the field of the structure
  \<open>cons\<close>.
\<close>

record mach =
  cpus :: "cpu list"
  lapicid :: nat
  intr :: bool
  locks :: "lock_id \<Rightarrow> spinlock"
  cons_locking :: bool
  cout :: string
  screen :: cga

section \<open>The kernel monad\<close>

type_synonym ('c, 'a) km = "mach \<Rightarrow> 'c \<Rightarrow> kerr + ('a \<times> mach \<times> 'c)"

definition ret :: "'a \<Rightarrow> ('c, 'a) km" where
  "ret x m c = Inr (x, m, c)"

definition fail :: "kerr \<Rightarrow> ('c, 'a) km" where
  "fail e m c = Inl e"

definition bnd :: "('c, 'a) km \<Rightarrow> ('a \<Rightarrow> ('c, 'b) km) \<Rightarrow> ('c, 'b) km" where
  "bnd f g m c = (case f m c of Inl e \<Rightarrow> Inl e | Inr (x, m', c') \<Rightarrow> g x m' c')"

abbreviation andthen :: "('c, unit) km \<Rightarrow> ('c, 'b) km \<Rightarrow> ('c, 'b) km" where
  "andthen f g \<equiv> bnd f (\<lambda>_. g)"

definition look :: "('c \<Rightarrow> 'a) \<Rightarrow> ('c, 'a) km" where
  "look f m c = Inr (f c, m, c)"

definition upd :: "('c \<Rightarrow> 'c) \<Rightarrow> ('c, unit) km" where
  "upd f m c = Inr ((), m, f c)"

definition lookm :: "(mach \<Rightarrow> 'a) \<Rightarrow> ('c, 'a) km" where
  "lookm f m c = Inr (f m, m, c)"

definition updm :: "(mach \<Rightarrow> mach) \<Rightarrow> ('c, unit) km" where
  "updm f m c = Inr ((), f m, c)"

text \<open>A \<open>for\<close> loop over a list of indices.\<close>

primrec for_each :: "('i \<Rightarrow> ('c, unit) km) \<Rightarrow> 'i list \<Rightarrow> ('c, unit) km" where
  "for_each f [] = ret ()"
| "for_each f (i # is) = andthen (f i) (for_each f is)"

text \<open>Running a function of a component inside a larger state that holds the component.\<close>

definition zoom :: "('k \<Rightarrow> 'c) \<Rightarrow> ('c \<Rightarrow> 'k \<Rightarrow> 'k) \<Rightarrow> ('c, 'a) km \<Rightarrow> ('k, 'a) km" where
  "zoom get put f m k =
     (case f m (get k) of Inl e \<Rightarrow> Inl e | Inr (x, m', c) \<Rightarrow> Inr (x, m', put c k))"

lemmas km_unfold [km_simps] =
  ret_def fail_def bnd_def look_def upd_def lookm_def updm_def

lemma bnd_Inr: "f m c = Inr (x, m', c') \<Longrightarrow> bnd f g m c = g x m' c'"
  by (simp add: bnd_def)

lemma bnd_Inl: "f m c = Inl e \<Longrightarrow> bnd f g m c = Inl e"
  by (simp add: bnd_def)

lemma bnd_assoc: "bnd (bnd f g) h = bnd f (\<lambda>x. bnd (g x) h)"
  by (intro ext) (simp add: bnd_def split: sum.split)

lemma bnd_ret [simp]: "bnd (ret x) f = f x"
  by (intro ext) (simp add: bnd_def ret_def)

lemma for_each_append: "for_each f (is @ js) = andthen (for_each f is) (for_each f js)"
  by (induction "is") (simp_all add: bnd_assoc)

lemma zoom_Inr: "f m (get k) = Inr (x, m', c) \<Longrightarrow> zoom get put f m k = Inr (x, m', put c k)"
  by (simp add: zoom_def)

lemma zoom_Inl: "f m (get k) = Inl e \<Longrightarrow> zoom get put f m k = Inl e"
  by (simp add: zoom_def)

section \<open>Interrupts and locks (proc.c mycpu, spinlock.c)\<close>

definition mycpu :: "('c, nat) km" where
  "mycpu =
     bnd (lookm intr) (\<lambda>fl_if.
     if fl_if then fail (Panic ''mycpu called with interrupts enabled'')
     else bnd (lookm (\<lambda>m. find (\<lambda>i. apicid (cpus m ! i) = lapicid m) [0..<length (cpus m)]))
       (\<lambda>r. case r of Some i \<Rightarrow> ret i | None \<Rightarrow> fail (Panic ''unknown apicid'')))"

definition cli :: "('c, unit) km" where
  "cli = updm (\<lambda>m. m\<lparr>intr := False\<rparr>)"

definition sti :: "('c, unit) km" where
  "sti = updm (\<lambda>m. m\<lparr>intr := True\<rparr>)"

definition upd_cpu :: "nat \<Rightarrow> (cpu \<Rightarrow> cpu) \<Rightarrow> mach \<Rightarrow> mach" where
  "upd_cpu i f m = m\<lparr>cpus := (cpus m)[i := f (cpus m ! i)]\<rparr>"

definition pushcli :: "('c, unit) km" where
  "pushcli =
     bnd (lookm intr) (\<lambda>eflags.
     andthen cli (
     bnd mycpu (\<lambda>i.
     updm (upd_cpu i (\<lambda>c.
       (if ncli c = 0 then c\<lparr>intena := eflags\<rparr> else c)\<lparr>ncli := ncli c + 1\<rparr>)))))"

definition popcli :: "('c, unit) km" where
  "popcli =
     bnd (lookm intr) (\<lambda>fl_if.
     if fl_if then fail (Panic ''popcli - interruptible'')
     else bnd mycpu (\<lambda>i.
       andthen (updm (upd_cpu i (\<lambda>c. c\<lparr>ncli := ncli c - 1\<rparr>))) (
       bnd (lookm (\<lambda>m. cpus m ! i)) (\<lambda>c.
       if ncli c < 0 then fail (Panic ''popcli'')
       else if ncli c = 0 \<and> intena c then sti
       else ret ()))))"

definition initlock :: "lock_id \<Rightarrow> ('c, unit) km" where
  "initlock l = updm (\<lambda>m. m\<lparr>locks := (locks m)(l := \<lparr>locked = False, lkcpu = None\<rparr>)\<rparr>)"

definition holding :: "lock_id \<Rightarrow> ('c, bool) km" where
  "holding l =
     andthen pushcli (
     bnd mycpu (\<lambda>i.
     bnd (lookm (\<lambda>m. locked (locks m l) \<and> lkcpu (locks m l) = Some i)) (\<lambda>r.
     andthen popcli (ret r))))"

text \<open>
  The loop \<open>while(xchg(&lk->locked, 1) != 0);\<close> ends at once when the lock is free.  When another
  CPU holds it the loop waits for that CPU, which a function of one CPU cannot show: \<open>Stuck\<close>.
  The debugging fields \<open>name\<close> and \<open>pcs\<close> are left out.
\<close>

definition acquire :: "lock_id \<Rightarrow> ('c, unit) km" where
  "acquire l =
     andthen pushcli (
     bnd (holding l) (\<lambda>h.
     if h then fail (Panic ''acquire'')
     else bnd (lookm (\<lambda>m. locked (locks m l))) (\<lambda>taken.
       if taken then fail (Stuck ''acquire'')
       else bnd mycpu (\<lambda>i.
         updm (\<lambda>m. m\<lparr>locks := (locks m)(l := \<lparr>locked = True, lkcpu = Some i\<rparr>)\<rparr>)))))"

definition release :: "lock_id \<Rightarrow> ('c, unit) km" where
  "release l =
     bnd (holding l) (\<lambda>h.
     if \<not> h then fail (Panic ''release'')
     else andthen (updm (\<lambda>m. m\<lparr>locks := (locks m)(l := \<lparr>locked = False, lkcpu = None\<rparr>)\<rparr>))
       popcli)"

text \<open>\<open>myproc()\<close>: the process running on this CPU, \<open>None\<close> for the null pointer.\<close>

definition myproc :: "('c, nat option) km" where
  "myproc =
     andthen pushcli (
     bnd mycpu (\<lambda>i.
     bnd (lookm (\<lambda>m. curproc (cpus m ! i))) (\<lambda>p.
     andthen popcli (ret p))))"

section \<open>What a lock operation does\<close>

text \<open>The index of the CPU that runs: the first entry of \<open>cpus\<close> with the local APIC id.\<close>

definition this_cpu :: "mach \<Rightarrow> nat option" where
  "this_cpu m = find (\<lambda>i. apicid (cpus m ! i) = lapicid m) [0..<length (cpus m)]"

abbreviation cpu_of :: "mach \<Rightarrow> cpu" where
  "cpu_of m \<equiv> cpus m ! the (this_cpu m)"

text \<open>
  The machine is well formed when the running CPU is in the table, the nesting depth is not
  negative, interrupts are off inside a critical section, and outside of one \<open>intena\<close> is the
  interrupt flag (the next \<open>pushcli\<close> stores it there), and the cursor is on the screen.
\<close>

definition mach_ok :: "mach \<Rightarrow> bool" where
  "mach_ok m \<longleftrightarrow> this_cpu m \<noteq> None \<and> 0 \<le> ncli (cpu_of m) \<and>
     (0 < ncli (cpu_of m) \<longrightarrow> \<not> intr m) \<and> (ncli (cpu_of m) = 0 \<longrightarrow> intena (cpu_of m) = intr m) \<and>
     cga_ok (screen m)"

definition lock_free :: "lock_id \<Rightarrow> mach \<Rightarrow> bool" where
  "lock_free l m \<longleftrightarrow> locks m l = \<lparr>locked = False, lkcpu = None\<rparr>"

text \<open>The machine one \<open>pushcli\<close> deeper, and the machine after this CPU has acquired \<open>l\<close>.\<close>

definition deep :: "mach \<Rightarrow> mach" where
  "deep m = (upd_cpu (the (this_cpu m)) (\<lambda>c. c\<lparr>ncli := ncli c + 1\<rparr>) m)\<lparr>intr := False\<rparr>"

definition set_lock :: "lock_id \<Rightarrow> nat option \<Rightarrow> mach \<Rightarrow> mach" where
  "set_lock l i m = m\<lparr>locks := (locks m)(l := \<lparr>locked = (i \<noteq> None), lkcpu = i\<rparr>)\<rparr>"

definition hold :: "lock_id \<Rightarrow> mach \<Rightarrow> mach" where
  "hold l m = set_lock l (this_cpu m) (deep m)"

text \<open>This CPU holds \<open>l\<close>.\<close>

definition held_here :: "lock_id \<Rightarrow> mach \<Rightarrow> bool" where
  "held_here l m \<longleftrightarrow> locked (locks m l) \<and> lkcpu (locks m l) = this_cpu m"

lemma this_cpu_less: "this_cpu m = Some i \<Longrightarrow> i < length (cpus m)"
  by (auto simp: this_cpu_def find_upt_Some_iff)

lemma mach_ok_cpu:
  assumes "mach_ok m"
  obtains i where "this_cpu m = Some i" "i < length (cpus m)"
  using assms this_cpu_less by (auto simp: mach_ok_def)

lemma find_cong_upt:
  "(\<And>i. i < n \<Longrightarrow> P i = Q i) \<Longrightarrow> find P [0..<n] = find Q [0..<n]"
  by (rule find_cong) auto

lemma this_cpu_upd_cpu [simp]:
  assumes "\<And>c. apicid (f c) = apicid c"
  shows "this_cpu (upd_cpu i f m) = this_cpu m"
proof -
  have "find (\<lambda>j. apicid ((cpus m)[i := f (cpus m ! i)] ! j) = lapicid m) [0..<length (cpus m)]
      = find (\<lambda>j. apicid (cpus m ! j) = lapicid m) [0..<length (cpus m)]"
    by (rule find_cong_upt) (metis assms nth_list_update_eq nth_list_update_neq)
  then show ?thesis
    by (simp add: this_cpu_def upd_cpu_def)
qed

lemma this_cpu_upd [simp]:
  "this_cpu (m\<lparr>intr := b\<rparr>) = this_cpu m"
  "this_cpu (m\<lparr>locks := ls\<rparr>) = this_cpu m"
  "this_cpu (m\<lparr>cout := o'\<rparr>) = this_cpu m"
  "this_cpu (m\<lparr>cons_locking := b\<rparr>) = this_cpu m"
  "this_cpu (m\<lparr>screen := g\<rparr>) = this_cpu m"
  by (simp_all add: this_cpu_def)

lemma this_cpu_deep [simp]: "this_cpu (deep m) = this_cpu m"
  by (simp add: deep_def)

lemma this_cpu_set_lock [simp]: "this_cpu (set_lock l i m) = this_cpu m"
  by (simp add: set_lock_def)

lemma this_cpu_hold [simp]: "this_cpu (hold l m) = this_cpu m"
  by (simp add: hold_def)

lemma cpus_set_lock [simp]:
  "cpus (set_lock l i m) = cpus m" "intr (set_lock l i m) = intr m" "screen (set_lock l i m) = screen m"
  by (simp_all add: set_lock_def)

lemma intr_deep [simp]: "\<not> intr (deep m)"
  by (simp add: deep_def)

lemma locks_deep [simp]: "locks (deep m) = locks m"
  by (simp add: deep_def upd_cpu_def)

lemma cout_deep [simp]:
  "cout (deep m) = cout m" "cons_locking (deep m) = cons_locking m" "screen (deep m) = screen m"
  by (simp_all add: deep_def upd_cpu_def)

lemma cout_hold [simp]:
  "cout (hold l m) = cout m" "cons_locking (hold l m) = cons_locking m" "screen (hold l m) = screen m"
  by (simp_all add: hold_def set_lock_def)

lemma cpu_of_deep:
  "this_cpu m = Some i \<Longrightarrow> cpus (deep m) ! i = (cpus m ! i)\<lparr>ncli := ncli (cpus m ! i) + 1\<rparr>"
  by (simp add: deep_def upd_cpu_def this_cpu_less)

lemma mycpu_Inr: "\<not> intr m \<Longrightarrow> this_cpu m = Some i \<Longrightarrow> mycpu m c = Inr (i, m, c)"
  by (simp add: mycpu_def km_simps this_cpu_def)

lemma pushcli_ok:
  assumes "mach_ok m"
  shows "pushcli m c = Inr ((), deep m, c)"
proof -
  obtain i where i: "this_cpu m = Some i" "i < length (cpus m)"
    using assms by (rule mach_ok_cpu)
  let ?c = "cpus m ! i"
  have same: "ncli ?c = 0 \<Longrightarrow> ?c\<lparr>intena := intr m\<rparr> = ?c"
    using assms i by (cases ?c) (simp add: mach_ok_def)
  show ?thesis
    using i same by (auto simp: pushcli_def km_simps cli_def mycpu_Inr deep_def upd_cpu_def)
qed

lemma mach_ok_deep: "mach_ok m \<Longrightarrow> mach_ok (deep m)"
  by (auto simp: mach_ok_def cpu_of_deep)

lemma popcli_deep:
  assumes "mach_ok m"
  shows "popcli (deep m) c = Inr ((), m, c)"
proof -
  obtain i where i: "this_cpu m = Some i" "i < length (cpus m)"
    using assms by (rule mach_ok_cpu)
  let ?c = "cpus m ! i"
  have undo: "upd_cpu i (\<lambda>c. c\<lparr>ncli := ncli c - 1\<rparr>) (deep m) = m\<lparr>intr := False\<rparr>"
    using i by (simp add: deep_def upd_cpu_def)
  show ?thesis
    using assms i
    by (auto simp: popcli_def km_simps mycpu_Inr [of "deep m"] undo sti_def mach_ok_def)
qed

lemma holding_ok:
  assumes "mach_ok m"
  shows "holding l m c = Inr (held_here l m, m, c)"
proof -
  obtain i where i: "this_cpu m = Some i"
    using assms by (rule mach_ok_cpu)
  show ?thesis
    using i by (simp add: holding_def km_simps pushcli_ok [OF assms] mycpu_Inr [of "deep m"]
        popcli_deep [OF assms] held_here_def)
qed

lemma myproc_ok:
  assumes "mach_ok m"
  shows "myproc m c = Inr (curproc (cpu_of m), m, c)"
proof -
  obtain i where i: "this_cpu m = Some i"
    using assms by (rule mach_ok_cpu)
  show ?thesis
    using i by (simp add: myproc_def km_simps pushcli_ok [OF assms] mycpu_Inr [of "deep m"]
        popcli_deep [OF assms] cpu_of_deep)
qed

lemma mach_ok_set_lock [simp]: "mach_ok (set_lock l i m) = mach_ok m"
  by (simp add: mach_ok_def)

lemma mach_ok_hold: "mach_ok m \<Longrightarrow> mach_ok (hold l m)"
  by (simp add: hold_def mach_ok_deep)

lemma acquire_ok:
  assumes "mach_ok m" "lock_free l m"
  shows "acquire l m c = Inr ((), hold l m, c)"
proof -
  obtain i where i: "this_cpu m = Some i"
    using assms(1) by (rule mach_ok_cpu)
  show ?thesis
    using i assms(2)
    by (simp add: acquire_def km_simps pushcli_ok [OF assms(1)] holding_ok mach_ok_deep assms(1)
        held_here_def lock_free_def mycpu_Inr [of "deep m"] hold_def set_lock_def)
qed

text \<open>A CPU that acquires a lock it already holds panics: locks are not recursive.\<close>

lemma acquire_held:
  assumes "mach_ok m" "held_here l m"
  shows "acquire l m c = Inl (Panic ''acquire'')"
  using assms
  by (simp add: acquire_def km_simps pushcli_ok holding_ok mach_ok_deep held_here_def)

lemma held_here_hold [simp]:
  "mach_ok m \<Longrightarrow> held_here l' (hold l m) \<longleftrightarrow> l' = l \<or> held_here l' m"
  by (auto simp: held_here_def hold_def set_lock_def mach_ok_def)

lemma lock_free_hold [simp]:
  "mach_ok m \<Longrightarrow> lock_free l' (hold l m) \<longleftrightarrow> l' \<noteq> l \<and> lock_free l' m"
  by (auto simp: lock_free_def hold_def set_lock_def mach_ok_def)

lemma release_hold:
  assumes "mach_ok m" "lock_free l m"
  shows "release l (hold l m) c = Inr ((), m, c)"
proof -
  have "set_lock l None (hold l m) = deep m"
    using assms(2) by (simp add: hold_def set_lock_def lock_free_def fun_upd_idem)
  moreover have "release l (hold l m) c = popcli (set_lock l None (hold l m)) c"
    using assms by (simp add: release_def km_simps holding_ok mach_ok_hold set_lock_def)
  ultimately show ?thesis
    by (simp add: popcli_deep assms(1))
qed

lemma release_not_held:
  "mach_ok m \<Longrightarrow> \<not> held_here l m \<Longrightarrow> release l m c = Inl (Panic ''release'')"
  by (simp add: release_def km_simps holding_ok)

lemma deep_set_lock: "deep (set_lock l i m) = set_lock l i (deep m)"
  by (simp add: deep_def set_lock_def upd_cpu_def this_cpu_def)

lemma hold_commute: "l \<noteq> l' \<Longrightarrow> hold l (hold l' m) = hold l' (hold l m)"
  by (simp add: hold_def deep_set_lock) (simp add: set_lock_def fun_upd_twist)

lemma release_under:
  assumes "mach_ok m" "lock_free l m" "l \<noteq> l'"
  shows "release l (hold l' (hold l m)) c = Inr ((), hold l' m, c)"
  using assms lock_free_hold [of m l l'] hold_commute [of l' l m]
  by (simp add: release_hold mach_ok_hold del: lock_free_hold)

lemma initlock_free: "lock_free l m \<Longrightarrow> initlock l m c = Inr ((), m, c)"
  by (simp add: initlock_def km_simps lock_free_def fun_upd_idem)

text \<open>The machine outside of every critical section of this kernel entry.\<close>

definition quiet :: "mach \<Rightarrow> bool" where
  "quiet m \<longleftrightarrow> mach_ok m \<and> (\<forall>l. lock_free l m)"

lemma quiet_ok [simp]: "quiet m \<Longrightarrow> mach_ok m"
  by (simp add: quiet_def)

lemma quiet_free [simp]: "quiet m \<Longrightarrow> lock_free l m"
  by (simp add: quiet_def)

lemmas lock_simps [simp] = acquire_ok release_hold mach_ok_hold myproc_ok

text \<open>One processor, no lock held, interrupts on, an empty screen: a machine to run examples on.\<close>

definition idle_mach :: "nat option \<Rightarrow> mach" where
  "idle_mach p = \<lparr>cpus = [\<lparr>apicid = 0, ncli = 0, intena = True, curproc = p\<rparr>], lapicid = 0, intr = True,
     locks = (\<lambda>_. \<lparr>locked = False, lkcpu = None\<rparr>), cons_locking = True, cout = [],
     screen = \<lparr>pos = 0, crt = (\<lambda>_. 0)\<rparr>\<rparr>"

lemma this_cpu_idle [simp]: "this_cpu (idle_mach p) = Some 0"
  by (simp add: this_cpu_def idle_mach_def)

lemma quiet_idle [simp]: "quiet (idle_mach p)"
  by (simp add: quiet_def mach_ok_def lock_free_def cga_ok_def) (simp add: idle_mach_def)

lemma curproc_idle [simp]: "curproc (cpus (idle_mach p) ! 0) = p"
  by (simp add: idle_mach_def)

end
