(* ===== verification/Kalloc.thy ===== *)
theory Kalloc
  imports Cmem Machine
begin

text \<open>
  The page allocator (\<^verbatim>\<open>kalloc.c\<close>) and the address arithmetic of \<^verbatim>\<open>memlayout.h\<close> and \<^verbatim>\<open>mmu.h\<close>.
  The free pages form a list linked through their first word, in the kernel's own memory \<open>ram\<close>.
  \<open>kend\<close> is the linker symbol \<open>end\<close>, the first address after the kernel image.  The locale
  \<open>page_allocator\<close> is what the rest of the kernel relies on; its lemma says that whatever the
  sequence of allocations and frees, a page has one owner at most.

  The record \<open>kmem_state\<close> is the bottom layer of the kernel state: the other components extend it,
  and every function here works on any extension.
\<close>

section \<open>Addresses\<close>

definition PGSIZE :: uint where "PGSIZE = 4096"
definition KERNBASE :: uint where "KERNBASE = 0x80000000"
definition PHYSTOP :: uint where "PHYSTOP = 0xE000000"
definition EXTMEM :: uint where "EXTMEM = 0x100000"
definition KERNLINK :: uint where "KERNLINK = KERNBASE + EXTMEM"
definition DEVSPACE :: uint where "DEVSPACE = 0xFE000000"
definition KSTACKSIZE :: uint where "KSTACKSIZE = 4096"

lemmas addr_consts [const_defs] =
  PGSIZE_def KERNBASE_def PHYSTOP_def EXTMEM_def KERNLINK_def DEVSPACE_def KSTACKSIZE_def

definition V2P :: "uint \<Rightarrow> uint" where "V2P a = a - KERNBASE"
definition P2V :: "uint \<Rightarrow> uint" where "P2V a = a + KERNBASE"

definition PGROUNDUP :: "uint \<Rightarrow> uint" where "PGROUNDUP sz = (sz + PGSIZE - 1) AND NOT (PGSIZE - 1)"
definition PGROUNDDOWN :: "uint \<Rightarrow> uint" where "PGROUNDDOWN a = a AND NOT (PGSIZE - 1)"

section \<open>kalloc.c\<close>

record kmem_state =
  ram :: memory
  use_lock :: bool
  freelist :: uint
  kend :: uint

definition kmem_acquire :: "('a kmem_state_scheme, unit) km" where
  "kmem_acquire = bnd (look use_lock) (\<lambda>u. if u then acquire KmemLock else ret ())"

definition kmem_release :: "('a kmem_state_scheme, unit) km" where
  "kmem_release = bnd (look use_lock) (\<lambda>u. if u then release KmemLock else ret ())"

definition kfree :: "uint \<Rightarrow> ('a kmem_state_scheme, unit) km" where
  "kfree v =
     bnd (look kend) (\<lambda>e.
     if v mod PGSIZE \<noteq> 0 \<or> v < e \<or> V2P v \<ge> PHYSTOP then fail (Panic ''kfree'')
     else
       andthen (upd (\<lambda>k. k\<lparr>ram := memset (ram k) v 1 PGSIZE\<rparr>)) (
       andthen kmem_acquire (
       andthen (upd (\<lambda>k. k\<lparr>ram := wr32 (ram k) v (freelist k)\<rparr>)) (
       andthen (upd (\<lambda>k. k\<lparr>freelist := v\<rparr>))
         kmem_release))))"

definition kalloc :: "('a kmem_state_scheme, uint) km" where
  "kalloc =
     andthen kmem_acquire (
     bnd (look freelist) (\<lambda>r.
     andthen (if r \<noteq> 0 then upd (\<lambda>k. k\<lparr>freelist := rd32 (ram k) r\<rparr>) else ret ()) (
     andthen kmem_release (ret r))))"

text \<open>
  \<open>for(; p + PGSIZE <= (char*)vend; p += PGSIZE)\<close>: the pages visited, for pointers that do not
  overflow.
\<close>

definition range_pages :: "uint \<Rightarrow> uint \<Rightarrow> uint list" where
  "range_pages vstart vend =
     (let p = PGROUNDUP vstart in
      map (\<lambda>i. p + of_nat i * PGSIZE) [0..<(unat vend - unat p) div unat PGSIZE])"

definition freerange :: "uint \<Rightarrow> uint \<Rightarrow> ('a kmem_state_scheme, unit) km" where
  "freerange vstart vend = for_each kfree (range_pages vstart vend)"

definition kinit1 :: "uint \<Rightarrow> uint \<Rightarrow> ('a kmem_state_scheme, unit) km" where
  "kinit1 vstart vend =
     andthen (initlock KmemLock) (
     andthen (upd (\<lambda>k. k\<lparr>use_lock := False\<rparr>))
       (freerange vstart vend))"

definition kinit2 :: "uint \<Rightarrow> uint \<Rightarrow> ('a kmem_state_scheme, unit) km" where
  "kinit2 vstart vend =
     andthen (freerange vstart vend)
       (upd (\<lambda>k. k\<lparr>use_lock := True\<rparr>))"

section \<open>Pages\<close>

definition page_ok :: "uint \<Rightarrow> uint \<Rightarrow> bool" where
  "page_ok e p \<longleftrightarrow> p mod PGSIZE = 0 \<and> e \<le> p \<and> V2P p < PHYSTOP"

lemma page_ok_nonzero: "page_ok e p \<Longrightarrow> p \<noteq> 0"
  by (auto simp: page_ok_def V2P_def const_defs word_less_def)

lemma mod_page_unat: "p mod PGSIZE = 0 \<longleftrightarrow> unat p mod 4096 = 0"
  by (simp add: const_defs word_unat_eq_iff unat_mod)

lemma page_far:
  assumes "p mod PGSIZE = 0" "q mod PGSIZE = 0" "p \<noteq> q"
  shows "4096 \<le> unat (p - q)"
proof -
  have dv: "4096 dvd unat p" "4096 dvd unat q"
    using assms(1,2) by (auto simp: mod_page_unat)
  have "4096 dvd unat (p - q)"
  proof (cases "unat q \<le> unat p")
    case True
    then show ?thesis using dv by (simp add: unat_sub_if' dvd_diff_nat)
  next
    case False
    moreover have "(4096 :: nat) dvd 2 ^ 32" by simp
    ultimately show ?thesis using dv by (simp add: unat_sub_if' dvd_diff_nat)
  qed
  moreover have "unat (p - q) \<noteq> 0"
    using assms(3) by (simp add: unat_eq_zero)
  ultimately show ?thesis by (meson dvd_imp_le not_gr_zero)
qed

text \<open>The address \<open>a\<close> lies in the page at \<open>p\<close>.\<close>

definition in_page :: "uint \<Rightarrow> uint \<Rightarrow> bool" where
  "in_page p a \<longleftrightarrow> a - p < PGSIZE"

lemma in_page_self [simp]: "in_page p p"
  by (simp add: in_page_def const_defs)

lemma rd32_page_cong:
  assumes "p mod PGSIZE = 0" "\<And>a. in_page p a \<Longrightarrow> m' a = m a"
  shows "rd32 m' p = rd32 m p"
proof -
  have "in_page p (p + k)" if "unat k < 4" for k
    using that by (simp add: in_page_def const_defs word_less_nat_alt)
  from this [of 0] this [of 1] this [of 2] this [of 3] show ?thesis
    using assms(2) by (simp add: rd32_def)
qed

lemma in_page_disjoint:
  assumes "p mod PGSIZE = 0" "q mod PGSIZE = 0" "in_page p a" "in_page q a"
  shows "p = q"
proof (rule ccontr)
  assume ne: "p \<noteq> q"
  have far: "4096 \<le> unat (p - q)" "4096 \<le> unat (q - p)"
    using page_far [OF assms(1,2) ne] page_far [OF assms(2,1)] ne by auto
  have a: "unat (a - p) < 4096" "unat (a - q) < 4096"
    using assms(3,4) by (simp_all add: in_page_def const_defs word_less_nat_alt)
  have "a - q = (a - p) + (p - q)" by simp
  then have "unat (a - q) = (if unat (a - p) + unat (p - q) < 2 ^ 32 then unat (a - p) + unat (p - q)
      else unat (a - p) + unat (p - q) - 2 ^ 32)"
    by (simp only: unat32_plus_if)
  moreover have "unat (p - q) + unat (q - p) = 2 ^ 32"
    using unat32_plus_if [of "p - q" "q - p"] far by (simp split: if_splits)
  ultimately show False using a far by (simp split: if_splits)
qed

section \<open>The free list\<close>

primrec fchain :: "memory \<Rightarrow> uint \<Rightarrow> uint list \<Rightarrow> bool" where
  "fchain m r [] \<longleftrightarrow> r = 0"
| "fchain m r (p # ps) \<longleftrightarrow> r = p \<and> p \<noteq> 0 \<and> fchain m (rd32 m p) ps"

lemma fchain_cong: "(\<And>p. p \<in> set ps \<Longrightarrow> rd32 m' p = rd32 m p) \<Longrightarrow> fchain m' r ps = fchain m r ps"
  by (induction ps arbitrary: r) auto

text \<open>The free pages are \<open>fl\<close>.\<close>

definition free_rep :: "'a kmem_state_scheme \<Rightarrow> uint list \<Rightarrow> bool" where
  "free_rep k fl \<longleftrightarrow> fchain (ram k) (freelist k) fl \<and> distinct fl \<and> (\<forall>p \<in> set fl. page_ok (kend k) p)"

text \<open>Writes outside of the free pages keep the free list.\<close>

lemma free_rep_frame:
  assumes "free_rep k fl" "freelist k' = freelist k" "kend k' = kend k"
    and "\<And>p a. p \<in> set fl \<Longrightarrow> in_page p a \<Longrightarrow> ram k' a = ram k a"
  shows "free_rep k' fl"
proof -
  have "rd32 (ram k') p = rd32 (ram k) p" if "p \<in> set fl" for p
    using assms(1) that assms(4) [OF that]
    by (intro rd32_page_cong) (auto simp: free_rep_def page_ok_def)
  then show ?thesis
    using assms fchain_cong [of fl "ram k'" "ram k"] by (simp add: free_rep_def)
qed

lemma kmem_lock:
  assumes "mach_ok m" "lock_free KmemLock m"
  shows "kmem_acquire m k = Inr ((), if use_lock k then hold KmemLock m else m, k)"
    and "kmem_release (if use_lock k then hold KmemLock m else m) k = Inr ((), m, k)"
  using assms by (simp_all add: kmem_acquire_def kmem_release_def km_simps)

lemma kalloc_some:
  assumes "mach_ok m" "lock_free KmemLock m" "freelist k \<noteq> 0"
  shows "kalloc m k = Inr (freelist k, m, k\<lparr>freelist := rd32 (ram k) (freelist k)\<rparr>)"
  using assms by (cases "use_lock k") (simp_all add: kalloc_def kmem_acquire_def kmem_release_def km_simps)

lemma kalloc_none:
  assumes "mach_ok m" "lock_free KmemLock m" "freelist k = 0"
  shows "kalloc m k = Inr (0, m, k)"
  using assms by (cases "use_lock k") (simp_all add: kalloc_def kmem_acquire_def kmem_release_def km_simps)

lemma free_rep_Cons:
  "free_rep k (p # fl) \<Longrightarrow> freelist k = p \<and> p \<noteq> 0 \<and> page_ok (kend k) p \<and> p \<notin> set fl \<and>
     free_rep (k\<lparr>freelist := rd32 (ram k) p\<rparr>) fl"
  by (auto simp: free_rep_def)

text \<open>The state after \<open>kfree\<close>.\<close>

definition kfreed :: "uint \<Rightarrow> 'a kmem_state_scheme \<Rightarrow> 'a kmem_state_scheme" where
  "kfreed p k = k\<lparr>ram := wr32 (memset (ram k) p 1 PGSIZE) p (freelist k), freelist := p\<rparr>"

lemma kfree_step:
  assumes "mach_ok m" "lock_free KmemLock m" "page_ok (kend k) p"
  shows "kfree p m k = Inr ((), m, kfreed p k)"
  using assms
  by (cases "use_lock k")
    (simp_all add: kfree_def kmem_acquire_def kmem_release_def km_simps page_ok_def kfreed_def not_less not_le)

lemma kfree_bad: "\<not> page_ok (kend k) p \<Longrightarrow> kfree p m k = Inl (Panic ''kfree'')"
  by (auto simp: kfree_def km_simps page_ok_def not_less not_le)

lemma kfreed_fields [simp]: "freelist (kfreed p k) = p" "kend (kfreed p k) = kend k" "use_lock (kfreed p k) = use_lock k"
  by (simp_all add: kfreed_def)

lemma kfreed_outside: "\<not> in_page p a \<Longrightarrow> ram (kfreed p k) a = ram k a"
  by (simp add: kfreed_def wr32_other memset_closed in_page_def const_defs word_less_nat_alt not_less)

lemma kfreed_rep:
  assumes "free_rep k fl" "page_ok (kend k) p" "p \<notin> set fl"
  shows "free_rep (kfreed p k) (p # fl)"
proof -
  have keep: "ram (kfreed p k) a = ram k a" if "q \<in> set fl" "in_page q a" for q a
    using that assms in_page_disjoint [of p q a]
    by (intro kfreed_outside) (auto simp: free_rep_def page_ok_def)
  have "free_rep ((kfreed p k)\<lparr>freelist := freelist k\<rparr>) fl"
    using assms(1) keep by (rule_tac free_rep_frame [of k]) auto
  moreover have "rd32 (ram (kfreed p k)) p = freelist k"
    by (simp add: kfreed_def)
  ultimately show ?thesis
    using assms(2,3) page_ok_nonzero [OF assms(2)] by (simp add: free_rep_def)
qed

lemma for_each_kfree:
  assumes "mach_ok m" "lock_free KmemLock m"
  shows "free_rep k fl \<Longrightarrow> distinct ps \<Longrightarrow> set ps \<inter> set fl = {} \<Longrightarrow> \<forall>p \<in> set ps. page_ok (kend k) p \<Longrightarrow>
    \<exists>k'. for_each kfree ps m k = Inr ((), m, k') \<and> free_rep k' (rev ps @ fl) \<and>
      kend k' = kend k \<and> use_lock k' = use_lock k"
proof (induction ps arbitrary: k fl)
  case Nil
  then show ?case by (auto simp: ret_def)
next
  case (Cons p ps)
  have step: "kfree p m k = Inr ((), m, kfreed p k)"
    using Cons.prems assms by (intro kfree_step) auto
  have "free_rep (kfreed p k) (p # fl)"
    using Cons.prems by (intro kfreed_rep) auto
  then have "\<exists>k'. for_each kfree ps m (kfreed p k) = Inr ((), m, k') \<and> free_rep k' (rev ps @ p # fl) \<and>
      kend k' = kend (kfreed p k) \<and> use_lock k' = use_lock (kfreed p k)"
    using Cons.prems by (intro Cons.IH) auto
  then show ?case
    using step by (auto simp: bnd_def)
qed

section \<open>The contract of the allocator\<close>

locale page_allocator =
  fixes alloc :: "'s \<Rightarrow> ('p option \<times> 's) option"
    and free :: "'p \<Rightarrow> 's \<Rightarrow> 's option"
    and avail :: "'s \<Rightarrow> 'p list \<Rightarrow> bool"
    and page :: "'s \<Rightarrow> 'p \<Rightarrow> bool"
  assumes avail_pages: "avail s ps \<Longrightarrow> distinct ps \<and> (\<forall>p \<in> set ps. page s p)"
    and alloc_Nil: "avail s [] \<Longrightarrow> alloc s = Some (None, s)"
    and alloc_Cons: "avail s (p # ps) \<Longrightarrow> \<exists>s'. alloc s = Some (Some p, s') \<and> avail s' ps \<and> page s' = page s"
    and free_page: "avail s ps \<Longrightarrow> page s p \<Longrightarrow> p \<notin> set ps \<Longrightarrow>
      \<exists>s'. free p s = Some s' \<and> avail s' (p # ps) \<and> page s' = page s"

datatype 'p aop = Alloc | Free 'p

text \<open>
  A client runs a sequence of allocations and frees; it keeps the list of the pages it owns and
  frees only such pages (\<open>None\<close> is a free of a page it does not own, or a call that fails).
\<close>

fun run_aops :: "('s \<Rightarrow> ('p option \<times> 's) option) \<Rightarrow> ('p \<Rightarrow> 's \<Rightarrow> 's option) \<Rightarrow>
    'p aop list \<Rightarrow> 'p list \<Rightarrow> 's \<Rightarrow> ('p list \<times> 's) option" where
  "run_aops alloc free [] own s = Some (own, s)"
| "run_aops alloc free (Alloc # ops) own s =
     (case alloc s of None \<Rightarrow> None
      | Some (None, s') \<Rightarrow> run_aops alloc free ops own s'
      | Some (Some p, s') \<Rightarrow> run_aops alloc free ops (p # own) s')"
| "run_aops alloc free (Free p # ops) own s =
     (if p \<notin> set own then None
      else case free p s of None \<Rightarrow> None | Some s' \<Rightarrow> run_aops alloc free ops (removeAll p own) s')"

text \<open>The frees of a sequence name pages owned at that moment.\<close>

fun frees_owned :: "('s \<Rightarrow> ('p option \<times> 's) option) \<Rightarrow> ('p \<Rightarrow> 's \<Rightarrow> 's option) \<Rightarrow>
    'p aop list \<Rightarrow> 'p list \<Rightarrow> 's \<Rightarrow> bool" where
  "frees_owned alloc free [] own s = True"
| "frees_owned alloc free (Alloc # ops) own s =
     (case alloc s of None \<Rightarrow> True
      | Some (None, s') \<Rightarrow> frees_owned alloc free ops own s'
      | Some (Some p, s') \<Rightarrow> frees_owned alloc free ops (p # own) s')"
| "frees_owned alloc free (Free p # ops) own s =
     (p \<in> set own \<and>
      (case free p s of None \<Rightarrow> True | Some s' \<Rightarrow> frees_owned alloc free ops (removeAll p own) s'))"

context page_allocator
begin

lemma one_owner:
  assumes "avail s ps" "distinct (own @ ps)" "\<forall>p \<in> set own. page s p" "frees_owned alloc free ops own s"
  shows "\<exists>own' s' ps'. run_aops alloc free ops own s = Some (own', s') \<and> avail s' ps' \<and>
    distinct (own' @ ps') \<and> set (own' @ ps') = set (own @ ps)"
  using assms
proof (induction ops arbitrary: own s ps)
  case Nil
  then show ?case by auto
next
  case (Cons x ops)
  show ?case
  proof (cases x)
    case Alloc
    show ?thesis
    proof (cases ps)
      case Nil
      then show ?thesis
        using Cons.prems Cons.IH [of s "[]" own] alloc_Nil [of s] Alloc by auto
    next
      case (Cons p qs)
      then obtain s' where s': "alloc s = Some (Some p, s')" "avail s' qs" "page s' = page s"
        using alloc_Cons Cons.prems(1) by blast
      have "\<exists>own' s'' ps'. run_aops alloc free ops (p # own) s' = Some (own', s'') \<and> avail s'' ps' \<and>
          distinct (own' @ ps') \<and> set (own' @ ps') = set ((p # own) @ qs)"
        by (rule Cons.IH) (use Cons.prems Cons s' Alloc avail_pages [OF Cons.prems(1)] in auto)
      then show ?thesis using s' Alloc Cons by auto
    qed
  next
    case (Free p)
    then have p: "p \<in> set own" using Cons.prems(4) by simp
    then obtain s' where s': "free p s = Some s'" "avail s' (p # ps)" "page s' = page s"
      using free_page [OF Cons.prems(1), of p] Cons.prems by auto
    have "\<exists>own' s'' ps'. run_aops alloc free ops (removeAll p own) s' = Some (own', s'') \<and> avail s'' ps' \<and>
        distinct (own' @ ps') \<and> set (own' @ ps') = set (removeAll p own @ p # ps)"
      by (rule Cons.IH) (use Cons.prems s' Free p in \<open>auto simp: distinct_removeAll\<close>)
    moreover have "set (removeAll p own @ p # ps) = set (own @ ps)" using p by auto
    ultimately show ?thesis using s' Free p by simp
  qed
qed

end

text \<open>The calls of \<^verbatim>\<open>kalloc.c\<close> on a machine and the allocator's state.\<close>

definition alloc_op :: "mach \<times> kmem_state \<Rightarrow> (uint option \<times> mach \<times> kmem_state) option" where
  "alloc_op s = (case kalloc (fst s) (snd s) of
     Inl e \<Rightarrow> None | Inr (p, s') \<Rightarrow> Some (if p = 0 then None else Some p, s'))"

definition free_op :: "uint \<Rightarrow> mach \<times> kmem_state \<Rightarrow> (mach \<times> kmem_state) option" where
  "free_op p s = (case kfree p (fst s) (snd s) of Inl e \<Rightarrow> None | Inr (_, s') \<Rightarrow> Some s')"

definition kmem_avail :: "mach \<times> kmem_state \<Rightarrow> uint list \<Rightarrow> bool" where
  "kmem_avail s ps \<longleftrightarrow> mach_ok (fst s) \<and> lock_free KmemLock (fst s) \<and> free_rep (snd s) ps"

interpretation ka: page_allocator alloc_op free_op kmem_avail "\<lambda>s. page_ok (kend (snd s))"
proof (unfold_locales, goal_cases)
  case (1 s ps)
  then show ?case by (simp add: kmem_avail_def free_rep_def)
next
  case (2 s)
  then show ?case by (simp add: kmem_avail_def free_rep_def alloc_op_def kalloc_none)
next
  case (3 s p ps)
  then show ?case
    using free_rep_Cons [of "snd s" p ps] by (auto simp: kmem_avail_def alloc_op_def kalloc_some)
next
  case (4 s ps p)
  then show ?case by (auto simp: kmem_avail_def free_op_def kfree_step kfreed_rep)
qed

section \<open>Properties\<close>

text \<open>C7: from a well-formed free list, every sequence of \<open>kalloc\<close> and \<open>kfree\<close> calls in which the
  client frees only pages it owns runs without a panic; afterwards the owned pages and the free
  pages are still disjoint, without repetition, and together the pages there were at the start.\<close>

theorem kalloc_one_owner:
  assumes "quiet m" "free_rep k ps" "frees_owned alloc_op free_op ops [] (m, k)"
  shows "\<exists>own m' k' ps'. run_aops alloc_op free_op ops [] (m, k) = Some (own, m', k') \<and>
    free_rep k' ps' \<and> distinct (own @ ps') \<and> set (own @ ps') = set ps"
proof -
  have "kmem_avail (m, k) ps" using assms(1,2) by (simp add: kmem_avail_def)
  from ka.one_owner [OF this, of "[]" ops] show ?thesis
    using assms(2,3) by (fastforce simp: kmem_avail_def free_rep_def)
qed

text \<open>A free list of two pages; allocate one, free it, allocate three times.\<close>

definition two_pages :: kmem_state where
  "two_pages = \<lparr>ram = wr32 (wr32 (\<lambda>_. 0) 0x80400000 0x80401000) 0x80401000 0,
     use_lock = True, freelist = 0x80400000, kend = 0x80400000\<rparr>"

lemma two_pages_rep: "free_rep two_pages [0x80400000, 0x80401000]"
proof -
  have "rd32 (ram two_pages) 0x80400000 = 0x80401000"
    by (simp add: two_pages_def rd32_wr32_other)
  then show ?thesis
    by (simp add: free_rep_def page_ok_def V2P_def const_defs two_pages_def)
qed

theorem kalloc_one_owner_witness:
  "\<exists>own m' k' ps'.
     run_aops alloc_op free_op [Alloc, Free 0x80400000, Alloc, Alloc, Alloc] [] (idle_mach None, two_pages)
       = Some (own, m', k') \<and> free_rep k' ps' \<and> distinct (own @ ps') \<and>
     set (own @ ps') = {0x80400000, 0x80401000}"
proof -
  have first: "alloc_op (idle_mach None, two_pages) =
      Some (Some 0x80400000, idle_mach None, two_pages\<lparr>freelist := 0x80401000\<rparr>)"
    using two_pages_rep by (simp add: alloc_op_def kalloc_some free_rep_def)
  have "frees_owned alloc_op free_op (replicate n Alloc) own s" for n own s
    by (induction n arbitrary: own s) (auto split: option.split)
  from this [of 3] have "frees_owned alloc_op free_op [Alloc, Alloc, Alloc] own s" for own s
    by (simp add: numeral_eq_Suc)
  then have "frees_owned alloc_op free_op [Alloc, Free 0x80400000, Alloc, Alloc, Alloc] []
      (idle_mach None, two_pages)"
    by (subst frees_owned.simps) (simp add: first del: frees_owned.simps(2) split: option.split)
  from kalloc_one_owner [OF quiet_idle two_pages_rep this] show ?thesis by simp
qed

text \<open>The function \<open>kfree\<close> panics exactly for an address that is not page-aligned, lies below the end of the
  kernel or at or above \<open>PHYSTOP\<close>; otherwise the page is put first on the free list, the machine
  is as before, and no byte outside the page changes.\<close>

lemma kfree_checks:
  assumes "quiet m"
  shows "(page_ok (kend k) p \<longrightarrow>
      (\<exists>k'. kfree p m k = Inr ((), m, k') \<and> freelist k' = p \<and> rd32 (ram k') p = freelist k \<and>
        (\<forall>a. \<not> in_page p a \<longrightarrow> ram k' a = ram k a))) \<and>
    (\<not> page_ok (kend k) p \<longrightarrow> kfree p m k = Inl (Panic ''kfree''))"
proof -
  have "rd32 (ram (kfreed p k)) p = freelist k" by (simp add: kfreed_def)
  then show ?thesis
    using assms by (auto simp: kfree_step kfree_bad kfreed_outside)
qed

lemma kfree_checks_witness:
  "(\<exists>k'. kfree 0x80500000 (idle_mach None) two_pages = Inr ((), idle_mach None, k') \<and>
      freelist k' = 0x80500000) \<and>
   kfree 0x80500004 (idle_mach None) two_pages = Inl (Panic ''kfree'')"
  using kfree_checks [OF quiet_idle, of two_pages "0x80500000" None]
    kfree_checks [OF quiet_idle, of two_pages "0x80500004" None]
  by (auto simp: page_ok_def V2P_def const_defs two_pages_def)

end
