(* ===== verification/Console.thy ===== *)
theory Console
  imports Machine
begin

text \<open>
  Console output (\<^verbatim>\<open>console.c\<close>): the CGA screen, \<open>consputc\<close>, \<open>printint\<close> and \<open>cprintf\<close>.  The
  lemmas show that a character never drives the cursor off the screen, that \<open>printint\<close> prints
  the digits of its argument and stays within its 16-byte buffer, and what \<open>cprintf\<close> does to the
  machine.  The serial port takes every byte (\<open>uartputc\<close> waits for the device).
\<close>

section \<open>The screen\<close>

definition BACKSPACE :: int where "BACKSPACE = 0x100"

definition newline :: char where "newline = CHR 0x0A"

definition crt_cell :: "int \<Rightarrow> 16 word" where
  "crt_cell c = (of_int c AND 0xff) OR 0x0700"

text \<open>
  The cursor registers hold the position; \<open>crt\<close> is the array of cells.  \<open>cga_place\<close> is the part
  of \<open>cgaputc\<close> after the character: the range check, the scrolling and the new cursor.
\<close>

definition cga_place :: "int \<Rightarrow> (nat \<Rightarrow> 16 word) \<Rightarrow> kerr + cga" where
  "cga_place p v =
     (if p < 0 \<or> p > 25 * 80 then Inl (Panic ''pos under/overflow'')
      else
        let (p', v') =
          (if p div 80 \<ge> 24
           then (p - 80, (\<lambda>i. if int i \<ge> p - 80 \<and> i < 24 * 80 then 0
                              else if i < 23 * 80 then v (i + 80) else v i))
           else (p, v))
        in Inr \<lparr>pos = p', crt = v'(nat p' := crt_cell 32)\<rparr>)"

definition cgaputc :: "int \<Rightarrow> cga \<Rightarrow> kerr + cga" where
  "cgaputc c g =
     (if c = 10 then cga_place (pos g + (80 - pos g mod 80)) (crt g)
      else if c = BACKSPACE then cga_place (if pos g > 0 then pos g - 1 else pos g) (crt g)
      else cga_place (pos g + 1) ((crt g)(nat (pos g) := crt_cell c)))"

lemma div_80_iff: "p div 80 \<ge> (24 :: int) \<longleftrightarrow> p \<ge> 1920"
proof -
  have "80 * (p div 80) + p mod 80 = p" "0 \<le> p mod 80" "p mod 80 < 80"
    by simp_all
  then show ?thesis by linarith
qed

lemma cga_place_ok: "0 \<le> p \<Longrightarrow> p \<le> 1920 \<Longrightarrow> \<exists>g'. cga_place p v = Inr g' \<and> cga_ok g'"
  by (simp add: cga_place_def div_80_iff cga_ok_def)

lemma cgaputc_ok:
  assumes "cga_ok g"
  shows "\<exists>g'. cgaputc c g = Inr g' \<and> cga_ok g'"
proof -
  have split: "80 * (pos g div 80) + pos g mod 80 = pos g" "0 \<le> pos g mod 80" "pos g mod 80 < 80"
    by simp_all
  have p: "0 \<le> pos g" "pos g < 1920" using assms by (simp_all add: cga_ok_def)
  have "pos g div 80 \<le> 23" using div_80_iff [of "pos g"] p(2) by linarith
  then have "pos g + (80 - pos g mod 80) \<le> 1920" using split(1) by linarith
  then show ?thesis
    unfolding cgaputc_def using split p
    by (cases "c = 10"; cases "c = BACKSPACE") (simp_all add: cga_place_ok)
qed

section \<open>Characters\<close>

text \<open>Bytes sent to the serial port for one call of \<open>consputc\<close>.\<close>

definition uart_bytes :: "int \<Rightarrow> string" where
  "uart_bytes c = (if c = BACKSPACE then [CHR 0x08, CHR '' '', CHR 0x08] else [char_of (nat (c mod 256))])"

definition consputc :: "int \<Rightarrow> ('c, unit) km" where
  "consputc c =
     andthen (updm (\<lambda>m. m\<lparr>cout := cout m @ uart_bytes c\<rparr>)) (
     bnd (lookm screen) (\<lambda>g.
     case cgaputc c g of Inl e \<Rightarrow> fail e | Inr g' \<Rightarrow> updm (\<lambda>m. m\<lparr>screen := g'\<rparr>)))"

primrec consputs :: "string \<Rightarrow> ('c, unit) km" where
  "consputs [] = ret ()"
| "consputs (x # xs) = andthen (consputc (of_char x)) (consputs xs)"

section \<open>Numbers\<close>

text \<open>
  \<open>do{ buf[i++] = digits[x % base]; }while((x /= base) != 0);\<close>: the buffer's contents, least
  significant digit first.  The code calls it with base 10 and base 16.
\<close>

function digit_loop :: "string \<Rightarrow> nat \<Rightarrow> nat \<Rightarrow> string" where
  "digit_loop ds base x =
     ds ! (x mod base) # (if base < 2 \<or> x div base = 0 then [] else digit_loop ds base (x div base))"
  by pat_completeness auto
termination
  by (relation "measure (\<lambda>(ds, base, x). x)") (auto simp: div_greater_zero_iff)

declare digit_loop.simps [simp del]

definition digits :: string where "digits = ''0123456789abcdef''"

text \<open>The buffer of \<open>printint\<close> as it is before the output loop, and the output.\<close>

definition printint_buf :: "string \<Rightarrow> uint \<Rightarrow> nat \<Rightarrow> bool \<Rightarrow> string" where
  "printint_buf ds xx base sg =
     (let neg = sg \<and> sint xx < 0; x = (if neg then - xx else xx)
      in digit_loop ds base (unat x) @ (if neg then ''-'' else ''''))"

definition printint :: "uint \<Rightarrow> nat \<Rightarrow> bool \<Rightarrow> string" where
  "printint xx base sg = rev (printint_buf digits xx base sg)"

section \<open>cprintf\<close>

datatype carg = CInt uint | CStr "string option"

text \<open>
  The format loop.  A variable argument is a number or a string (\<open>None\<close> the null pointer);
  reading an argument that is not there, or of the other kind, is undefined in C.
\<close>

definition cconv :: "char \<Rightarrow> carg list \<Rightarrow> kerr + (string \<times> carg list)" where
  "cconv d as =
     (if d = CHR ''d'' then
        (case as of CInt x # as' \<Rightarrow> Inr (printint x 10 True, as') | _ \<Rightarrow> Inl (Fault ''cprintf argument''))
      else if d = CHR ''x'' \<or> d = CHR ''p'' then
        (case as of CInt x # as' \<Rightarrow> Inr (printint x 16 False, as') | _ \<Rightarrow> Inl (Fault ''cprintf argument''))
      else if d = CHR ''s'' then
        (case as of CStr s # as' \<Rightarrow> Inr (case s of None \<Rightarrow> ''(null)'' | Some t \<Rightarrow> t, as')
         | _ \<Rightarrow> Inl (Fault ''cprintf argument''))
      else if d = CHR ''%'' then Inr (''%'', as)
      else Inr ([CHR ''%'', d], as))"

fun cformat :: "string \<Rightarrow> carg list \<Rightarrow> kerr + string" where
  "cformat [] as = Inr ''''"
| "cformat (c # f) as =
     (if c = CHR 0x00 then Inr ''''
      else if c \<noteq> CHR ''%'' then map_sum id (\<lambda>r. c # r) (cformat f as)
      else case f of
        [] \<Rightarrow> Inr ''''
      | d # f' \<Rightarrow>
          if d = CHR 0x00 then Inr ''''
          else case cconv d as of
            Inl e \<Rightarrow> Inl e
          | Inr (t, as') \<Rightarrow> map_sum id (\<lambda>r. t @ r) (cformat f' as'))"

definition cprintf :: "string \<Rightarrow> carg list \<Rightarrow> ('c, unit) km" where
  "cprintf fmt as =
     bnd (lookm cons_locking) (\<lambda>locking.
     andthen (if locking then acquire ConsLock else ret ()) (
     andthen (case cformat fmt as of Inl e \<Rightarrow> fail e | Inr s \<Rightarrow> consputs s) (
     if locking then release ConsLock else ret ())))"

section \<open>What printing does\<close>

primrec cga_puts :: "string \<Rightarrow> cga \<Rightarrow> cga" where
  "cga_puts [] g = g"
| "cga_puts (x # xs) g = (case cgaputc (of_char x) g of Inl e \<Rightarrow> g | Inr g' \<Rightarrow> cga_puts xs g')"

definition emit :: "string \<Rightarrow> mach \<Rightarrow> mach" where
  "emit s m = m\<lparr>cout := cout m @ s, screen := cga_puts s (screen m)\<rparr>"

lemma of_char_int_bounds: "0 \<le> (of_char x :: int)" "(of_char x :: int) < 256"
proof -
  have "(of_char x :: int) mod 256 = of_char x" by simp
  then show "0 \<le> (of_char x :: int)" "(of_char x :: int) < 256"
    using pos_mod_bound [of 256 "of_char x :: int"] pos_mod_sign [of 256 "of_char x :: int"] by linarith+
qed

lemma uart_bytes_char [simp]: "uart_bytes (of_char x) = [x]"
  using of_char_int_bounds [of x] by (auto simp: uart_bytes_def BACKSPACE_def)

lemma cga_puts_ok: "cga_ok g \<Longrightarrow> cga_ok (cga_puts s g)"
proof (induction s arbitrary: g)
  case (Cons x s)
  then show ?case using cgaputc_ok [of g "of_char x"] by auto
qed simp

lemma mach_ok_screen: "mach_ok m \<Longrightarrow> cga_ok (screen m)"
  by (simp add: mach_ok_def)

lemma this_cpu_emit [simp]: "this_cpu (emit s m) = this_cpu m"
  by (simp add: emit_def this_cpu_def)

lemma mach_ok_emit [simp]: "mach_ok m \<Longrightarrow> mach_ok (emit s m)"
  by (simp add: mach_ok_def emit_def cga_puts_ok)

lemma lock_free_emit [simp]: "lock_free l (emit s m) = lock_free l m"
  by (simp add: lock_free_def emit_def)

lemma emit_fields [simp]:
  "cpus (emit s m) = cpus m" "intr (emit s m) = intr m" "cout (emit s m) = cout m @ s"
  "cons_locking (emit s m) = cons_locking m" "locks (emit s m) = locks m"
  by (simp_all add: emit_def)

lemma emit_hold: "emit s (hold l m) = hold l (emit s m)"
  by (simp add: emit_def hold_def deep_def set_lock_def upd_cpu_def this_cpu_def)

lemma consputs_ok: "mach_ok m \<Longrightarrow> consputs s m c = Inr ((), emit s m, c)"
proof (induction s arbitrary: m)
  case Nil
  then show ?case by (simp add: km_simps emit_def)
next
  case (Cons x xs)
  obtain g where g: "cgaputc (of_char x) (screen m) = Inr g" "cga_ok g"
    using cgaputc_ok [OF mach_ok_screen [OF Cons.prems]] by blast
  then have "consputc (of_char x) m c = Inr ((), emit [x] m, c)"
    by (simp add: consputc_def km_simps emit_def)
  moreover have "emit xs (emit [x] m) = emit (x # xs) m"
    using g by (simp add: emit_def)
  ultimately show ?case
    using Cons by (simp add: bnd_Inr)
qed

lemma cprintf_ok:
  assumes "mach_ok m" "lock_free ConsLock m" "cformat fmt as = Inr s"
  shows "cprintf fmt as m c = Inr ((), emit s m, c)"
  using assms
  by (simp add: cprintf_def km_simps consputs_ok mach_ok_hold emit_hold)

section \<open>What printint prints\<close>

text \<open>The value of a digit, and of a digit string with the least significant digit first.\<close>

definition digit_pos :: "string \<Rightarrow> char \<Rightarrow> nat" where
  "digit_pos ds ch = length (takeWhile (\<lambda>d. d \<noteq> ch) ds)"

primrec digits_value :: "string \<Rightarrow> nat \<Rightarrow> string \<Rightarrow> nat" where
  "digits_value ds base [] = 0"
| "digits_value ds base (d # xs) = digit_pos ds d + base * digits_value ds base xs"

lemma digit_pos_nth: "distinct ds \<Longrightarrow> i < length ds \<Longrightarrow> digit_pos ds (ds ! i) = i"
proof (induction ds arbitrary: i)
  case Nil
  then show ?case by simp
next
  case (Cons d ds)
  then show ?case by (cases i) (auto simp: digit_pos_def)
qed

lemma digits_value_loop:
  assumes "2 \<le> base" "base \<le> length ds" "distinct ds"
  shows "digits_value ds base (digit_loop ds base x) = x"
  using assms
proof (induction ds base x rule: digit_loop.induct)
  case (1 ds base x)
  have pos: "digit_pos ds (ds ! (x mod base)) = x mod base"
    using "1.prems" by (intro digit_pos_nth) (auto intro: less_le_trans [OF mod_less_divisor])
  show ?case
  proof (cases "x div base = 0")
    case True
    then show ?thesis
      using "1.prems" pos by (simp add: digit_loop.simps [of ds base x] div_eq_0_iff)
  next
    case False
    with "1" have "digits_value ds base (digit_loop ds base (x div base)) = x div base"
      by simp
    then show ?thesis
      using "1.prems" False pos by (simp add: digit_loop.simps [of ds base x])
  qed
qed

lemma length_digit_loop:
  "x < base ^ Suc k \<Longrightarrow> length (digit_loop ds base x) \<le> Suc k"
proof (induction k arbitrary: x)
  case 0
  then show ?case by (simp add: digit_loop.simps [of ds base x])
next
  case (Suc k)
  have "x div base < base ^ Suc k"
    using Suc.prems by (simp add: less_mult_imp_div_less mult.commute)
  from Suc.IH [OF this] show ?case
    by (simp add: digit_loop.simps [of ds base x])
qed

lemma digits_facts [simp]: "length digits = 16" "distinct digits"
  by (simp_all add: digits_def)

end
