(* ===== verification/Vm.thy ===== *)
theory Vm
  imports Kalloc Console
begin

text \<open>
  Page tables (\<^verbatim>\<open>vm.c\<close>).  A page directory and its page tables are pages of \<open>ram\<close>, read and
  written word by word as the code does; \<open>translate\<close> is the translation they define.  An access of
  the kernel to user memory goes through the page table in \<open>cr3\<close>; an address that is not mapped is a
  page fault inside the kernel, which is fatal.

  The segment descriptors (\<open>seginit\<close>, \<open>switchuvm\<close>'s TSS) are processor set-up and are left out;
  \<open>loaduvm\<close> reads a file and is with the file system.
\<close>

section \<open>Entries\<close>

definition PTE_P :: uint where "PTE_P = 0x001"
definition PTE_W :: uint where "PTE_W = 0x002"
definition PTE_U :: uint where "PTE_U = 0x004"

lemmas pte_consts [const_defs] = PTE_P_def PTE_W_def PTE_U_def

definition PDX :: "uint \<Rightarrow> uint" where "PDX va = drop_bit 22 va AND 0x3FF"
definition PTX :: "uint \<Rightarrow> uint" where "PTX va = drop_bit 12 va AND 0x3FF"
definition PGADDR :: "uint \<Rightarrow> uint \<Rightarrow> uint \<Rightarrow> uint" where
  "PGADDR d t ofs = push_bit 22 d OR push_bit 12 t OR ofs"
definition PTE_ADDR :: "uint \<Rightarrow> uint" where "PTE_ADDR pte = pte AND NOT 0xFFF"
definition PTE_FLAGS :: "uint \<Rightarrow> uint" where "PTE_FLAGS pte = pte AND 0xFFF"

record vm_state = kmem_state +
  kpgdir :: uint
  cr3 :: uint
  kdata :: uint

section \<open>vm.c\<close>

text \<open>A result of 0 is the null pointer.\<close>

definition walkpgdir :: "uint \<Rightarrow> uint \<Rightarrow> bool \<Rightarrow> ('a kmem_state_scheme, uint) km" where
  "walkpgdir pgdir va allocate =
     bnd (look (\<lambda>k. rd32 (ram k) (pgdir + 4 * PDX va))) (\<lambda>pde.
     if pde AND PTE_P \<noteq> 0 then ret (P2V (PTE_ADDR pde) + 4 * PTX va)
     else if \<not> allocate then ret 0
     else
       bnd kalloc (\<lambda>pgtab.
       if pgtab = 0 then ret 0
       else
         andthen (upd (\<lambda>k. k\<lparr>ram := memset (ram k) pgtab 0 PGSIZE\<rparr>)) (
         andthen (upd (\<lambda>k. k\<lparr>ram := wr32 (ram k) (pgdir + 4 * PDX va)
                                    (V2P pgtab OR PTE_P OR PTE_W OR PTE_U)\<rparr>)) (
         ret (pgtab + 4 * PTX va)))))"

text \<open>
  One turn of the loop of \<open>mappages\<close>, and the loop: \<open>n\<close> more pages follow \<open>a\<close>, so \<open>a == last\<close> holds
  when \<open>n\<close> is 0.
\<close>

definition map_page :: "uint \<Rightarrow> uint \<Rightarrow> uint \<Rightarrow> uint \<Rightarrow> ('a kmem_state_scheme, int) km" where
  "map_page pgdir a pa perm =
     bnd (walkpgdir pgdir a True) (\<lambda>pte.
     if pte = 0 then ret (-1)
     else bnd (look (\<lambda>k. rd32 (ram k) pte)) (\<lambda>e.
       if e AND PTE_P \<noteq> 0 then fail (Panic ''remap'')
       else andthen (upd (\<lambda>k. k\<lparr>ram := wr32 (ram k) pte (pa OR perm OR PTE_P)\<rparr>)) (ret 0)))"

primrec mappages_loop :: "nat \<Rightarrow> uint \<Rightarrow> uint \<Rightarrow> uint \<Rightarrow> uint \<Rightarrow> ('a kmem_state_scheme, int) km" where
  "mappages_loop 0 pgdir a pa perm = map_page pgdir a pa perm"
| "mappages_loop (Suc n) pgdir a pa perm =
     bnd (map_page pgdir a pa perm) (\<lambda>r.
     if r < 0 then ret (-1) else mappages_loop n pgdir (a + PGSIZE) (pa + PGSIZE) perm)"

definition mappages :: "uint \<Rightarrow> uint \<Rightarrow> uint \<Rightarrow> uint \<Rightarrow> uint \<Rightarrow> ('a kmem_state_scheme, int) km" where
  "mappages pgdir va sz pa perm =
     (let a = PGROUNDDOWN va; last = PGROUNDDOWN (va + sz - 1)
      in mappages_loop (unat (last - a) div unat PGSIZE) pgdir a pa perm)"

text \<open>
  The loop of \<open>deallocuvm\<close> skips to the next directory entry where there is no page table.  Each
  turn raises \<open>a\<close> by at least a page, so \<open>oldsz / PGSIZE + 1\<close> turns are enough unless \<open>a\<close> wraps
  around, when the loop does not end.
\<close>

primrec deallocuvm_loop :: "nat \<Rightarrow> uint \<Rightarrow> uint \<Rightarrow> uint \<Rightarrow> ('a kmem_state_scheme, unit) km" where
  "deallocuvm_loop 0 pgdir oldsz a = (if a < oldsz then fail (Stuck ''deallocuvm'') else ret ())"
| "deallocuvm_loop (Suc n) pgdir oldsz a =
     (if \<not> a < oldsz then ret ()
      else
        bnd (walkpgdir pgdir a False) (\<lambda>pte.
        if pte = 0 then deallocuvm_loop n pgdir oldsz (PGADDR (PDX a + 1) 0 0)
        else
          bnd (look (\<lambda>k. rd32 (ram k) pte)) (\<lambda>e.
          if e AND PTE_P \<noteq> 0 then
            if PTE_ADDR e = 0 then fail (Panic ''kfree'')
            else
              andthen (kfree (P2V (PTE_ADDR e))) (
              andthen (upd (\<lambda>k. k\<lparr>ram := wr32 (ram k) pte 0\<rparr>)) (
              deallocuvm_loop n pgdir oldsz (a + PGSIZE)))
          else deallocuvm_loop n pgdir oldsz (a + PGSIZE))))"

definition deallocuvm :: "uint \<Rightarrow> uint \<Rightarrow> uint \<Rightarrow> ('a kmem_state_scheme, uint) km" where
  "deallocuvm pgdir oldsz newsz =
     (if newsz \<ge> oldsz then ret oldsz
      else andthen (deallocuvm_loop (unat oldsz div unat PGSIZE + 1) pgdir oldsz (PGROUNDUP newsz)) (ret newsz))"

definition free_table :: "uint \<Rightarrow> nat \<Rightarrow> ('a kmem_state_scheme, unit) km" where
  "free_table pgdir i =
     bnd (look (\<lambda>k. rd32 (ram k) (pgdir + 4 * of_nat i))) (\<lambda>e.
     if e AND PTE_P \<noteq> 0 then kfree (P2V (PTE_ADDR e)) else ret ())"

definition freevm :: "uint \<Rightarrow> ('a kmem_state_scheme, unit) km" where
  "freevm pgdir =
     (if pgdir = 0 then fail (Panic ''freevm: no pgdir'')
      else
        bnd (deallocuvm pgdir KERNBASE 0) (\<lambda>_.
        andthen (for_each (free_table pgdir) [0..<1024])
          (kfree pgdir)))"

definition kmap :: "uint \<Rightarrow> (uint \<times> uint \<times> uint \<times> uint) list" where
  "kmap data =
     [(KERNBASE, 0, EXTMEM, PTE_W),
      (KERNLINK, V2P KERNLINK, V2P data, 0),
      (data, V2P data, PHYSTOP, PTE_W),
      (DEVSPACE, DEVSPACE, 0, PTE_W)]"

primrec map_kernel :: "uint \<Rightarrow> (uint \<times> uint \<times> uint \<times> uint) list \<Rightarrow> ('a kmem_state_scheme, uint) km" where
  "map_kernel pgdir [] = ret pgdir"
| "map_kernel pgdir (e # es) =
     (case e of (virt, phys_start, phys_end, perm) \<Rightarrow>
        bnd (mappages pgdir virt (phys_end - phys_start) phys_start perm) (\<lambda>r.
        if r < 0 then andthen (freevm pgdir) (ret 0) else map_kernel pgdir es))"

definition setupkvm :: "('a vm_state_scheme, uint) km" where
  "setupkvm =
     bnd kalloc (\<lambda>pgdir.
     if pgdir = 0 then ret 0
     else
       andthen (upd (\<lambda>k. k\<lparr>ram := memset (ram k) pgdir 0 PGSIZE\<rparr>)) (
       if P2V PHYSTOP > DEVSPACE then fail (Panic ''PHYSTOP too high'')
       else bnd (look kdata) (\<lambda>data. map_kernel pgdir (kmap data))))"

definition switchkvm :: "('a vm_state_scheme, unit) km" where
  "switchkvm = upd (\<lambda>k. k\<lparr>cr3 := V2P (kpgdir k)\<rparr>)"

definition kvmalloc :: "('a vm_state_scheme, unit) km" where
  "kvmalloc = bnd setupkvm (\<lambda>d. andthen (upd (\<lambda>k. k\<lparr>kpgdir := d\<rparr>)) switchkvm)"

definition inituvm :: "uint \<Rightarrow> uint \<Rightarrow> uint \<Rightarrow> ('a kmem_state_scheme, unit) km" where
  "inituvm pgdir init sz =
     (if sz \<ge> PGSIZE then fail (Panic ''inituvm: more than a page'')
      else
        bnd kalloc (\<lambda>p.
        andthen (upd (\<lambda>k. k\<lparr>ram := memset (ram k) p 0 PGSIZE\<rparr>)) (
        bnd (mappages pgdir 0 PGSIZE (V2P p) (PTE_W OR PTE_U)) (\<lambda>_.
        upd (\<lambda>k. k\<lparr>ram := memmove (ram k) p init sz\<rparr>)))))"

text \<open>The loop of \<open>allocuvm\<close>: \<open>newsz\<close> is below \<open>KERNBASE\<close>, so \<open>a\<close> does not wrap.\<close>

primrec allocuvm_loop :: "nat \<Rightarrow> uint \<Rightarrow> uint \<Rightarrow> uint \<Rightarrow> uint \<Rightarrow> ('a kmem_state_scheme, uint) km" where
  "allocuvm_loop 0 pgdir oldsz newsz a = ret newsz"
| "allocuvm_loop (Suc n) pgdir oldsz newsz a =
     bnd kalloc (\<lambda>p.
     if p = 0 then
       andthen (cprintf (''allocuvm out of memory'' @ [newline]) []) (
       bnd (deallocuvm pgdir newsz oldsz) (\<lambda>_. ret 0))
     else
       andthen (upd (\<lambda>k. k\<lparr>ram := memset (ram k) p 0 PGSIZE\<rparr>)) (
       bnd (mappages pgdir a PGSIZE (V2P p) (PTE_W OR PTE_U)) (\<lambda>r.
       if r < 0 then
         andthen (cprintf (''allocuvm out of memory (2)'' @ [newline]) []) (
         bnd (deallocuvm pgdir newsz oldsz) (\<lambda>_.
         andthen (kfree p) (ret 0)))
       else allocuvm_loop n pgdir oldsz newsz (a + PGSIZE))))"

definition allocuvm :: "uint \<Rightarrow> uint \<Rightarrow> uint \<Rightarrow> ('a kmem_state_scheme, uint) km" where
  "allocuvm pgdir oldsz newsz =
     (if newsz \<ge> KERNBASE then ret 0
      else if newsz < oldsz then ret oldsz
      else let a = PGROUNDUP oldsz in
        allocuvm_loop ((unat newsz - unat a + unat PGSIZE - 1) div unat PGSIZE) pgdir oldsz newsz a)"

definition clearpteu :: "uint \<Rightarrow> uint \<Rightarrow> ('a kmem_state_scheme, unit) km" where
  "clearpteu pgdir uva =
     bnd (walkpgdir pgdir uva False) (\<lambda>pte.
     if pte = 0 then fail (Panic ''clearpteu'')
     else upd (\<lambda>k. k\<lparr>ram := wr32 (ram k) pte (rd32 (ram k) pte AND NOT PTE_U)\<rparr>))"

text \<open>The pages of \<open>for(i = 0; i < sz; i += PGSIZE)\<close>.\<close>

definition size_pages :: "uint \<Rightarrow> nat" where
  "size_pages sz = (unat sz + unat PGSIZE - 1) div unat PGSIZE"

primrec copyuvm_loop :: "nat \<Rightarrow> uint \<Rightarrow> uint \<Rightarrow> uint \<Rightarrow> ('a kmem_state_scheme, uint) km" where
  "copyuvm_loop 0 pgdir d i = ret d"
| "copyuvm_loop (Suc n) pgdir d i =
     bnd (walkpgdir pgdir i False) (\<lambda>pte.
     if pte = 0 then fail (Panic ''copyuvm: pte should exist'')
     else bnd (look (\<lambda>k. rd32 (ram k) pte)) (\<lambda>e.
       if e AND PTE_P = 0 then fail (Panic ''copyuvm: page not present'')
       else bnd kalloc (\<lambda>p.
         if p = 0 then andthen (freevm d) (ret 0)
         else
           andthen (upd (\<lambda>k. k\<lparr>ram := memmove (ram k) p (P2V (PTE_ADDR e)) PGSIZE\<rparr>)) (
           bnd (mappages d i PGSIZE (V2P p) (PTE_FLAGS e)) (\<lambda>r.
           if r < 0 then andthen (kfree p) (andthen (freevm d) (ret 0))
           else copyuvm_loop n pgdir d (i + PGSIZE))))))"

definition copyuvm :: "uint \<Rightarrow> uint \<Rightarrow> ('a vm_state_scheme, uint) km" where
  "copyuvm pgdir sz =
     bnd setupkvm (\<lambda>d. if d = 0 then ret 0 else copyuvm_loop (size_pages sz) pgdir d 0)"

text \<open>\<open>uva2ka\<close> dereferences the result of \<open>walkpgdir\<close> without testing it for null.\<close>

definition uva2ka :: "uint \<Rightarrow> uint \<Rightarrow> ('a kmem_state_scheme, uint) km" where
  "uva2ka pgdir uva =
     bnd (walkpgdir pgdir uva False) (\<lambda>pte.
     if pte = 0 then fail (Fault ''uva2ka'')
     else bnd (look (\<lambda>k. rd32 (ram k) pte)) (\<lambda>e.
       if e AND PTE_P = 0 then ret 0
       else if e AND PTE_U = 0 then ret 0
       else ret (P2V (PTE_ADDR e))))"

text \<open>
  One turn of \<open>copyout\<close> copies up to the end of a page, so there are at most \<open>len + 1\<close> turns.  The
  source is given by its bytes, \<open>len\<close> is their number.
\<close>

definition wr_bytes :: "memory \<Rightarrow> uint \<Rightarrow> uchar list \<Rightarrow> memory" where
  "wr_bytes m a bs = (\<lambda>x. if unat (x - a) < length bs then bs ! unat (x - a) else m x)"

primrec copyout_loop :: "nat \<Rightarrow> uint \<Rightarrow> uint \<Rightarrow> uchar list \<Rightarrow> ('a kmem_state_scheme, int) km" where
  "copyout_loop 0 pgdir va bs = (if bs \<noteq> [] then fail (Stuck ''copyout'') else ret 0)"
| "copyout_loop (Suc t) pgdir va bs =
     (if bs = [] then ret 0
      else let va0 = PGROUNDDOWN va in
        bnd (uva2ka pgdir va0) (\<lambda>pa0.
        if pa0 = 0 then ret (-1)
        else let n = min (unat (PGSIZE - (va - va0))) (length bs) in
          andthen (upd (\<lambda>k. k\<lparr>ram := wr_bytes (ram k) (pa0 + (va - va0)) (take n bs)\<rparr>))
            (copyout_loop t pgdir (va0 + PGSIZE) (drop n bs))))"

definition copyout :: "uint \<Rightarrow> uint \<Rightarrow> uchar list \<Rightarrow> ('a kmem_state_scheme, int) km" where
  "copyout pgdir va bs = copyout_loop (length bs) pgdir va bs"

section \<open>User memory\<close>

definition translate :: "memory \<Rightarrow> uint \<Rightarrow> uint \<Rightarrow> uint option" where
  "translate m pgdir va =
     (let pde = rd32 m (pgdir + 4 * PDX va) in
      if pde AND PTE_P = 0 then None
      else let pte = rd32 m (P2V (PTE_ADDR pde) + 4 * PTX va) in
        if pte AND PTE_P = 0 then None
        else Some (P2V (PTE_ADDR pte) + (va AND 0xFFF)))"

text \<open>The kernel half of the address space is mapped one to one.\<close>

definition kaddr :: "'a vm_state_scheme \<Rightarrow> uint \<Rightarrow> uint option" where
  "kaddr k a = (if a \<ge> KERNBASE then Some a else translate (ram k) (P2V (cr3 k)) a)"

definition vread :: "'a vm_state_scheme \<Rightarrow> uint \<Rightarrow> uchar option" where
  "vread k a = map_option (ram k) (kaddr k a)"

definition vread32 :: "'a vm_state_scheme \<Rightarrow> uint \<Rightarrow> uint option" where
  "vread32 k a = (case (vread k a, vread k (a + 1), vread k (a + 2), vread k (a + 3)) of
     (Some b0, Some b1, Some b2, Some b3) \<Rightarrow>
       Some (ucast b0 OR push_bit 8 (ucast b1) OR push_bit 16 (ucast b2) OR push_bit 24 (ucast b3))
   | _ \<Rightarrow> None)"

definition page_fault :: "'b option \<Rightarrow> ('c, 'b) km" where
  "page_fault r = (case r of None \<Rightarrow> fail (Fault ''page fault'') | Some x \<Rightarrow> ret x)"

definition get8 :: "uint \<Rightarrow> ('a vm_state_scheme, uchar) km" where
  "get8 a = bnd (look (\<lambda>k. vread k a)) page_fault"

definition get32 :: "uint \<Rightarrow> ('a vm_state_scheme, uint) km" where
  "get32 a = bnd (look (\<lambda>k. vread32 k a)) page_fault"

definition put8 :: "uint \<Rightarrow> uchar \<Rightarrow> ('a vm_state_scheme, unit) km" where
  "put8 a v =
     bnd (bnd (look (\<lambda>k. kaddr k a)) page_fault) (\<lambda>pa.
     upd (\<lambda>k. k\<lparr>ram := (ram k)(pa := v)\<rparr>))"

definition put32 :: "uint \<Rightarrow> uint \<Rightarrow> ('a vm_state_scheme, unit) km" where
  "put32 a v =
     andthen (put8 a (ucast v)) (
     andthen (put8 (a + 1) (ucast (drop_bit 8 v))) (
     andthen (put8 (a + 2) (ucast (drop_bit 16 v)))
       (put8 (a + 3) (ucast (drop_bit 24 v)))))"

primrec get_words :: "uint \<Rightarrow> nat \<Rightarrow> ('a vm_state_scheme, uint list) km" where
  "get_words a 0 = ret []"
| "get_words a (Suc n) = bnd (get32 a) (\<lambda>w. bnd (get_words (a + 4) n) (\<lambda>ws. ret (w # ws)))"

primrec put_words :: "uint \<Rightarrow> uint list \<Rightarrow> ('a vm_state_scheme, unit) km" where
  "put_words a [] = ret ()"
| "put_words a (w # ws) = andthen (put32 a w) (put_words (a + 4) ws)"

primrec get_bytes :: "uint \<Rightarrow> nat \<Rightarrow> ('a vm_state_scheme, uchar list) km" where
  "get_bytes a 0 = ret []"
| "get_bytes a (Suc n) = bnd (get8 a) (\<lambda>w. bnd (get_bytes (a + 1) n) (\<lambda>ws. ret (w # ws)))"

primrec put_bytes :: "uint \<Rightarrow> uchar list \<Rightarrow> ('a vm_state_scheme, unit) km" where
  "put_bytes a [] = ret ()"
| "put_bytes a (w # ws) = andthen (put8 a w) (put_bytes (a + 1) ws)"

text \<open>
  A null-terminated string; it lies below \<open>KERNBASE\<close>, or in a page, so the bound on its length is no
  restriction.  \<open>vstrncmp\<close> is \<open>strncmp\<close> on addresses that need translation.
\<close>

primrec get_cstr_loop :: "nat \<Rightarrow> uint \<Rightarrow> ('a vm_state_scheme, uchar list) km" where
  "get_cstr_loop 0 a = fail (Stuck ''strlen'')"
| "get_cstr_loop (Suc n) a =
     bnd (get8 a) (\<lambda>c. if c = 0 then ret [] else bnd (get_cstr_loop n (a + 1)) (\<lambda>cs. ret (c # cs)))"

definition get_cstr :: "uint \<Rightarrow> ('a vm_state_scheme, uchar list) km" where
  "get_cstr a = get_cstr_loop (unat KERNBASE) a"

primrec vstrncmp :: "nat \<Rightarrow> uint \<Rightarrow> uint \<Rightarrow> ('a vm_state_scheme, int) km" where
  "vstrncmp 0 p q = ret 0"
| "vstrncmp (Suc n) p q =
     bnd (get8 p) (\<lambda>c. bnd (get8 q) (\<lambda>d.
     if c \<noteq> 0 \<and> c = d then vstrncmp n (p + 1) (q + 1) else ret (uint c - uint d)))"

end
