(* ===== verification/Container.thy ===== *)
theory Container
  imports Vm
begin

text \<open>
  The container table (\<^verbatim>\<open>container_manager.c\<close>): creating and destroying containers, membership of
  processes, the round-robin choice of the container to run, and the per-container lists of
  pages and files.  An index the code does not check is tested in the model and gives \<open>Fault\<close>
  outside of the array.

  The lemmas show that \<open>get_container\<close> hands out the least free number between 1 and 14, and that
  the round robin serves every live container within \<open>NCONTAINER\<close> calls.
\<close>

section \<open>State\<close>

record container =
  status :: int
  cproc :: "nat \<Rightarrow> int"
  runstate :: int
  last_process :: int
  space_mapping :: "nat \<Rightarrow> uint"
  last_space :: int
  files_of_container :: "nat \<Rightarrow> uint"
  last_file_index :: int

record ctable = vm_state +
  ctab :: "nat \<Rightarrow> container"
  current_container :: int

text \<open>The field of one container is changed; \<open>at_container\<close> checks the index.\<close>

definition upd_container :: "nat \<Rightarrow> (container \<Rightarrow> container) \<Rightarrow> 'a ctable_scheme \<Rightarrow> 'a ctable_scheme" where
  "upd_container c f k = k\<lparr>ctab := (ctab k)(c := f (ctab k c))\<rparr>"

definition at_container :: "int \<Rightarrow> (nat \<Rightarrow> ('a ctable_scheme, 'b) km) \<Rightarrow> ('a ctable_scheme, 'b) km" where
  "at_container cid f = (if in_bounds cid NCONTAINER then f (nat cid) else fail (Fault ''container''))"

section \<open>container_manager.c\<close>

definition container_init :: "('a ctable_scheme, unit) km" where
  "container_init =
     andthen (initlock ContainerLock) (
     for_each (\<lambda>i. upd (upd_container i (\<lambda>c.
       c\<lparr>cproc := (\<lambda>j. if j < NPROC then 0 else cproc c j), status := 0, last_process := 0,
         last_space := 0, last_file_index := 0\<rparr>))) [0..<NCONTAINER])"

definition get_container :: "('a ctable_scheme, int) km" where
  "get_container =
     andthen (acquire ContainerLock) (
     bnd (look (\<lambda>k. find (\<lambda>i. status (ctab k i) = 0) [1..<NCONTAINER])) (\<lambda>r.
     case r of
       Some i \<Rightarrow>
         andthen (upd (upd_container i (\<lambda>c. c\<lparr>status := 1\<rparr>))) (
         andthen (release ContainerLock) (ret (int i)))
     | None \<Rightarrow> andthen (release ContainerLock) (ret (-1))))"

definition destroy_container_kernel :: "int \<Rightarrow> ('a ctable_scheme, int) km" where
  "destroy_container_kernel a =
     andthen (acquire ContainerLock) (
     at_container a (\<lambda>i.
       andthen (upd (upd_container i (\<lambda>c.
         c\<lparr>status := 0, cproc := (\<lambda>j. if j < NPROC then 0 else cproc c j),
           last_file_index := 0, last_process := 0, last_space := 0\<rparr>))) (
       andthen (release ContainerLock) (ret (-1)))))"

text \<open>The two functions differ in the value they store.\<close>

definition set_membership :: "int \<Rightarrow> int \<Rightarrow> int \<Rightarrow> ('a ctable_scheme, int) km" where
  "set_membership v pid cid =
     andthen (acquire ContainerLock) (
     at_container cid (\<lambda>c.
       bnd (look (\<lambda>k. status (ctab k c))) (\<lambda>st.
       if st = 0 then andthen (release ContainerLock) (ret (-1))
       else if \<not> in_bounds pid NPROC then fail (Fault ''proc'')
       else
         andthen (upd (upd_container c (\<lambda>x. x\<lparr>cproc := (cproc x)(nat pid := v)\<rparr>))) (
         andthen (release ContainerLock) (ret 0)))))"

definition set_process_to_container :: "int \<Rightarrow> int \<Rightarrow> ('a ctable_scheme, int) km" where
  "set_process_to_container = set_membership 1"

definition remove_process_from_container :: "int \<Rightarrow> int \<Rightarrow> ('a ctable_scheme, int) km" where
  "remove_process_from_container = set_membership 0"

text \<open>The \<open>while\<close> loop of \<open>get_container_to_run\<close>: the first live container after the current one.\<close>

definition next_container :: "(nat \<Rightarrow> container) \<Rightarrow> nat \<Rightarrow> nat option" where
  "next_container t cur = cyc_next NCONTAINER (\<lambda>c. status (t c) = 1) cur"

definition get_container_to_run :: "('a ctable_scheme, int) km" where
  "get_container_to_run =
     andthen (acquire ContainerLock) (
     andthen (upd (\<lambda>k. case next_container (ctab k) (nat (current_container k)) of
                 Some c \<Rightarrow> k\<lparr>current_container := int c\<rparr> | None \<Rightarrow> k)) (
     andthen (release ContainerLock) (look current_container)))"

definition get_container_processes_to_run :: "int \<Rightarrow> ('a ctable_scheme, nat \<Rightarrow> int) km" where
  "get_container_processes_to_run cid = at_container cid (\<lambda>c. look (\<lambda>k. cproc (ctab k c)))"

definition get_container_last_process :: "int \<Rightarrow> ('a ctable_scheme, int) km" where
  "get_container_last_process cid = at_container cid (\<lambda>c. look (\<lambda>k. last_process (ctab k c)))"

definition set_last_process_of_container :: "int \<Rightarrow> int \<Rightarrow> ('a ctable_scheme, unit) km" where
  "set_last_process_of_container lp cid =
     andthen (acquire ContainerLock) (
     at_container cid (\<lambda>c.
       andthen (upd (upd_container c (\<lambda>x. x\<lparr>last_process := lp\<rparr>)))
         (release ContainerLock)))"

text \<open>The result is the page and the number stored at \<open>t\<close>; the argument \<open>units\<close> is not used.\<close>

definition get_space_in_container :: "int \<Rightarrow> int \<Rightarrow> ('a ctable_scheme, uint \<times> int) km" where
  "get_space_in_container cid units =
     andthen (acquire ContainerLock) (
     at_container cid (\<lambda>c.
       bnd (look (\<lambda>k. last_space (ctab k c))) (\<lambda>index.
       bnd kalloc (\<lambda>result.
       if \<not> in_bounds index 100 then fail (Fault ''space_mapping'')
       else
         andthen (upd (upd_container c (\<lambda>x. x\<lparr>space_mapping := (space_mapping x)(nat index := result)\<rparr>))) (
         andthen (upd (upd_container c (\<lambda>x. x\<lparr>last_space := last_space x + 1\<rparr>))) (
         andthen (release ContainerLock) (
         ret (result, index))))))))"

definition set_file_in_container :: "uint \<Rightarrow> int \<Rightarrow> ('a ctable_scheme, unit) km" where
  "set_file_in_container s cid =
     andthen (acquire ContainerLock) (
     at_container cid (\<lambda>c.
       bnd (look (\<lambda>k. last_file_index (ctab k c))) (\<lambda>fd.
       if \<not> in_bounds fd 100 then fail (Fault ''files_of_container'')
       else
         andthen (upd (upd_container c (\<lambda>x.
             x\<lparr>files_of_container := (files_of_container x)(nat fd := s)\<rparr>))) (
         andthen (upd (upd_container c (\<lambda>x. x\<lparr>last_file_index := last_file_index x + 1\<rparr>)))
           (release ContainerLock)))))"

text \<open>
  The copy of the name with the suffix \<open>$c\<close>, and the search.  The names are read through the page
  table of the running process, also those that another process has left in the table.  A null result
  of \<open>kalloc\<close> is used as an address like any other, so it names the first page of the process; the
  page is never freed.
\<close>

definition suffix_name :: "uint \<Rightarrow> nat \<Rightarrow> int \<Rightarrow> ('a vm_state_scheme, unit) km" where
  "suffix_name a stln cid = put_bytes (a + of_nat stln) [36, of_int (cid + 48), 0]"

primrec search_files :: "uint \<Rightarrow> nat \<Rightarrow> nat list \<Rightarrow> ('a ctable_scheme, int) km" where
  "search_files a c [] = ret 0"
| "search_files a c (i # is) =
     bnd (look (\<lambda>k. ctab k c)) (\<lambda>x.
     if int i < last_file_index x then
       bnd (get_cstr a) (\<lambda>s.
       bnd (vstrncmp (length s) (files_of_container x i) a) (\<lambda>st.
       if st = 0 then ret 1 else search_files a c is))
     else ret 0)"

definition file_in_container :: "uint \<Rightarrow> int \<Rightarrow> ('a ctable_scheme, int) km" where
  "file_in_container s cid =
     bnd (get_cstr s) (\<lambda>str.
     bnd kalloc (\<lambda>a.
     andthen (put_bytes a (str @ [0])) (
     andthen (if cid \<noteq> 0 then suffix_name a (length str) cid else ret ()) (
     andthen (acquire ContainerLock) (
     at_container cid (\<lambda>c.
       bnd (search_files a c [0..<100]) (\<lambda>ans.
       andthen (release ContainerLock) (ret ans))))))))"

section \<open>What the operations do\<close>

lemma at_container_in [simp]: "c < NCONTAINER \<Longrightarrow> at_container (int c) f = f c"
  by (simp add: at_container_def)

lemma at_container_out: "\<not> in_bounds cid NCONTAINER \<Longrightarrow> at_container cid f m k = Inl (Fault ''container'')"
  by (simp add: at_container_def fail_def)

lemma ctab_upd_container [simp]:
  "ctab (upd_container c f k) = (ctab k)(c := f (ctab k c))"
  "current_container (upd_container c f k) = current_container k"
  by (simp_all add: upd_container_def)

lemma get_container_free:
  assumes "mach_ok m" "lock_free ContainerLock m"
    "find (\<lambda>i. status (ctab k i) = 0) [1..<NCONTAINER] = Some i"
  shows "get_container m k = Inr (int i, m, upd_container i (\<lambda>c. c\<lparr>status := 1\<rparr>) k)"
  using assms by (simp add: get_container_def km_simps)

lemma get_container_none:
  assumes "mach_ok m" "lock_free ContainerLock m"
    "find (\<lambda>i. status (ctab k i) = 0) [1..<NCONTAINER] = None"
  shows "get_container m k = Inr (-1, m, k)"
  using assms by (simp add: get_container_def km_simps)

lemma set_membership_live:
  assumes "mach_ok m" "lock_free ContainerLock m" "c < NCONTAINER" "p < NPROC" "status (ctab k c) \<noteq> 0"
  shows "set_membership v (int p) (int c) m k =
    Inr (0, m, upd_container c (\<lambda>x. x\<lparr>cproc := (cproc x)(p := v)\<rparr>) k)"
  using assms by (simp add: set_membership_def km_simps)

lemma set_membership_dead:
  assumes "mach_ok m" "lock_free ContainerLock m" "c < NCONTAINER" "status (ctab k c) = 0"
  shows "set_membership v p (int c) m k = Inr (-1, m, k)"
  using assms by (simp add: set_membership_def km_simps)

lemma destroy_container_kernel_step:
  assumes "mach_ok m" "lock_free ContainerLock m" "c < NCONTAINER"
  shows "destroy_container_kernel (int c) m k = Inr (-1, m, upd_container c (\<lambda>c.
         c\<lparr>status := 0, cproc := (\<lambda>j. if j < NPROC then 0 else cproc c j),
           last_file_index := 0, last_process := 0, last_space := 0\<rparr>) k)"
  using assms by (simp add: destroy_container_kernel_def km_simps)

lemma set_last_process_step:
  assumes "mach_ok m" "lock_free ContainerLock m" "c < NCONTAINER"
  shows "set_last_process_of_container l (int c) m k =
    Inr ((), m, upd_container c (\<lambda>x. x\<lparr>last_process := l\<rparr>) k)"
  using assms by (simp add: set_last_process_of_container_def km_simps)

section \<open>Round robin\<close>

text \<open>The container chosen by a call, and the state after it.\<close>

definition rr :: "(nat \<Rightarrow> container) \<Rightarrow> nat \<Rightarrow> nat" where
  "rr t cur = (case next_container t cur of Some c \<Rightarrow> c | None \<Rightarrow> cur)"

lemma get_container_to_run_step:
  assumes "mach_ok m" "lock_free ContainerLock m" "current_container k = int cur"
  shows "get_container_to_run m k =
    Inr (int (rr (ctab k) cur), m, k\<lparr>current_container := int (rr (ctab k) cur)\<rparr>)"
proof -
  have "(case next_container (ctab k) cur of Some c \<Rightarrow> k\<lparr>current_container := int c\<rparr> | None \<Rightarrow> k)
      = k\<lparr>current_container := int (rr (ctab k) cur)\<rparr>"
    using assms(3) by (auto simp: rr_def split: option.split)
  then show ?thesis
    using assms by (simp add: get_container_to_run_def km_simps)
qed

lemma rr_less: "cur < NCONTAINER \<Longrightarrow> rr t cur < NCONTAINER"
  by (auto simp: rr_def next_container_def cyc_next_Some split: option.split)

text \<open>\<open>n\<close> consecutive calls, as the scheduler makes them.\<close>

primrec rr_calls :: "nat \<Rightarrow> ('a ctable_scheme, int list) km" where
  "rr_calls 0 = ret []"
| "rr_calls (Suc n) = bnd get_container_to_run (\<lambda>c. bnd (rr_calls n) (\<lambda>cs. ret (c # cs)))"

lemma rr_calls_run:
  assumes "mach_ok m" "lock_free ContainerLock m" "c < NCONTAINER" "status (ctab k c) = 1"
  shows "current_container k = int cur \<Longrightarrow>
    \<exists>k'. rr_calls n m k = Inr (map int (cyc_run n NCONTAINER (\<lambda>c. status (ctab k c) = 1) cur), m, k') \<and>
      ctab k' = ctab k"
  using assms(4)
proof (induction n arbitrary: k cur)
  case 0
  then show ?case by (auto simp: ret_def)
next
  case (Suc n)
  obtain c' where c': "next_container (ctab k) cur = Some c'"
    using cyc_next_None [of NCONTAINER "\<lambda>c. status (ctab k c) = 1" cur c] assms(3) Suc.prems(2)
    by (cases "next_container (ctab k) cur") (auto simp: next_container_def)
  let ?k = "k\<lparr>current_container := int c'\<rparr>"
  have step: "get_container_to_run m k = Inr (int c', m, ?k)"
    using get_container_to_run_step [OF assms(1,2) Suc.prems(1)] c' by (simp add: rr_def)
  have "\<exists>k'. rr_calls n m ?k = Inr (map int (cyc_run n NCONTAINER (\<lambda>c. status (ctab ?k c) = 1) c'), m, k') \<and>
      ctab k' = ctab ?k"
    by (rule Suc.IH) (use Suc.prems in simp_all)
  then show ?case
    using step c' by (auto simp: km_simps next_container_def)
qed

text \<open>A table with no container, and the same with containers 2 and 9 alive.\<close>

definition no_containers :: ctable where
  "no_containers = \<lparr>ram = (\<lambda>_. 0), use_lock = True, freelist = 0, kend = 0x80400000, kpgdir = 0, cr3 = 0,
     kdata = 0x80108000,
     ctab = (\<lambda>_. \<lparr>status = 0, cproc = (\<lambda>_. 0), runstate = 0, last_process = 0, space_mapping = (\<lambda>_. 0),
       last_space = 0, files_of_container = (\<lambda>_. 0), last_file_index = 0\<rparr>),
     current_container = 0\<rparr>"

definition two_containers :: ctable where
  "two_containers = upd_container 2 (\<lambda>c. c\<lparr>status := 1\<rparr>) (upd_container 9 (\<lambda>c. c\<lparr>status := 1\<rparr>) no_containers)"

section \<open>Properties\<close>

text \<open>C17: the round robin starves no container: among any \<open>NCONTAINER\<close> consecutive calls of
  \<open>get_container_to_run\<close> (with no container created or destroyed in between) each live container
  is returned, and only live containers are.\<close>

theorem round_robin_fair:
  assumes "quiet m" "current_container k = int cur"
    and "c < NCONTAINER" "status (ctab k c) = 1"
  shows "\<exists>cs k'. rr_calls NCONTAINER m k = Inr (cs, m, k') \<and> ctab k' = ctab k \<and> int c \<in> set cs \<and>
    (\<forall>x \<in> set cs. \<exists>i < NCONTAINER. x = int i \<and> status (ctab k i) = 1)"
proof -
  let ?run = "cyc_run NCONTAINER NCONTAINER (\<lambda>c. status (ctab k c) = 1) cur"
  have "c \<in> set ?run" by (rule cyc_run_fair) (use assms in auto)
  moreover have "\<forall>i \<in> set ?run. i < NCONTAINER \<and> status (ctab k i) = 1"
    using cyc_run_sound [of NCONTAINER] by auto
  moreover obtain k' where "rr_calls NCONTAINER m k = Inr (map int ?run, m, k')" "ctab k' = ctab k"
    using rr_calls_run [of m c k cur NCONTAINER] assms by auto
  ultimately show ?thesis by auto
qed

theorem round_robin_fair_witness:
  "\<exists>cs k'. rr_calls NCONTAINER (idle_mach None) two_containers = Inr (cs, idle_mach None, k') \<and> int 9 \<in> set cs"
  using round_robin_fair [OF quiet_idle, of two_containers 0 9]
  by (fastforce simp: two_containers_def no_containers_def upd_container_def const_defs)

text \<open>The function \<open>get_container\<close> allocates the least free number between 1 and \<open>NCONTAINER - 1\<close> and changes
  nothing but its status; when none is free it returns -1 and changes nothing.  Number 0 is never
  handed out.\<close>

lemma get_container_least:
  assumes "quiet m"
  shows "((\<exists>i. 1 \<le> i \<and> i < NCONTAINER \<and> status (ctab k i) = 0) \<longrightarrow>
      (\<exists>i. 1 \<le> i \<and> i < NCONTAINER \<and> status (ctab k i) = 0 \<and>
        (\<forall>j. 1 \<le> j \<and> j < i \<longrightarrow> status (ctab k j) \<noteq> 0) \<and>
        get_container m k = Inr (int i, m, upd_container i (\<lambda>c. c\<lparr>status := 1\<rparr>) k))) \<and>
    ((\<forall>i. 1 \<le> i \<and> i < NCONTAINER \<longrightarrow> status (ctab k i) \<noteq> 0) \<longrightarrow> get_container m k = Inr (-1, m, k))"
proof (cases "find (\<lambda>i. status (ctab k i) = 0) [1..<NCONTAINER]")
  case None
  then show ?thesis
    using assms by (auto simp: get_container_none find_upt_None_iff)
next
  case (Some i)
  then show ?thesis
    using find_upt_SomeD [OF Some] assms get_container_free [OF _ _ Some, of m] by auto
qed

lemma get_container_least_witness:
  "get_container (idle_mach None) two_containers
     = Inr (1, idle_mach None, upd_container 1 (\<lambda>c. c\<lparr>status := 1\<rparr>) two_containers)"
proof -
  have free: "status (ctab two_containers 1) = 0" "1 < NCONTAINER"
    by (simp_all add: two_containers_def no_containers_def upd_container_def const_defs)
  then obtain i where i: "1 \<le> i" "\<forall>j. 1 \<le> j \<and> j < i \<longrightarrow> status (ctab two_containers j) \<noteq> 0"
    "get_container (idle_mach None) two_containers
      = Inr (int i, idle_mach None, upd_container i (\<lambda>c. c\<lparr>status := 1\<rparr>) two_containers)"
    using get_container_least [OF quiet_idle, of two_containers None] by blast
  moreover have "i = 1"
    using i(1,2) free(1) by (cases "i = 1") auto
  ultimately show ?thesis by simp
qed

end
