(* ===== verification/Mqueue.thy ===== *)
theory Mqueue
  imports Prelude
begin

text \<open>
  The circular queue of \<^verbatim>\<open>queue.c\<close>: \<open>createqueue\<close>, \<open>isEmpty\<close>, \<open>enqueue\<close>, \<open>getQueueSize\<close>,
  \<open>dequeue\<close> and \<open>isFull\<close> over the structure \<open>queue\<close> and the pool \<open>temp_queue\<close>.  The locale
  \<open>bounded_fifo\<close> is the contract the message layer relies on; its interpretation shows that the
  circular buffer implements a bounded first-in first-out list.  The fields that hold an index
  or a count are natural numbers: the code never lets one go below zero.
\<close>

section \<open>The contract of a bounded queue\<close>

locale bounded_fifo =
  fixes enq :: "'q \<Rightarrow> 'a \<Rightarrow> int \<times> 'q"
    and deq :: "'q \<Rightarrow> 'a \<times> 'q"
    and contents :: "'q \<Rightarrow> 'a list"
    and invar :: "'q \<Rightarrow> bool"
    and capacity :: nat
  assumes bounded: "invar q \<Longrightarrow> length (contents q) \<le> capacity"
    and enq_room: "invar q \<Longrightarrow> length (contents q) < capacity \<Longrightarrow>
          fst (enq q a) = 0 \<and> invar (snd (enq q a)) \<and> contents (snd (enq q a)) = contents q @ [a]"
    and enq_full: "invar q \<Longrightarrow> length (contents q) = capacity \<Longrightarrow> enq q a = (-1, q)"
    and deq_some: "invar q \<Longrightarrow> contents q = a # as \<Longrightarrow>
          fst (deq q) = a \<and> invar (snd (deq q)) \<and> contents (snd (deq q)) = as"
    and deq_none: "invar q \<Longrightarrow> contents q = [] \<Longrightarrow> snd (deq q) = q"
begin

text \<open>Appending a list of elements, and taking \<open>n\<close> elements out.\<close>

primrec enq_all :: "'q \<Rightarrow> 'a list \<Rightarrow> 'q" where
  "enq_all q [] = q"
| "enq_all q (a # as) = enq_all (snd (enq q a)) as"

primrec deq_all :: "nat \<Rightarrow> 'q \<Rightarrow> 'a list \<times> 'q" where
  "deq_all 0 q = ([], q)"
| "deq_all (Suc n) q =
     (let (a, q') = deq q; (as, q'') = deq_all n q' in (a # as, q''))"

lemma enq_invar: "invar q \<Longrightarrow> invar (snd (enq q a))"
  using enq_room [of q a] enq_full [of q a] bounded [of q] le_neq_implies_less by fastforce

lemma deq_invar: "invar q \<Longrightarrow> invar (snd (deq q))"
  using deq_some [of q] deq_none [of q] by (cases "contents q") auto

lemma contents_enq_all:
  "invar q \<Longrightarrow> length (contents q) + length as \<le> capacity \<Longrightarrow>
     invar (enq_all q as) \<and> contents (enq_all q as) = contents q @ as"
proof (induction as arbitrary: q)
  case Nil
  then show ?case by simp
next
  case (Cons a as)
  from Cons.prems have step: "invar (snd (enq q a))" "contents (snd (enq q a)) = contents q @ [a]"
    using enq_room [of q a] by auto
  from step Cons.prems Cons.IH [of "snd (enq q a)"] show ?case by simp
qed

lemma deq_all_contents:
  "invar q \<Longrightarrow> n \<le> length (contents q) \<Longrightarrow>
     fst (deq_all n q) = take n (contents q) \<and> invar (snd (deq_all n q)) \<and>
     contents (snd (deq_all n q)) = drop n (contents q)"
proof (induction n arbitrary: q)
  case 0
  then show ?case by simp
next
  case (Suc n)
  from Suc.prems obtain a as where q: "contents q = a # as"
    by (cases "contents q") auto
  from Suc.prems(1) q have step: "fst (deq q) = a" "invar (snd (deq q))" "contents (snd (deq q)) = as"
    using deq_some by auto
  with Suc.prems q Suc.IH [of "snd (deq q)"] show ?case
    by (simp add: case_prod_beta)
qed

text \<open>What goes in comes out, in the same order.\<close>

lemma fifo:
  "invar q \<Longrightarrow> contents q = [] \<Longrightarrow> length as \<le> capacity \<Longrightarrow>
     fst (deq_all (length as) (enq_all q as)) = as"
  using contents_enq_all [of q as] deq_all_contents [of "enq_all q as" "length as"] by simp

end

section \<open>queue.c\<close>

record queue =
  qsize :: nat
  qdata :: "nat \<Rightarrow> int"
  qhead :: nat
  qtail :: nat

record queue_pool =
  temp_queue :: "nat \<Rightarrow> queue"
  count_q :: nat

definition createqueue :: "queue_pool \<Rightarrow> nat \<times> queue_pool" where
  "createqueue s =
     (let c = (if count_q s \<ge> NUMOFMESSAGEQUEUES then 0 else count_q s);
          q = (temp_queue s c)\<lparr>qsize := 0, qtail := 0, qhead := 0\<rparr>
      in (c, s\<lparr>temp_queue := (temp_queue s)(c := q), count_q := c + 1\<rparr>))"

definition isEmpty :: "queue \<Rightarrow> bool" where
  "isEmpty q \<longleftrightarrow> qsize q = 0"

definition enqueue :: "queue \<Rightarrow> int \<Rightarrow> int \<times> queue" where
  "enqueue q a =
     (if qsize q = NUMOFMESSAGEBUFFERS then (-1, q)
      else (0, q\<lparr>qdata := (qdata q)(qtail q := a),
                 qtail := (qtail q + 1) mod NUMOFMESSAGEBUFFERS,
                 qsize := qsize q + 1\<rparr>))"

definition getQueueSize :: "queue \<Rightarrow> nat" where
  "getQueueSize q = qsize q"

definition dequeue :: "queue \<Rightarrow> int \<times> queue" where
  "dequeue q =
     (if isEmpty q then (-1, q)
      else (qdata q (qhead q),
            q\<lparr>qhead := (qhead q + 1) mod NUMOFMESSAGEBUFFERS, qsize := qsize q - 1\<rparr>))"

definition isFull :: "queue \<Rightarrow> bool" where
  "isFull q \<longleftrightarrow> qsize q = NUMOFMESSAGEBUFFERS"

section \<open>Refinement of the list specification\<close>

definition queue_inv :: "queue \<Rightarrow> bool" where
  "queue_inv q \<longleftrightarrow> qsize q \<le> NUMOFMESSAGEBUFFERS \<and> qhead q < NUMOFMESSAGEBUFFERS \<and>
     qtail q = (qhead q + qsize q) mod NUMOFMESSAGEBUFFERS"

definition queue_list :: "queue \<Rightarrow> int list" where
  "queue_list q = ring NUMOFMESSAGEBUFFERS (qdata q) (qhead q) (qsize q)"

lemma length_queue_list [simp]: "length (queue_list q) = qsize q"
  by (simp add: queue_list_def)

lemma isEmpty_list: "isEmpty q \<longleftrightarrow> queue_list q = []"
  by (simp add: isEmpty_def flip: length_0_conv)

lemma enqueue_room:
  assumes "queue_inv q" "qsize q < NUMOFMESSAGEBUFFERS"
  shows "fst (enqueue q a) = 0 \<and> queue_inv (snd (enqueue q a)) \<and>
    queue_list (snd (enqueue q a)) = queue_list q @ [a]"
  using assms by (simp add: enqueue_def queue_inv_def queue_list_def ring_snoc mod_Suc_eq)

lemma dequeue_some:
  assumes "queue_inv q" "queue_list q = a # as"
  shows "fst (dequeue q) = a \<and> queue_inv (snd (dequeue q)) \<and> queue_list (snd (dequeue q)) = as"
proof -
  obtain s where s: "qsize q = Suc s"
    using arg_cong [OF assms(2), of length] by auto
  have "queue_list q
      = qdata q (qhead q) # ring NUMOFMESSAGEBUFFERS (qdata q) ((qhead q + 1) mod NUMOFMESSAGEBUFFERS) s"
    using assms(1) s by (simp add: queue_list_def queue_inv_def ring_Cons)
  with assms s show ?thesis
    by (auto simp: dequeue_def isEmpty_def queue_inv_def queue_list_def mod_add_left_eq)
qed

interpretation lq: bounded_fifo enqueue dequeue queue_list queue_inv NUMOFMESSAGEBUFFERS
proof
  show "queue_inv q \<Longrightarrow> length (queue_list q) \<le> NUMOFMESSAGEBUFFERS" for q
    by (simp add: queue_inv_def)
  show "queue_inv q \<Longrightarrow> length (queue_list q) < NUMOFMESSAGEBUFFERS \<Longrightarrow>
      fst (enqueue q a) = 0 \<and> queue_inv (snd (enqueue q a)) \<and>
      queue_list (snd (enqueue q a)) = queue_list q @ [a]" for q a
    by (simp add: enqueue_room)
  show "queue_inv q \<Longrightarrow> length (queue_list q) = NUMOFMESSAGEBUFFERS \<Longrightarrow> enqueue q a = (-1, q)" for q a
    by (simp add: enqueue_def)
  show "queue_inv q \<Longrightarrow> queue_list q = a # as \<Longrightarrow>
      fst (dequeue q) = a \<and> queue_inv (snd (dequeue q)) \<and> queue_list (snd (dequeue q)) = as" for q a as
    by (rule dequeue_some)
  show "queue_inv q \<Longrightarrow> queue_list q = [] \<Longrightarrow> snd (dequeue q) = q" for q
    by (simp add: dequeue_def isEmpty_list)
qed

end
