(* ===== verification/Message.thy ===== *)
theory Message
  imports Console Mqueue "HOL-Library.Multiset"
begin

text \<open>
  Message passing (\<^verbatim>\<open>message.c\<close>): 5001 message buffers on a free list threaded through word 0 of
  each buffer, and one circular queue of buffer numbers per receiver.  The abstract view of the
  component is a mailbox per receiver, the list of messages sent to it and not yet received; the
  lemmas show that the code implements it: \<open>send_message\<close> appends, \<open>receive_msg\<close> takes the oldest,
  no buffer is lost or used twice, and what happens when the buffers run out.

  A \<open>void *msg\<close> argument is the function giving the words at that address; a received message is
  the list of words the code stores there.
\<close>

section \<open>State and operations\<close>

record msg_state =
  message_buffer :: "nat \<Rightarrow> nat \<Rightarrow> int"
  from_array :: "nat \<Rightarrow> int"
  free_message_buffer :: int
  message_queue :: "nat \<Rightarrow> nat"
  qpool :: queue_pool

abbreviation queue_of :: "msg_state \<Rightarrow> nat \<Rightarrow> queue" where
  "queue_of s i \<equiv> temp_queue (qpool s) (message_queue s i)"

definition set_queue :: "nat \<Rightarrow> queue \<Rightarrow> msg_state \<Rightarrow> msg_state" where
  "set_queue i q s =
     s\<lparr>qpool := (qpool s)\<lparr>temp_queue := (temp_queue (qpool s))(message_queue s i := q)\<rparr>\<rparr>"

text \<open>\<open>&message_buffer_lock[msg_no]\<close> with \<open>msg_no\<close> outside of the array is undefined.\<close>

definition GetMessageBuffer :: "(msg_state, int) km" where
  "GetMessageBuffer =
     andthen (acquire FreeMessageBufferLock) (
     bnd (look free_message_buffer) (\<lambda>msg_no.
     if \<not> in_bounds msg_no NUMOFMESSAGEBUFFERS then fail (Fault ''message_buffer_lock'')
     else
       andthen (acquire (MessageBufferLock (nat msg_no))) (
       andthen (if msg_no \<noteq> -1
                then upd (\<lambda>s. s\<lparr>free_message_buffer := message_buffer s (nat msg_no) 0\<rparr>) else ret ()) (
       andthen (release (MessageBufferLock (nat msg_no))) (
       andthen (release FreeMessageBufferLock) (ret msg_no))))))"

definition FreeMessageBuffer :: "int \<Rightarrow> (msg_state, unit) km" where
  "FreeMessageBuffer msg_no =
     andthen (acquire FreeMessageBufferLock) (
     if \<not> in_bounds msg_no NUMOFMESSAGEBUFFERS then fail (Fault ''message_buffer_lock'')
     else
       andthen (acquire (MessageBufferLock (nat msg_no))) (
       andthen (upd (\<lambda>s. s\<lparr>message_buffer := (message_buffer s)(nat msg_no :=
                    (message_buffer s (nat msg_no))(0 := free_message_buffer s))\<rparr>)) (
       andthen (upd (\<lambda>s. s\<lparr>free_message_buffer := msg_no\<rparr>)) (
       andthen (release (MessageBufferLock (nat msg_no))) (
       release FreeMessageBufferLock)))))"

definition init_buffer :: "nat \<Rightarrow> (msg_state, unit) km" where
  "init_buffer i =
     andthen (upd (\<lambda>s. s\<lparr>message_buffer := (message_buffer s)(i := (message_buffer s i)(0 := int i + 1))\<rparr>))
       (initlock (MessageBufferLock i))"

definition init_queue :: "nat \<Rightarrow> (msg_state, unit) km" where
  "init_queue i =
     bnd (look (\<lambda>s. createqueue (qpool s))) (\<lambda>(q, pool).
     andthen (upd (\<lambda>s. s\<lparr>qpool := pool, message_queue := (message_queue s)(i := q)\<rparr>))
       (initlock (QueueLock i)))"

definition messageinit :: "(msg_state, unit) km" where
  "messageinit =
     andthen (for_each init_buffer [0..<NUMOFMESSAGEBUFFERS - 1]) (
     andthen (initlock (MessageBufferLock (NUMOFMESSAGEBUFFERS - 1))) (
     andthen (upd (\<lambda>s. s\<lparr>message_buffer := (message_buffer s)(NUMOFMESSAGEBUFFERS - 1 :=
                 (message_buffer s (NUMOFMESSAGEBUFFERS - 1))(0 := -1))\<rparr>)) (
     andthen (upd (\<lambda>s. s\<lparr>free_message_buffer := 0\<rparr>)) (
     andthen (for_each init_queue [0..<NUMOFMESSAGEQUEUES])
       (initlock FreeMessageBufferLock)))))"

text \<open>\<open>for(i=1;i<MessageSize;i++) message_buffer[msg_no][i] = temp_msg[i-1];\<close>\<close>

definition store_payload :: "nat \<Rightarrow> (nat \<Rightarrow> int) \<Rightarrow> msg_state \<Rightarrow> msg_state" where
  "store_payload b msg s =
     s\<lparr>message_buffer := (message_buffer s)(b :=
        (\<lambda>i. if 1 \<le> i \<and> i < MessageSize then msg (i - 1) else message_buffer s b i))\<rparr>"

definition payload :: "msg_state \<Rightarrow> nat \<Rightarrow> int list" where
  "payload s b = map (message_buffer s b) [1..<MessageSize]"

definition send_message :: "int \<Rightarrow> int \<Rightarrow> (nat \<Rightarrow> int) \<Rightarrow> (msg_state, int) km" where
  "send_message s_pid r_pid msg =
     (if \<not> in_bounds r_pid NUMOFMESSAGEQUEUES then fail (Fault ''queue_lock'')
      else let r = nat r_pid in
        andthen (acquire (QueueLock r)) (
        bnd (look (\<lambda>s. isFull (queue_of s r))) (\<lambda>full.
        if full then andthen (release (QueueLock r)) (ret (-1))
        else
          bnd GetMessageBuffer (\<lambda>msg_no.
          if \<not> in_bounds msg_no NUMOFMESSAGEBUFFERS then fail (Fault ''from_array'')
          else
            andthen (upd (\<lambda>s. set_queue r (snd (enqueue (queue_of s r) msg_no)) s)) (
            andthen (upd (\<lambda>s. s\<lparr>from_array := (from_array s)(nat msg_no := s_pid)\<rparr>)) (
            andthen (acquire (MessageBufferLock (nat msg_no))) (
            andthen (upd (store_payload (nat msg_no) msg)) (
            andthen (release (MessageBufferLock (nat msg_no))) (
            andthen (release (QueueLock r)) (
            ret 0))))))))))"

text \<open>
  The two receive functions share their code up to a line of output before the queue is unlocked;
  \<open>note\<close> is that line.  The result is the return code and the words stored at \<open>msg\<close>.
\<close>

definition receive_with :: "(msg_state, unit) km \<Rightarrow> int \<Rightarrow> (msg_state, int \<times> int list) km" where
  "receive_with note myid =
     (if \<not> in_bounds myid NUMOFMESSAGEQUEUES then fail (Fault ''queue_lock'')
      else let r = nat myid in
        andthen (acquire (QueueLock r)) (
        bnd (look (\<lambda>s. isEmpty (queue_of s r))) (\<lambda>empty.
        if empty then andthen (release (QueueLock r)) (ret (-1, []))
        else
          bnd (look (\<lambda>s. dequeue (queue_of s r))) (\<lambda>(msg_no, q).
          andthen (upd (set_queue r q)) (
          if msg_no < 0 then andthen (release (QueueLock r)) (ret (-1, []))
          else if \<not> in_bounds msg_no NUMOFMESSAGEBUFFERS then fail (Fault ''message_buffer_lock'')
          else
            andthen (acquire (MessageBufferLock (nat msg_no))) (
            bnd (look (\<lambda>s. payload s (nat msg_no))) (\<lambda>words.
            andthen (release (MessageBufferLock (nat msg_no))) (
            andthen (FreeMessageBuffer msg_no) (
            andthen note (
            andthen (release (QueueLock r)) (
            ret (0, words))))))))))))"

definition receive_message_temp :: "int \<Rightarrow> (msg_state, int \<times> int list) km" where
  "receive_message_temp =
     receive_with (cprintf (''after receiving size of queue[] is'' @ [newline] @ '' '') [])"

definition receive_msg :: "int \<Rightarrow> (msg_state, int \<times> int list) km" where
  "receive_msg = receive_with (ret ())"

definition isReceiverQueueEmpty :: "int \<Rightarrow> (msg_state, int) km" where
  "isReceiverQueueEmpty myid =
     (if \<not> in_bounds myid NUMOFMESSAGEQUEUES then fail (Fault ''queue_lock'')
      else
        andthen (acquire (QueueLock (nat myid))) (
        bnd (look (\<lambda>s. if isEmpty (queue_of s (nat myid)) then 1 else 0)) (\<lambda>flag.
        andthen (release (QueueLock (nat myid))) (ret flag))))"

section \<open>The abstract mailbox and the invariant\<close>

text \<open>The messages waiting for receiver \<open>i\<close>, oldest first.\<close>

definition mail :: "msg_state \<Rightarrow> nat \<Rightarrow> int list list" where
  "mail s i = map (\<lambda>b. payload s (nat b)) (queue_list (queue_of s i))"

text \<open>The free list: buffer numbers linked through word 0, closed by -1.\<close>

primrec chain :: "(nat \<Rightarrow> int) \<Rightarrow> int \<Rightarrow> nat list \<Rightarrow> bool" where
  "chain nxt i [] \<longleftrightarrow> i = -1"
| "chain nxt i (b # bs) \<longleftrightarrow> i = int b \<and> chain nxt (nxt b) bs"

abbreviation next_free :: "msg_state \<Rightarrow> nat \<Rightarrow> int" where
  "next_free s b \<equiv> message_buffer s b 0"

text \<open>
  \<open>msg_rep s fl qs\<close>: in \<open>s\<close> the free buffers are \<open>fl\<close> and the buffers queued for receiver \<open>i\<close> are
  \<open>qs i\<close>; together they are all the buffers, each once.
\<close>

definition msg_rep :: "msg_state \<Rightarrow> nat list \<Rightarrow> (nat \<Rightarrow> nat list) \<Rightarrow> bool" where
  "msg_rep s fl qs \<longleftrightarrow>
     chain (next_free s) (free_message_buffer s) fl \<and>
     inj_on (message_queue s) {..<NUMOFMESSAGEQUEUES} \<and>
     (\<forall>i < NUMOFMESSAGEQUEUES. queue_inv (queue_of s i) \<and> queue_list (queue_of s i) = map int (qs i)) \<and>
     mset fl + (\<Sum>i < NUMOFMESSAGEQUEUES. mset (qs i)) = mset [0..<NUMOFMESSAGEBUFFERS]"

definition msg_inv :: "msg_state \<Rightarrow> bool" where
  "msg_inv s \<longleftrightarrow> (\<exists>fl qs. msg_rep s fl qs)"

text \<open>The number of free buffers.\<close>

definition free_count :: "msg_state \<Rightarrow> nat" where
  "free_count s = NUMOFMESSAGEBUFFERS - (\<Sum>i < NUMOFMESSAGEQUEUES. qsize (queue_of s i))"

section \<open>The invariant gives the code what it needs\<close>

lemma msg_repD:
  assumes "msg_rep s fl qs"
  shows "chain (next_free s) (free_message_buffer s) fl"
    and "inj_on (message_queue s) {..<NUMOFMESSAGEQUEUES}"
    and "i < NUMOFMESSAGEQUEUES \<Longrightarrow> queue_inv (queue_of s i)"
    and "i < NUMOFMESSAGEQUEUES \<Longrightarrow> queue_list (queue_of s i) = map int (qs i)"
    and "mset fl + (\<Sum>i < NUMOFMESSAGEQUEUES. mset (qs i)) = mset [0..<NUMOFMESSAGEBUFFERS]"
  using assms by (auto simp: msg_rep_def)

lemma msg_rep_qsize: "msg_rep s fl qs \<Longrightarrow> i < NUMOFMESSAGEQUEUES \<Longrightarrow> qsize (queue_of s i) = length (qs i)"
  using msg_repD(4) [of s fl qs i] by (metis length_map length_queue_list)

lemma chain_upd: "b \<notin> set bs \<Longrightarrow> chain (f(b := v)) i bs \<longleftrightarrow> chain f i bs"
  by (induction bs arbitrary: i) auto

lemma sum_mset_update:
  assumes "r < (n::nat)"
  shows "(\<Sum>i < n. mset ((qs(r := xs)) i)) + mset (qs r) = (\<Sum>i < n. mset (qs i)) + mset xs"
proof -
  have "(\<Sum>i < n. mset ((qs(r := xs)) i)) = mset xs + (\<Sum>i \<in> {..<n} - {r}. mset ((qs(r := xs)) i))"
    using assms by (subst sum.remove [of _ r]) auto
  moreover have "(\<Sum>i \<in> {..<n} - {r}. mset ((qs(r := xs)) i)) = (\<Sum>i \<in> {..<n} - {r}. mset (qs i))"
    by (rule sum.cong) auto
  moreover have "(\<Sum>i < n. mset (qs i)) = mset (qs r) + (\<Sum>i \<in> {..<n} - {r}. mset (qs i))"
    using assms by (subst sum.remove [of _ r]) auto
  ultimately show ?thesis by simp
qed

lemma mset_concat_upt: "mset (concat (map qs [0..<n])) = (\<Sum>i < n. mset (qs i))"
  by (induction n) (simp_all add: add.commute)

text \<open>Every buffer is in exactly one place.\<close>

lemma msg_rep_perm:
  assumes "msg_rep s fl qs"
  shows "distinct (fl @ concat (map qs [0..<NUMOFMESSAGEQUEUES]))"
    and "set (fl @ concat (map qs [0..<NUMOFMESSAGEQUEUES])) = {..<NUMOFMESSAGEBUFFERS}"
proof -
  have "mset (fl @ concat (map qs [0..<NUMOFMESSAGEQUEUES])) = mset [0..<NUMOFMESSAGEBUFFERS]"
    using msg_repD(5) [OF assms] by (simp add: mset_concat_upt)
  from mset_eq_imp_distinct_iff [OF this] mset_eq_setD [OF this]
  show "distinct (fl @ concat (map qs [0..<NUMOFMESSAGEQUEUES]))"
    and "set (fl @ concat (map qs [0..<NUMOFMESSAGEQUEUES])) = {..<NUMOFMESSAGEBUFFERS}"
    by auto
qed

lemma msg_rep_buffer:
  assumes "msg_rep s fl qs"
  shows "b \<in> set fl \<Longrightarrow> b < NUMOFMESSAGEBUFFERS"
    and "i < NUMOFMESSAGEQUEUES \<Longrightarrow> b \<in> set (qs i) \<Longrightarrow> b < NUMOFMESSAGEBUFFERS"
    and "i < NUMOFMESSAGEQUEUES \<Longrightarrow> set fl \<inter> set (qs i) = {}"
    and "distinct fl"
proof -
  note perm = msg_rep_perm [OF assms]
  show "b \<in> set fl \<Longrightarrow> b < NUMOFMESSAGEBUFFERS"
    and "i < NUMOFMESSAGEQUEUES \<Longrightarrow> b \<in> set (qs i) \<Longrightarrow> b < NUMOFMESSAGEBUFFERS"
    using perm(2) by fastforce+
  show "i < NUMOFMESSAGEQUEUES \<Longrightarrow> set fl \<inter> set (qs i) = {}"
    using perm(1) by fastforce
  show "distinct fl" using perm(1) by simp
qed

lemma msg_rep_apart:
  assumes "msg_rep s fl qs" "i < NUMOFMESSAGEQUEUES" "j < NUMOFMESSAGEQUEUES" "i \<noteq> j"
  shows "set (qs i) \<inter> set (qs j) = {}"
proof (rule ccontr)
  assume "set (qs i) \<inter> set (qs j) \<noteq> {}"
  then obtain b where b: "b \<in># mset (qs i)" "b \<in># mset (qs j)" by auto
  have "(\<Sum>k < NUMOFMESSAGEQUEUES. mset (qs k))
      = mset (qs i) + (mset (qs j) + (\<Sum>k \<in> {..<NUMOFMESSAGEQUEUES} - {i} - {j}. mset (qs k)))"
    using assms(2-4) by (simp add: sum.remove [of "{..<NUMOFMESSAGEQUEUES}" i]
        sum.remove [of "{..<NUMOFMESSAGEQUEUES} - {i}" j])
  then have "mset [0..<NUMOFMESSAGEBUFFERS] = mset (qs i) + mset (qs j) +
      (mset fl + (\<Sum>k \<in> {..<NUMOFMESSAGEQUEUES} - {i} - {j}. mset (qs k)))"
    using msg_repD(5) [OF assms(1)] by (simp add: ac_simps)
  then have "mset (qs i) + mset (qs j) \<subseteq># mset [0..<NUMOFMESSAGEBUFFERS]"
    by simp
  then have "count (mset (qs i)) b + count (mset (qs j)) b \<le> count (mset [0..<NUMOFMESSAGEBUFFERS]) b"
    by (metis count_union mset_subset_eq_count)
  moreover have "1 \<le> count (mset (qs i)) b" "1 \<le> count (mset (qs j)) b"
    using b by (simp_all add: Suc_le_eq)
  moreover have "count (mset [0..<NUMOFMESSAGEBUFFERS]) b \<le> 1"
    using distinct_count_atmost_1 [of "[0..<NUMOFMESSAGEBUFFERS]"] by auto
  ultimately show False by linarith
qed

lemma rep_room:
  assumes "msg_rep s fl qs" "i < NUMOFMESSAGEQUEUES"
  shows "length fl + qsize (queue_of s i) \<le> NUMOFMESSAGEBUFFERS"
proof -
  have "distinct (fl @ qs i)"
    using msg_rep_perm(1) [OF assms(1)] msg_rep_buffer(3) [OF assms] assms(2)
    by (auto simp: distinct_concat_iff)
  moreover have "set (fl @ qs i) \<subseteq> {..<NUMOFMESSAGEBUFFERS}"
    using msg_rep_buffer(1,2) [OF assms(1)] assms(2) by auto
  ultimately have "length (fl @ qs i) \<le> NUMOFMESSAGEBUFFERS"
    by (metis card_lessThan card_mono distinct_card finite_lessThan)
  then show ?thesis by (simp add: msg_rep_qsize [OF assms])
qed

section \<open>Critical sections\<close>

lemma GetMessageBuffer_ok:
  assumes "mach_ok m" "lock_free FreeMessageBufferLock m" "lock_free (MessageBufferLock b) m"
    "free_message_buffer s = int b" "b < NUMOFMESSAGEBUFFERS"
  shows "GetMessageBuffer m s = Inr (int b, m, s\<lparr>free_message_buffer := next_free s b\<rparr>)"
  using assms by (simp add: GetMessageBuffer_def km_simps)

lemma GetMessageBuffer_exhausted:
  assumes "mach_ok m" "lock_free FreeMessageBufferLock m" "free_message_buffer s = -1"
  shows "GetMessageBuffer m s = Inl (Fault ''message_buffer_lock'')"
  using assms by (simp add: GetMessageBuffer_def km_simps in_bounds_def)

definition freed :: "nat \<Rightarrow> msg_state \<Rightarrow> msg_state" where
  "freed b s = s\<lparr>message_buffer := (message_buffer s)(b := (message_buffer s b)(0 := free_message_buffer s)),
                 free_message_buffer := int b\<rparr>"

lemma FreeMessageBuffer_ok:
  assumes "mach_ok m" "lock_free FreeMessageBufferLock m" "lock_free (MessageBufferLock b) m"
    "b < NUMOFMESSAGEBUFFERS"
  shows "FreeMessageBuffer (int b) m s = Inr ((), m, freed b s)"
  using assms by (simp add: FreeMessageBuffer_def km_simps freed_def)

section \<open>Sending and receiving refine the mailbox\<close>

lemma queue_of_set_queue:
  assumes "msg_rep s fl qs" "r < NUMOFMESSAGEQUEUES" "i < NUMOFMESSAGEQUEUES"
  shows "queue_of (set_queue r q s) i = (if i = r then q else queue_of s i)"
  using assms msg_repD(2) [OF assms(1)] by (auto simp: set_queue_def inj_on_def)

text \<open>The state after a message has been put in buffer \<open>b\<close>, the head of the free list.\<close>

definition sent :: "int \<Rightarrow> nat \<Rightarrow> (nat \<Rightarrow> int) \<Rightarrow> nat \<Rightarrow> msg_state \<Rightarrow> msg_state" where
  "sent s_pid r msg b s =
     (let s1 = s\<lparr>free_message_buffer := next_free s b\<rparr>;
          s2 = set_queue r (snd (enqueue (queue_of s1 r) (int b))) s1;
          s3 = s2\<lparr>from_array := (from_array s2)(b := s_pid)\<rparr>
      in store_payload b msg s3)"

lemma send_message_step:
  assumes "quiet m" "r < NUMOFMESSAGEQUEUES" "\<not> isFull (queue_of s r)"
    "free_message_buffer s = int b" "b < NUMOFMESSAGEBUFFERS"
  shows "send_message s_pid (int r) msg m s = Inr (0, m, sent s_pid r msg b s)"
  using assms
  by (simp add: send_message_def Let_def km_simps GetMessageBuffer_ok sent_def)

lemma payload_sent:
  assumes "b' \<noteq> b"
  shows "payload (sent s_pid r msg b s) b' = payload s b'"
  using assms by (simp add: sent_def Let_def store_payload_def payload_def set_queue_def)

lemma payload_sent_self:
  "payload (sent s_pid r msg b s) b = map msg [0..<MessageSize - 1]"
proof -
  have "map (\<lambda>i. if 1 \<le> i \<and> i < MessageSize then msg (i - 1) else f i) [1..<MessageSize]
      = map msg [0..<MessageSize - 1]" for f :: "nat \<Rightarrow> int"
    by (rule nth_equalityI) auto
  then show ?thesis
    by (simp add: sent_def Let_def store_payload_def payload_def)
qed

lemma queue_of_sent:
  assumes "msg_rep s fl qs" "r < NUMOFMESSAGEQUEUES" "i < NUMOFMESSAGEQUEUES"
  shows "queue_of (sent s_pid r msg b s) i
    = (if i = r then snd (enqueue (queue_of s r) (int b)) else queue_of s i)"
  using assms msg_repD(2) [OF assms(1)]
  by (auto simp: sent_def Let_def store_payload_def set_queue_def inj_on_def)

lemma sent_rep:
  assumes rep: "msg_rep s (b # fl) qs" and r: "r < NUMOFMESSAGEQUEUES"
    and room: "qsize (queue_of s r) < NUMOFMESSAGEBUFFERS"
  shows "msg_rep (sent s_pid r msg b s) fl (qs(r := qs r @ [b]))"
proof -
  let ?t = "sent s_pid r msg b s"
  have b: "b \<notin> set fl" using msg_rep_buffer(4) [OF rep] by simp
  have "next_free ?t b' = next_free s b'" for b'
    by (simp add: sent_def Let_def store_payload_def set_queue_def)
  moreover have "free_message_buffer ?t = next_free s b"
    by (simp add: sent_def Let_def store_payload_def set_queue_def)
  ultimately have "chain (next_free ?t) (free_message_buffer ?t) fl"
    using msg_repD(1) [OF rep] by simp
  moreover have "message_queue ?t = message_queue s"
    by (simp add: sent_def Let_def store_payload_def set_queue_def)
  moreover have "queue_inv (queue_of ?t i) \<and> queue_list (queue_of ?t i) = map int ((qs(r := qs r @ [b])) i)"
    if "i < NUMOFMESSAGEQUEUES" for i
    using lq.enq_room [of "queue_of s r" "int b"] msg_repD(3,4) [OF rep that] msg_repD(3,4) [OF rep r] room
    by (simp add: queue_of_sent [OF rep r that] msg_rep_qsize [OF rep r])
  moreover have "mset fl + (\<Sum>i < NUMOFMESSAGEQUEUES. mset ((qs(r := qs r @ [b])) i)) = mset [0..<NUMOFMESSAGEBUFFERS]"
    using sum_mset_update [OF r, of qs "qs r @ [b]"] msg_repD(5) [OF rep] by (simp add: ac_simps)
  ultimately show ?thesis
    using msg_repD(2) [OF rep] by (simp add: msg_rep_def)
qed

lemma mail_sent:
  assumes rep: "msg_rep s (b # fl) qs" and r: "r < NUMOFMESSAGEQUEUES" and i: "i < NUMOFMESSAGEQUEUES"
    and room: "qsize (queue_of s r) < NUMOFMESSAGEBUFFERS"
  shows "mail (sent s_pid r msg b s) i =
    (if i = r then mail s r @ [map msg [0..<MessageSize - 1]] else mail s i)"
proof -
  have "b \<notin> set (qs i)" if "i < NUMOFMESSAGEQUEUES" for i
    using msg_rep_buffer(3) [OF rep that] by auto
  then have "map (\<lambda>x. payload (sent s_pid r msg b s) x) (qs i) = map (payload s) (qs i)"
    if "i < NUMOFMESSAGEQUEUES" for i
    using that by (intro map_cong refl payload_sent) auto
  then show ?thesis
    using i r msg_repD(4) [OF sent_rep [OF rep r room] i, of s_pid msg]
      msg_repD(4) [OF rep i] msg_repD(4) [OF rep r]
    by (auto simp: mail_def comp_def payload_sent_self)
qed

text \<open>The state after the message in buffer \<open>b\<close>, the head of the queue, has been received.\<close>

definition received :: "nat \<Rightarrow> nat \<Rightarrow> msg_state \<Rightarrow> msg_state" where
  "received r b s = freed b (set_queue r (snd (dequeue (queue_of s r))) s)"

lemma receive_with_step:
  assumes "quiet m" "r < NUMOFMESSAGEQUEUES" "msg_rep s fl qs" "qs r = b # bs"
    and out: "\<And>s'. note (hold (QueueLock r) m) s' = Inr ((), hold (QueueLock r) m', s')"
    and m': "mach_ok m'" "lock_free (QueueLock r) m'"
  shows "receive_with note (int r) m s = Inr ((0, payload s b), m', received r b s)"
proof -
  have q: "queue_inv (queue_of s r)" "queue_list (queue_of s r) = int b # map int bs"
    using msg_repD(3,4) [OF assms(3,2)] assms(4) by simp_all
  have b: "b < NUMOFMESSAGEBUFFERS"
    using msg_rep_buffer(2) [OF assms(3,2), of b] assms(4) by simp
  obtain q' where deq: "dequeue (queue_of s r) = (int b, q')"
    using lq.deq_some [OF q] by (metis prod.collapse)
  have ne: "\<not> isEmpty (queue_of s r)"
    using q(2) by (simp add: isEmpty_list)
  have pay: "payload (set_queue r q s) b = payload s b" for q
    by (simp add: payload_def set_queue_def)
  show ?thesis
    using assms(1,2) b ne m'
    by (simp add: receive_with_def Let_def km_simps deq pay FreeMessageBuffer_ok out received_def)
qed

lemma receive_with_empty:
  assumes "quiet m" "r < NUMOFMESSAGEQUEUES" "isEmpty (queue_of s r)"
  shows "receive_with note (int r) m s = Inr ((-1, []), m, s)"
  using assms by (simp add: receive_with_def Let_def km_simps)

lemma queue_of_received:
  assumes "msg_rep s fl qs" "r < NUMOFMESSAGEQUEUES" "i < NUMOFMESSAGEQUEUES"
  shows "queue_of (received r b s) i
    = (if i = r then snd (dequeue (queue_of s r)) else queue_of s i)"
  using assms msg_repD(2) [OF assms(1)]
  by (auto simp: received_def freed_def set_queue_def inj_on_def)

lemma received_rep:
  assumes rep: "msg_rep s fl qs" and r: "r < NUMOFMESSAGEQUEUES" and q: "qs r = b # bs"
  shows "msg_rep (received r b s) (b # fl) (qs(r := bs))"
proof -
  let ?t = "received r b s"
  have b: "b \<notin> set fl" using msg_rep_buffer(3) [OF rep r] q by auto
  have "next_free ?t = (next_free s)(b := free_message_buffer s)"
    by (auto simp: received_def freed_def set_queue_def)
  moreover have "free_message_buffer ?t = int b"
    by (simp add: received_def freed_def)
  ultimately have "chain (next_free ?t) (free_message_buffer ?t) (b # fl)"
    using msg_repD(1) [OF rep] b by (simp add: chain_upd del: fun_upd_apply) simp
  moreover have "message_queue ?t = message_queue s"
    by (simp add: received_def freed_def set_queue_def)
  moreover have "queue_inv (queue_of ?t i) \<and> queue_list (queue_of ?t i) = map int ((qs(r := bs)) i)"
    if "i < NUMOFMESSAGEQUEUES" for i
    using lq.deq_some [of "queue_of s r" "int b" "map int bs"] msg_repD(3,4) [OF rep that]
      msg_repD(3,4) [OF rep r] q
    by (simp add: queue_of_received [OF rep r that])
  moreover have "(\<Sum>i < NUMOFMESSAGEQUEUES. mset ((qs(r := bs)) i)) + {#b#} = (\<Sum>i < NUMOFMESSAGEQUEUES. mset (qs i))"
    using sum_mset_update [OF r, of qs bs] q by simp
  then have "mset (b # fl) + (\<Sum>i < NUMOFMESSAGEQUEUES. mset ((qs(r := bs)) i)) = mset [0..<NUMOFMESSAGEBUFFERS]"
    unfolding msg_repD(5) [OF rep, symmetric] by (metis mset.simps(2) add_mset_add_single union_assoc union_commute)
  ultimately show ?thesis
    using msg_repD(2) [OF rep] by (simp add: msg_rep_def)
qed

lemma mail_received:
  assumes rep: "msg_rep s fl qs" and r: "r < NUMOFMESSAGEQUEUES" and i: "i < NUMOFMESSAGEQUEUES"
    and q: "qs r = b # bs"
  shows "mail (received r b s) i = (if i = r then tl (mail s r) else mail s i)"
proof -
  have pay: "payload (received r b s) = payload s"
    by (intro ext) (simp add: payload_def received_def freed_def set_queue_def)
  show ?thesis
    using i r q msg_repD(4) [OF received_rep [OF rep r q] i] msg_repD(4) [OF rep i] msg_repD(4) [OF rep r]
    by (auto simp: mail_def comp_def pay)
qed

lemma mail_hd: "msg_rep s fl qs \<Longrightarrow> r < NUMOFMESSAGEQUEUES \<Longrightarrow> qs r = b # bs \<Longrightarrow> hd (mail s r) = payload s b"
  using msg_repD(4) [of s fl qs r] by (simp add: mail_def)

lemma mail_Nil_iff: "mail s i = [] \<longleftrightarrow> isEmpty (queue_of s i)"
  by (simp add: mail_def isEmpty_list)

lemma free_count_rep:
  assumes "msg_rep s fl qs"
  shows "free_count s = length fl"
proof -
  have "(\<Sum>i < NUMOFMESSAGEQUEUES. qsize (queue_of s i)) = (\<Sum>i < NUMOFMESSAGEQUEUES. length (qs i))"
    by (rule sum.cong) (auto simp: msg_rep_qsize [OF assms])
  moreover have "size (mset fl + (\<Sum>i < NUMOFMESSAGEQUEUES. mset (qs i))) = NUMOFMESSAGEBUFFERS"
    by (simp add: msg_repD(5) [OF assms])
  moreover have "size (\<Sum>i < NUMOFMESSAGEQUEUES. mset (qs i)) = (\<Sum>i < NUMOFMESSAGEQUEUES. length (qs i))"
    by (simp add: size_multiset_sum)
  ultimately show ?thesis
    by (simp add: free_count_def)
qed

section \<open>Initialisation\<close>

lemma init_buffers:
  assumes "quiet m"
  shows "for_each init_buffer [0..<n] m s = Inr ((), m, s\<lparr>message_buffer :=
    (\<lambda>i. if i < n then (message_buffer s i)(0 := int i + 1) else message_buffer s i)\<rparr>)"
proof (induction n)
  case 0
  then show ?case by (simp add: km_simps)
next
  case (Suc n)
  then show ?case
    using assms by (simp add: for_each_append bnd_Inr)
      (simp add: init_buffer_def km_simps initlock_free if_less_Suc_upd)
qed

lemma init_queues:
  assumes "quiet m" "count_q (qpool s) = 0" "n \<le> NUMOFMESSAGEQUEUES"
  shows "for_each init_queue [0..<n] m s = Inr ((), m, s\<lparr>
    qpool := \<lparr>temp_queue = (\<lambda>i. if i < n then (temp_queue (qpool s) i)\<lparr>qsize := 0, qtail := 0, qhead := 0\<rparr>
                               else temp_queue (qpool s) i), count_q = n\<rparr>,
    message_queue := (\<lambda>i. if i < n then i else message_queue s i)\<rparr>)"
  using assms(3)
proof (induction n)
  case 0
  then show ?case using assms by (cases s, cases "qpool s") (simp add: km_simps)
next
  case (Suc n)
  then show ?case
    using assms by (simp add: for_each_append bnd_Inr)
      (simp add: init_queue_def km_simps initlock_free createqueue_def Let_def if_less_Suc_upd
        if_less_Suc_upd [of n "\<lambda>i. i"])
qed

lemma chain_upt:
  assumes "\<And>b. b < n - 1 \<Longrightarrow> f b = int b + 1" "f (n - 1) = -1"
  shows "i < n \<Longrightarrow> chain f (int i) [i..<n]"
proof (induction "n - i" arbitrary: i)
  case 0
  then show ?case by simp
next
  case (Suc k)
  show ?case
  proof (cases "Suc i < n")
    case True
    then have "chain f (int (Suc i)) [Suc i..<n]"
      using Suc.hyps(1) [of "Suc i"] Suc.hyps(2) by simp
    then show ?thesis
      using True assms(1) [of i] Suc.prems by (simp add: upt_conv_Cons add.commute)
  next
    case False
    then have "i = n - 1" using Suc.prems by simp
    then show ?thesis using Suc.prems assms(2) by (simp add: upt_conv_Cons)
  qed
qed

definition initialised :: "msg_state \<Rightarrow> msg_state" where
  "initialised s = s\<lparr>
     message_buffer := (\<lambda>i. if i < NUMOFMESSAGEBUFFERS - 1 then (message_buffer s i)(0 := int i + 1)
        else if i = NUMOFMESSAGEBUFFERS - 1 then (message_buffer s i)(0 := -1) else message_buffer s i),
     free_message_buffer := 0,
     qpool := \<lparr>temp_queue = (\<lambda>i. if i < NUMOFMESSAGEQUEUES
          then (temp_queue (qpool s) i)\<lparr>qsize := 0, qtail := 0, qhead := 0\<rparr>
          else temp_queue (qpool s) i), count_q = NUMOFMESSAGEQUEUES\<rparr>,
     message_queue := (\<lambda>i. if i < NUMOFMESSAGEQUEUES then i else message_queue s i)\<rparr>"

lemma messageinit_step:
  assumes "quiet m" "count_q (qpool s) = 0"
  shows "messageinit m s = Inr ((), m, initialised s)"
proof -
  have last: "(\<lambda>i. if i < NUMOFMESSAGEBUFFERS - 1 then (message_buffer s i)(0 := int i + 1)
        else message_buffer s i)(NUMOFMESSAGEBUFFERS - 1 := (message_buffer s (NUMOFMESSAGEBUFFERS - 1))(0 := -1))
      = (\<lambda>i. if i < NUMOFMESSAGEBUFFERS - 1 then (message_buffer s i)(0 := int i + 1)
        else if i = NUMOFMESSAGEBUFFERS - 1 then (message_buffer s i)(0 := -1) else message_buffer s i)"
    by (auto simp: fun_eq_iff)
  show ?thesis
    using assms last
    by (simp add: messageinit_def bnd_def init_buffers initlock_free upd_def init_queues initialised_def
        cong: if_cong)
qed

lemma initialised_rep: "msg_rep (initialised s) [0..<NUMOFMESSAGEBUFFERS] (\<lambda>_. [])"
proof -
  let ?t = "initialised s"
  have "chain (next_free ?t) (int 0) [0..<NUMOFMESSAGEBUFFERS]"
    by (rule chain_upt) (simp_all add: initialised_def)
  then show ?thesis
    by (simp add: msg_rep_def initialised_def inj_on_def queue_inv_def queue_list_def)
qed

section \<open>One call at a time\<close>

lemma send_mail:
  assumes "quiet m" "msg_inv s" "r < NUMOFMESSAGEQUEUES" "0 < free_count s"
  shows "\<exists>s'. send_message s_pid (int r) msg m s = Inr (0, m, s') \<and> msg_inv s' \<and>
    (\<forall>i < NUMOFMESSAGEQUEUES. mail s' i =
       (if i = r then mail s r @ [map msg [0..<MessageSize - 1]] else mail s i)) \<and>
    free_count s' = free_count s - 1"
proof -
  from assms(2) obtain fl0 qs where rep0: "msg_rep s fl0 qs" by (auto simp: msg_inv_def)
  with assms(4) obtain b fl where rep: "msg_rep s (b # fl) qs"
    by (cases fl0) (auto simp: free_count_rep)
  have b: "b < NUMOFMESSAGEBUFFERS" "free_message_buffer s = int b"
    using msg_rep_buffer(1) [OF rep, of b] msg_repD(1) [OF rep] by auto
  have room: "qsize (queue_of s r) < NUMOFMESSAGEBUFFERS"
    using rep_room [OF rep assms(3)] by simp
  have "send_message s_pid (int r) msg m s = Inr (0, m, sent s_pid r msg b s)"
    using assms(1,3) room b by (intro send_message_step) (auto simp: isFull_def)
  moreover have rep': "msg_rep (sent s_pid r msg b s) fl (qs(r := qs r @ [b]))"
    by (rule sent_rep [OF rep assms(3) room])
  ultimately show ?thesis
    using mail_sent [OF rep assms(3) _ room] free_count_rep [OF rep] free_count_rep [OF rep']
    unfolding msg_inv_def by auto
qed

lemma receive_mail:
  assumes "quiet m" "msg_inv s" "r < NUMOFMESSAGEQUEUES" "mail s r = w # ws"
    and out: "\<And>s'. note (hold (QueueLock r) m) s' = Inr ((), hold (QueueLock r) m', s')"
    and m': "mach_ok m'" "lock_free (QueueLock r) m'"
  shows "\<exists>s'. receive_with note (int r) m s = Inr ((0, w), m', s') \<and> msg_inv s' \<and>
    (\<forall>i < NUMOFMESSAGEQUEUES. mail s' i = (if i = r then ws else mail s i)) \<and>
    free_count s' = free_count s + 1"
proof -
  from assms(2) obtain fl qs where rep: "msg_rep s fl qs" by (auto simp: msg_inv_def)
  have "qs r \<noteq> []"
    using msg_repD(4) [OF rep assms(3)] assms(4) by (auto simp: mail_def)
  then obtain b bs where q: "qs r = b # bs" by (cases "qs r") auto
  have step: "receive_with note (int r) m s = Inr ((0, payload s b), m', received r b s)"
    by (rule receive_with_step) (fact assms(1,3) rep q out m')+
  note rep' = received_rep [OF rep assms(3) q]
  have "free_count (received r b s) = free_count s + 1"
    by (simp add: free_count_rep [OF rep] free_count_rep [OF rep'])
  then show ?thesis
    using step rep' mail_received [OF rep assms(3) _ q] mail_hd [OF rep assms(3) q] assms(4)
    unfolding msg_inv_def by auto
qed

section \<open>A sequence of calls\<close>

text \<open>
  The contract the kernel offers its callers: boxes numbered below \<open>users\<close>, a common supply of
  \<open>room\<close>, a send that appends and a receive that takes the oldest message or reports an empty box.
\<close>

datatype 'w mop = MSend nat 'w | MRecv nat

primrec mop_box :: "'w mop \<Rightarrow> nat" where
  "mop_box (MSend r w) = r"
| "mop_box (MRecv r) = r"

text \<open>What is put into box \<open>r\<close>, and what has been taken out of it.\<close>

definition puts :: "('w \<Rightarrow> 'v) \<Rightarrow> nat \<Rightarrow> 'w mop list \<Rightarrow> 'v list" where
  "puts enc r ops = concat (map (\<lambda>x. case x of MSend i w \<Rightarrow> if i = r then [enc w] else [] | MRecv i \<Rightarrow> []) ops)"

definition takes :: "nat \<Rightarrow> (nat \<times> 'v) list \<Rightarrow> 'v list" where
  "takes r outs = map snd (filter (\<lambda>x. fst x = r) outs)"

primrec is_send :: "'w mop \<Rightarrow> bool" where
  "is_send (MSend r w) = True"
| "is_send (MRecv r) = False"

fun run_mops ::
  "(nat \<Rightarrow> 'w \<Rightarrow> 's \<Rightarrow> 's option) \<Rightarrow> (nat \<Rightarrow> 's \<Rightarrow> ('v option \<times> 's) option) \<Rightarrow>
   'w mop list \<Rightarrow> 's \<Rightarrow> ((nat \<times> 'v) list \<times> 's) option" where
  "run_mops send recv [] s = Some ([], s)"
| "run_mops send recv (MSend r w # ops) s =
     (case send r w s of None \<Rightarrow> None | Some s' \<Rightarrow> run_mops send recv ops s')"
| "run_mops send recv (MRecv r # ops) s =
     (case recv r s of None \<Rightarrow> None
      | Some (x, s') \<Rightarrow>
          (case run_mops send recv ops s' of None \<Rightarrow> None
           | Some (outs, s'') \<Rightarrow> Some (case x of None \<Rightarrow> outs | Some v \<Rightarrow> (r, v) # outs, s'')))"

locale mailboxes =
  fixes send :: "nat \<Rightarrow> 'w \<Rightarrow> 's \<Rightarrow> 's option"
    and recv :: "nat \<Rightarrow> 's \<Rightarrow> ('v option \<times> 's) option"
    and enc :: "'w \<Rightarrow> 'v" and box :: "'s \<Rightarrow> nat \<Rightarrow> 'v list"
    and room :: "'s \<Rightarrow> nat" and invar :: "'s \<Rightarrow> bool" and users :: nat
  assumes send_room: "invar s \<Longrightarrow> r < users \<Longrightarrow> 0 < room s \<Longrightarrow>
      \<exists>s'. send r w s = Some s' \<and> invar s' \<and> room s' = room s - 1 \<and>
        (\<forall>i < users. box s' i = (if i = r then box s r @ [enc w] else box s i))"
    and recv_Nil: "invar s \<Longrightarrow> r < users \<Longrightarrow> box s r = [] \<Longrightarrow> recv r s = Some (None, s)"
    and recv_Cons: "invar s \<Longrightarrow> r < users \<Longrightarrow> box s r = v # vs \<Longrightarrow>
      \<exists>s'. recv r s = Some (Some v, s') \<and> invar s' \<and> room s' = room s + 1 \<and>
        (\<forall>i < users. box s' i = (if i = r then vs else box s i))"
begin

text \<open>Nothing is lost, duplicated or reordered, whatever the interleaving of senders and receivers.\<close>

lemma stream:
  assumes "invar s" "\<forall>x \<in> set ops. mop_box x < users" "length (filter is_send ops) \<le> room s"
  shows "\<exists>outs s'. run_mops send recv ops s = Some (outs, s') \<and> invar s' \<and>
    (\<forall>r < users. takes r outs @ box s' r = box s r @ puts enc r ops)"
  using assms
proof (induction ops arbitrary: s)
  case Nil
  then show ?case by (simp add: takes_def puts_def)
next
  case (Cons x ops)
  show ?case
  proof (cases x)
    case (MSend r w)
    with Cons.prems send_room [of s r w] obtain s1 where s1: "send r w s = Some s1" "invar s1"
      "room s1 = room s - 1" "\<forall>i < users. box s1 i = (if i = r then box s r @ [enc w] else box s i)"
      by auto
    have "\<forall>x \<in> set ops. mop_box x < users" "length (filter is_send ops) \<le> room s1"
      using Cons.prems MSend s1(3) by auto
    from Cons.IH [OF s1(2) this] obtain outs s' where
      "run_mops send recv ops s1 = Some (outs, s')" "invar s'"
      "\<forall>r < users. takes r outs @ box s' r = box s1 r @ puts enc r ops"
      by blast
    then show ?thesis
      using s1 MSend by (auto simp: puts_def)
  next
    case (MRecv r)
    then have r: "r < users" using Cons.prems by simp
    show ?thesis
    proof (cases "box s r")
      case Nil
      with Cons.IH [of s] Cons.prems MRecv recv_Nil [OF _ r Nil] show ?thesis
        by (fastforce simp: puts_def)
    next
      case (Cons v vs)
      with recv_Cons [OF Cons.prems(1) r] obtain s1 where s1: "recv r s = Some (Some v, s1)" "invar s1"
        "room s1 = room s + 1" "\<forall>i < users. box s1 i = (if i = r then vs else box s i)"
        by blast
      have "\<forall>x \<in> set ops. mop_box x < users" "length (filter is_send ops) \<le> room s1"
      using Cons.prems MRecv s1(3) by auto
    from Cons.IH [OF s1(2) this] obtain outs s' where
        "run_mops send recv ops s1 = Some (outs, s')" "invar s'"
        "\<forall>r < users. takes r outs @ box s' r = box s1 r @ puts enc r ops"
        by blast
      then show ?thesis
        using s1 MRecv Cons r by (auto simp: puts_def takes_def)
    qed
  qed
qed

end

text \<open>The calls of \<^verbatim>\<open>message.c\<close> on a machine and a message state, as the operations of the contract.\<close>

definition send_op :: "nat \<Rightarrow> int \<times> (nat \<Rightarrow> int) \<Rightarrow> mach \<times> msg_state \<Rightarrow> (mach \<times> msg_state) option" where
  "send_op r w ms =
     (case send_message (fst w) (int r) (snd w) (fst ms) (snd ms) of
        Inr (rc, ms') \<Rightarrow> if rc = 0 then Some ms' else None
      | Inl e \<Rightarrow> None)"

definition recv_op :: "nat \<Rightarrow> mach \<times> msg_state \<Rightarrow> (int list option \<times> mach \<times> msg_state) option" where
  "recv_op r ms =
     (case receive_msg (int r) (fst ms) (snd ms) of
        Inr ((rc, words), ms') \<Rightarrow> Some (if rc = 0 then Some words else None, ms')
      | Inl e \<Rightarrow> None)"

definition words_of :: "int \<times> (nat \<Rightarrow> int) \<Rightarrow> int list" where
  "words_of w = map (snd w) [0..<MessageSize - 1]"

definition msg_ok :: "mach \<times> msg_state \<Rightarrow> bool" where
  "msg_ok ms \<longleftrightarrow> quiet (fst ms) \<and> msg_inv (snd ms)"

interpretation mb: mailboxes send_op recv_op words_of "\<lambda>ms. mail (snd ms)"
  "\<lambda>ms. free_count (snd ms)" msg_ok NUMOFMESSAGEQUEUES
proof (unfold_locales, goal_cases)
  case (1 s r w)
  then show ?case
    using send_mail [of "fst s" "snd s" r "fst w" "snd w"] by (auto simp: msg_ok_def send_op_def words_of_def)
next
  case (2 s r)
  then show ?case
    by (simp add: msg_ok_def recv_op_def receive_msg_def receive_with_empty mail_Nil_iff)
next
  case (3 s r v vs)
  then show ?case
    using receive_mail [of "fst s" "snd s" r v vs "ret ()" "fst s"]
    by (auto simp: msg_ok_def recv_op_def receive_msg_def ret_def)
qed

text \<open>The statically allocated tables before \<open>messageinit\<close>, all zero.\<close>

definition msg_zero :: msg_state where
  "msg_zero = \<lparr>message_buffer = (\<lambda>_ _. 0), from_array = (\<lambda>_. 0), free_message_buffer = 0,
     message_queue = (\<lambda>_. 0),
     qpool = \<lparr>temp_queue = (\<lambda>_. \<lparr>qsize = 0, qdata = (\<lambda>_. 0), qhead = 0, qtail = 0\<rparr>), count_q = 0\<rparr>\<rparr>"

lemma count_q_zero [simp]: "count_q (qpool msg_zero) = 0"
  by (simp add: msg_zero_def)

lemma msg_inv_initialised [simp]: "msg_inv (initialised s)"
  using initialised_rep by (auto simp: msg_inv_def)

lemma mail_initialised [simp]: "i < NUMOFMESSAGEQUEUES \<Longrightarrow> mail (initialised s) i = []"
  using msg_repD(4) [OF initialised_rep] by (simp add: mail_def)

lemma free_count_initialised [simp]: "free_count (initialised s) = NUMOFMESSAGEBUFFERS"
  by (simp add: free_count_rep [OF initialised_rep])

section \<open>Properties\<close>

text \<open>C2: from boot, every sequence of sends and receives with at most 5001 sends returns from each
  call, and what a receiver has got followed by what is still in its mailbox is exactly what was
  sent to it, in order: no message is lost, duplicated, reordered or delivered to another receiver,
  whatever the interleaving.\<close>

theorem message_streams:
  assumes "quiet m" "count_q (qpool s) = 0"
    and "\<forall>x \<in> set ops. mop_box x < NUMOFMESSAGEQUEUES"
    and "length (filter is_send ops) \<le> NUMOFMESSAGEBUFFERS"
  shows "\<exists>s0 outs m' s'. messageinit m s = Inr ((), m, s0) \<and>
    run_mops send_op recv_op ops (m, s0) = Some (outs, m', s') \<and> msg_inv s' \<and>
    (\<forall>r < NUMOFMESSAGEQUEUES. takes r outs @ mail s' r = puts words_of r ops)"
  using mb.stream [of "(m, initialised s)" ops] assms messageinit_step [OF assms(1,2)]
  by (auto simp: msg_ok_def)

text \<open>The streams of a concrete run: two senders to receiver 3, one receive by 3 and one by 4.\<close>

theorem message_streams_witness:
  "let ops = [MSend 3 (1, \<lambda>i. int i), MSend 3 (2, \<lambda>_. 7), MRecv 3, MRecv 4]
   in (\<forall>x \<in> set ops. mop_box x < NUMOFMESSAGEQUEUES) \<and>
      (\<exists>s0 outs m' s'. messageinit (idle_mach None) msg_zero = Inr ((), idle_mach None, s0) \<and>
        run_mops send_op recv_op ops (idle_mach None, s0) = Some (outs, m', s') \<and> msg_inv s' \<and>
        (\<forall>r < NUMOFMESSAGEQUEUES. takes r outs @ mail s' r = puts words_of r ops))"
  using message_streams [of "idle_mach None" msg_zero
      "[MSend 3 (1, \<lambda>i. int i), MSend 3 (2, \<lambda>_. 7), MRecv 3, MRecv 4]"]
  by (simp add: Let_def const_defs)

text \<open>C25: with a buffer free, \<open>send_message\<close> returns 0 and appends the fifteen words of the message
  to the receiver's mailbox; the other mailboxes and the invariant are kept, every lock is free
  again and one buffer less is free.\<close>

theorem send_message_delivers:
  assumes "quiet m" "msg_inv s" "r < NUMOFMESSAGEQUEUES" "0 < free_count s"
  shows "\<exists>s'. send_message s_pid (int r) msg m s = Inr (0, m, s') \<and> msg_inv s' \<and>
    (\<forall>i < NUMOFMESSAGEQUEUES. mail s' i =
       (if i = r then mail s r @ [map msg [0..<MessageSize - 1]] else mail s i)) \<and>
    free_count s' = free_count s - 1"
  by (rule send_mail [OF assms])

theorem send_message_delivers_witness:
  "\<exists>s'. send_message 9 (int 5) (\<lambda>i. 10 + int i) (idle_mach None) (initialised msg_zero)
       = Inr (0, idle_mach None, s') \<and>
     mail s' 5 = [map (\<lambda>i. 10 + int i) [0..<MessageSize - 1]] \<and> free_count s' = 5000"
  using send_message_delivers [of "idle_mach None" "initialised msg_zero" 5 9 "\<lambda>i. 10 + int i"]
  by (fastforce simp: const_defs)

text \<open>\<open>receive_msg\<close> returns 0 with the oldest message of the caller's mailbox and removes it;
  the buffer is free again, the other mailboxes, the invariant and the machine are as before.\<close>

lemma receive_msg_oldest:
  assumes "quiet m" "msg_inv s" "r < NUMOFMESSAGEQUEUES" "mail s r = w # ws"
  shows "\<exists>s'. receive_msg (int r) m s = Inr ((0, w), m, s') \<and> msg_inv s' \<and>
    (\<forall>i < NUMOFMESSAGEQUEUES. mail s' i = (if i = r then ws else mail s i)) \<and>
    free_count s' = free_count s + 1"
  unfolding receive_msg_def
  using assms by (intro receive_mail) (simp_all add: ret_def)

text \<open>On an empty mailbox \<open>isReceiverQueueEmpty\<close> returns 1 and the two receive functions
  return -1; nothing changes.\<close>

lemma receive_msg_empty:
  assumes "quiet m" "r < NUMOFMESSAGEQUEUES" "mail s r = []"
  shows "isReceiverQueueEmpty (int r) m s = Inr (1, m, s) \<and>
    receive_msg (int r) m s = Inr ((-1, []), m, s) \<and>
    receive_message_temp (int r) m s = Inr ((-1, []), m, s)"
  using assms
  by (simp add: receive_msg_def receive_message_temp_def receive_with_empty mail_Nil_iff
      isReceiverQueueEmpty_def km_simps)

lemma receive_msg_empty_witness:
  "receive_msg (int 63) (idle_mach None) (initialised msg_zero)
     = Inr ((-1, []), idle_mach None, initialised msg_zero)"
  using receive_msg_empty [of "idle_mach None" 63 "initialised msg_zero"]
  by (simp add: const_defs)

text \<open>C35: when all 5001 buffers are in use, a send to a receiver whose queue is not full reads
  \<open>message_buffer_lock[-1]\<close>: the free list's end marker is tested only after it has been used as
  an index.\<close>

theorem send_message_exhausted:
  assumes "quiet m" "msg_inv s" "r < NUMOFMESSAGEQUEUES" "free_count s = 0"
    "\<not> isFull (queue_of s r)"
  shows "send_message s_pid (int r) msg m s = Inl (Fault ''message_buffer_lock'')"
proof -
  from assms(2) obtain fl qs where rep: "msg_rep s fl qs" by (auto simp: msg_inv_def)
  have "free_message_buffer s = -1"
    using msg_repD(1) [OF rep] assms(4) free_count_rep [OF rep] by simp
  then show ?thesis
    using assms by (simp add: send_message_def Let_def km_simps GetMessageBuffer_exhausted)
qed

text \<open>A state with every buffer waiting for receiver 0.\<close>

definition msg_full :: msg_state where
  "msg_full = \<lparr>message_buffer = (\<lambda>_ _. 0), from_array = (\<lambda>_. 0), free_message_buffer = -1,
     message_queue = (\<lambda>i. i),
     qpool = \<lparr>temp_queue = (\<lambda>i. \<lparr>qsize = if i = 0 then NUMOFMESSAGEBUFFERS else 0, qdata = int,
        qhead = 0, qtail = 0\<rparr>), count_q = NUMOFMESSAGEQUEUES\<rparr>\<rparr>"

lemma msg_full_rep: "msg_rep msg_full [] (\<lambda>i. if i = 0 then [0..<NUMOFMESSAGEBUFFERS] else [])"
proof -
  have "(\<Sum>i < NUMOFMESSAGEQUEUES. mset (if i = 0 then [0..<NUMOFMESSAGEBUFFERS] else []))
      = mset [0..<NUMOFMESSAGEBUFFERS]"
    using sum.delta [of "{..<NUMOFMESSAGEQUEUES}" 0 "\<lambda>_. mset [0..<NUMOFMESSAGEBUFFERS]"]
    by (simp add: if_distrib [of mset] cong: if_cong del: mset_upt)
  then show ?thesis
    by (auto simp: msg_rep_def msg_full_def queue_inv_def queue_list_def ring_def)
qed

theorem send_message_exhausted_witness:
  "send_message 7 (int 1) (\<lambda>_. 0) (idle_mach None) msg_full = Inl (Fault ''message_buffer_lock'')"
proof -
  have "free_count msg_full = 0" "msg_inv msg_full"
    using free_count_rep [OF msg_full_rep] msg_full_rep by (auto simp: msg_inv_def)
  moreover have "\<not> isFull (queue_of msg_full 1)"
    by (simp add: isFull_def msg_full_def)
  ultimately show ?thesis
    using send_message_exhausted [of "idle_mach None" msg_full 1 7 "\<lambda>_. 0"]
    by (simp add: const_defs)
qed

end
