(* ===== verification/Proc.thy ===== *)
theory Proc
  imports Container Message
begin

text \<open>
  Processes (\<^verbatim>\<open>proc.h\<close>, \<^verbatim>\<open>proc.c\<close>): the process table, allocation, sleeping and waking, killing,
  and the process buffers of the multicast.  The scheduler and the signals it delivers are in
  \<open>Scheduler\<close>; \<open>fork\<close>, \<open>exit\<close> and \<open>userinit\<close>, which need files, are in \<open>Lifecycle\<close>.

  A function that gives up the CPU is a function of the episodes that follow: a list of state
  transformers, each of them everything that happens on the machine from one switch to the
  scheduler until the process runs again.  A run that still waits when the list ends gives \<open>None\<close>.
\<close>

section \<open>Process table\<close>

datatype procstate = UNUSED | EMBRYO | SLEEPING | RUNNABLE | RUNNING | ZOMBIE

text \<open>
  What a process can sleep on: a number cast to a pointer (\<open>sleep_receiver\<close> uses the process
  number; 0 is the null pointer) or the address of a kernel object.
\<close>

datatype chan =
    ChanInt int | ChanProc nat | ChanTicks | ChanInput | ChanRead uint | ChanWrite uint
  | ChanLog | ChanSleeplock nat | ChanBuf nat

record trapframe =
  tf_edi :: uint
  tf_esi :: uint
  tf_ebp :: uint
  tf_ebx :: uint
  tf_edx :: uint
  tf_ecx :: uint
  tf_eax :: uint
  tf_es :: uint
  tf_ds :: uint
  tf_trapno :: uint
  tf_err :: uint
  tf_eip :: uint
  tf_cs :: uint
  tf_eflags :: uint
  tf_esp :: uint
  tf_ss :: uint

record kcontext =
  ctx_edi :: uint
  ctx_esi :: uint
  ctx_ebx :: uint
  ctx_ebp :: uint
  ctx_eip :: uint

text \<open>
  The trap frame and the context are the structures the pointers \<open>tf\<close> and \<open>context\<close> point to, at the
  top of the kernel stack; a process is its index in the table, a file its index in the file table
  and an i-node its index in the i-node cache.
\<close>

record proc =
  p_sz :: uint
  p_pgdir :: uint
  p_kstack :: uint
  p_state :: procstate
  p_pid :: int
  p_parent :: "nat option"
  p_tf :: trapframe
  p_context :: kcontext
  p_chan :: chan
  p_killed :: bool
  p_ofile :: "nat \<Rightarrow> nat option"
  p_cwd :: "nat option"
  p_name :: string
  signalHandlers :: "nat \<Rightarrow> uint"
  pendingSignals :: "nat \<Rightarrow> int"
  msg_from_multicast :: "nat \<Rightarrow> int"
  container_id :: int

record procs = ctable +
  ptab :: "nat \<Rightarrow> proc"
  initproc :: "nat option"
  nextpid :: int
  scheduler_logger :: int
  msgs :: msg_state
  forkret_addr :: uint
  trapret_addr :: uint

definition upd_proc :: "nat \<Rightarrow> (proc \<Rightarrow> proc) \<Rightarrow> 'a procs_scheme \<Rightarrow> 'a procs_scheme" where
  "upd_proc i f k = k\<lparr>ptab := (ptab k)(i := f (ptab k i))\<rparr>"

definition with_msgs :: "(msg_state, 'b) km \<Rightarrow> ('a procs_scheme, 'b) km" where
  "with_msgs = zoom msgs (\<lambda>s k. k\<lparr>msgs := s\<rparr>)"

text \<open>\<open>myproc()\<close> where the result is dereferenced.\<close>

definition curproc_id :: "('a procs_scheme, nat) km" where
  "curproc_id = bnd myproc (\<lambda>p. case p of None \<Rightarrow> fail (Fault ''myproc'') | Some i \<Rightarrow> ret i)"

definition my :: "(proc \<Rightarrow> 'b) \<Rightarrow> ('a procs_scheme, 'b) km" where
  "my f = bnd curproc_id (\<lambda>i. look (\<lambda>k. f (ptab k i)))"

definition upd_my :: "(proc \<Rightarrow> proc) \<Rightarrow> ('a procs_scheme, unit) km" where
  "upd_my f = bnd curproc_id (\<lambda>i. upd (upd_proc i f))"

section \<open>Giving up the CPU\<close>

type_synonym 'c env = "mach \<Rightarrow> 'c \<Rightarrow> mach \<times> 'c"
type_synonym ('c, 'a) bkm = "'c env list \<Rightarrow> ('c, ('a \<times> 'c env list) option) km"

definition bret :: "'a \<Rightarrow> ('c, 'a) bkm" where
  "bret x es = ret (Some (x, es))"

definition lift :: "('c, 'a) km \<Rightarrow> ('c, 'a) bkm" where
  "lift f es = bnd f (\<lambda>x. ret (Some (x, es)))"

definition bbnd :: "('c, 'a) bkm \<Rightarrow> ('a \<Rightarrow> ('c, 'b) bkm) \<Rightarrow> ('c, 'b) bkm" where
  "bbnd f g es = bnd (f es) (\<lambda>r. case r of None \<Rightarrow> ret None | Some (x, es') \<Rightarrow> g x es')"

abbreviation bthen :: "('c, unit) bkm \<Rightarrow> ('c, 'b) bkm \<Rightarrow> ('c, 'b) bkm" where
  "bthen f g \<equiv> bbnd f (\<lambda>_. g)"

text \<open>The switch itself: the next episode happens, or the process is off the CPU for good.\<close>

definition swtch :: "('c, unit) bkm" where
  "swtch es = (case es of
     [] \<Rightarrow> ret None
   | e # es' \<Rightarrow> (\<lambda>m c. case e m c of (m', c') \<Rightarrow> Inr (Some ((), es'), m', c')))"

text \<open>
  A loop each turn of which returns a result or has slept.  A turn that slept has used up an
  episode, so as many turns as there are episodes, and one more, are enough.
\<close>

primrec bloop :: "nat \<Rightarrow> ('l \<Rightarrow> ('c, 'r + 'l) bkm) \<Rightarrow> 'l \<Rightarrow> ('c, 'r) bkm" where
  "bloop 0 body l = lift (fail (Stuck ''loop''))"
| "bloop (Suc n) body l =
     bbnd (body l) (\<lambda>r. case r of Inl x \<Rightarrow> bret x | Inr l' \<Rightarrow> bloop n body l')"

definition bwhile :: "('l \<Rightarrow> ('c, 'r + 'l) bkm) \<Rightarrow> 'l \<Rightarrow> ('c, 'r) bkm" where
  "bwhile body l es = bloop (Suc (length es)) body l es"

section \<open>proc.c\<close>

definition pinit :: "('a procs_scheme, unit) km" where
  "pinit =
     andthen (initlock PtableLock)
       (for_each (\<lambda>i. initlock (ProcbufferLock i)) [0..<NPROC])"

definition cpuid :: "('c, nat) km" where
  "cpuid = mycpu"

text \<open>The stack of a new process: the trap frame on top, below it the return address \<open>trapret\<close> and the
  context, cleared but for \<open>eip\<close>.\<close>

definition SIZEOF_TRAPFRAME :: uint where "SIZEOF_TRAPFRAME = 76"

definition new_context :: "uint \<Rightarrow> kcontext" where
  "new_context forkret = \<lparr>ctx_edi = 0, ctx_esi = 0, ctx_ebx = 0, ctx_ebp = 0, ctx_eip = forkret\<rparr>"

definition new_proc :: "uint \<Rightarrow> proc \<Rightarrow> proc" where
  "new_proc forkret p =
     p\<lparr>p_context := new_context forkret,
       pendingSignals := (\<lambda>i. if i < NSIG then 0 else pendingSignals p i),
       signalHandlers := (\<lambda>i. if i < NSIG then SIGIGN else signalHandlers p i)(unat SIGMSGSENT := SIGMSGSENT),
       msg_from_multicast := (\<lambda>i. if i < MessageSize then 0 else msg_from_multicast p i),
       container_id := 0\<rparr>"

definition allocproc :: "('a procs_scheme, nat option) km" where
  "allocproc =
     andthen (acquire PtableLock) (
     bnd (look (\<lambda>k. find (\<lambda>i. p_state (ptab k i) = UNUSED) [0..<NPROC])) (\<lambda>r.
     case r of
       None \<Rightarrow> andthen (release PtableLock) (ret None)
     | Some i \<Rightarrow>
         andthen (upd (\<lambda>k. upd_proc i (\<lambda>p. p\<lparr>p_state := EMBRYO, p_pid := nextpid k\<rparr>) k)) (
         andthen (upd (\<lambda>k. k\<lparr>nextpid := nextpid k + 1\<rparr>)) (
         andthen (release PtableLock) (
         bnd kalloc (\<lambda>s.
         andthen (upd (upd_proc i (\<lambda>p. p\<lparr>p_kstack := s\<rparr>))) (
         if s = 0 then andthen (upd (upd_proc i (\<lambda>p. p\<lparr>p_state := UNUSED\<rparr>))) (ret None)
         else
           andthen (upd (\<lambda>k. k\<lparr>ram := wr32 (ram k) (s + KSTACKSIZE - SIZEOF_TRAPFRAME - 4) (trapret_addr k)\<rparr>)) (
           andthen (upd (\<lambda>k. upd_proc i (new_proc (forkret_addr k)) k)) (
           ret (Some i))))))))))"

definition switchuvm :: "nat option \<Rightarrow> ('a procs_scheme, unit) km" where
  "switchuvm p = (case p of
     None \<Rightarrow> fail (Panic ''switchuvm: no process'')
   | Some i \<Rightarrow>
       bnd (look (\<lambda>k. ptab k i)) (\<lambda>q.
       if p_kstack q = 0 then fail (Panic ''switchuvm: no kstack'')
       else if p_pgdir q = 0 then fail (Panic ''switchuvm: no pgdir'')
       else
         andthen pushcli (
         andthen (upd (\<lambda>k. k\<lparr>cr3 := V2P (p_pgdir q)\<rparr>))
           popcli)))"

definition growproc :: "int \<Rightarrow> ('a procs_scheme, int) km" where
  "growproc n =
     bnd curproc_id (\<lambda>cp.
     bnd (look (\<lambda>k. ptab k cp)) (\<lambda>p.
     bnd (if n > 0 then
            bnd (allocuvm (p_pgdir p) (p_sz p) (p_sz p + of_int n)) (\<lambda>s. ret (if s = 0 then None else Some s))
          else if n < 0 then
            bnd (deallocuvm (p_pgdir p) (p_sz p) (p_sz p + of_int n)) (\<lambda>s. ret (if s = 0 then None else Some s))
          else ret (Some (p_sz p))) (\<lambda>r.
     case r of
       None \<Rightarrow> ret (-1)
     | Some s \<Rightarrow>
         andthen (upd (upd_proc cp (\<lambda>p. p\<lparr>p_sz := s\<rparr>))) (
         andthen (switchuvm (Some cp)) (
         ret 0)))))"

text \<open>\<open>sched\<close> up to the switch, and after it.\<close>

definition sched_enter :: "('a procs_scheme, bool) km" where
  "sched_enter =
     bnd myproc (\<lambda>p.
     bnd (holding PtableLock) (\<lambda>h.
     if \<not> h then fail (Panic ''sched ptable.lock'')
     else bnd mycpu (\<lambda>i.
       bnd (lookm (\<lambda>m. cpus m ! i)) (\<lambda>c.
       if ncli c \<noteq> 1 then fail (Panic ''sched locks'')
       else case p of
         None \<Rightarrow> fail (Fault ''sched'')
       | Some q \<Rightarrow>
           bnd (look (\<lambda>k. p_state (ptab k q))) (\<lambda>st.
           if st = RUNNING then fail (Panic ''sched running'')
           else bnd (lookm intr) (\<lambda>fl.
             if fl then fail (Panic ''sched interruptible'')
             else ret (intena c)))))))"

definition sched_exit :: "bool \<Rightarrow> ('a procs_scheme, unit) km" where
  "sched_exit b = bnd mycpu (\<lambda>i. updm (upd_cpu i (\<lambda>c. c\<lparr>intena := b\<rparr>)))"

definition sched :: "('a procs_scheme, unit) bkm" where
  "sched = bbnd (lift sched_enter) (\<lambda>b. bthen swtch (lift (sched_exit b)))"

definition yield :: "('a procs_scheme, unit) bkm" where
  "yield =
     bthen (lift (acquire PtableLock)) (
     bthen (lift (upd_my (\<lambda>p. p\<lparr>p_state := RUNNABLE\<rparr>))) (
     bthen sched (
     lift (release PtableLock))))"

text \<open>\<open>sleep\<close>: the part before \<open>sched\<close>, and the whole.  A lock has no null value here, so the panic
  "sleep without lk" has no counterpart.\<close>

definition sleep_enter :: "chan \<Rightarrow> lock_id \<Rightarrow> nat \<Rightarrow> ('a procs_scheme, unit) km" where
  "sleep_enter ch lk p =
     andthen (if lk \<noteq> PtableLock then andthen (acquire PtableLock) (release lk) else ret ())
       (upd (upd_proc p (\<lambda>q. q\<lparr>p_chan := ch, p_state := SLEEPING\<rparr>)))"

definition sleep_exit :: "lock_id \<Rightarrow> nat \<Rightarrow> ('a procs_scheme, unit) km" where
  "sleep_exit lk p =
     andthen (upd (upd_proc p (\<lambda>q. q\<lparr>p_chan := ChanInt 0\<rparr>)))
       (if lk \<noteq> PtableLock then andthen (release PtableLock) (acquire lk) else ret ())"

definition sleep :: "chan \<Rightarrow> lock_id \<Rightarrow> ('a procs_scheme, unit) bkm" where
  "sleep ch lk =
     bbnd (lift myproc) (\<lambda>r. case r of
       None \<Rightarrow> lift (fail (Panic ''sleep''))
     | Some p \<Rightarrow>
         bthen (lift (sleep_enter ch lk p)) (
         bthen sched (
         lift (sleep_exit lk p))))"

definition wakeup1 :: "chan \<Rightarrow> 'a procs_scheme \<Rightarrow> 'a procs_scheme" where
  "wakeup1 ch k =
     k\<lparr>ptab := (\<lambda>i. let p = ptab k i in
        if i < NPROC \<and> p_state p = SLEEPING \<and> p_chan p = ch then p\<lparr>p_state := RUNNABLE\<rparr> else p)\<rparr>"

definition wakeup :: "chan \<Rightarrow> ('a procs_scheme, unit) km" where
  "wakeup ch =
     andthen (acquire PtableLock) (
     andthen (upd (wakeup1 ch))
       (release PtableLock))"

definition find_pid :: "int \<Rightarrow> 'a procs_scheme \<Rightarrow> nat option" where
  "find_pid q k = find (\<lambda>i. p_pid (ptab k i) = q) [0..<NPROC]"

definition kill :: "int \<Rightarrow> ('a procs_scheme, int) km" where
  "kill q =
     andthen (acquire PtableLock) (
     bnd (look (find_pid q)) (\<lambda>r. case r of
       Some i \<Rightarrow>
         andthen (upd (upd_proc i (\<lambda>p.
           p\<lparr>p_killed := True, p_state := if p_state p = SLEEPING then RUNNABLE else p_state p\<rparr>))) (
         andthen (release PtableLock) (ret 0))
     | None \<Rightarrow> andthen (release PtableLock) (ret (-1))))"

definition sleep_receiver :: "('a procs_scheme, int) bkm" where
  "sleep_receiver =
     bthen (lift (acquire PtableLock)) (
     bbnd (lift (my p_pid)) (\<lambda>q.
     bthen (sleep (ChanInt q) PtableLock) (
     bthen (lift (release PtableLock)) (
     bret 0))))"

definition signal :: "int \<Rightarrow> uint \<Rightarrow> ('a procs_scheme, int) km" where
  "signal n handler =
     (if 0 \<le> n \<and> n < int NSIG
      then andthen (upd_my (\<lambda>p. p\<lparr>signalHandlers := (signalHandlers p)(nat n := handler)\<rparr>)) (ret 0)
      else ret (-1))"

text \<open>\<open>sigraise\<close> does not check the signal number.\<close>

definition sigraise :: "int \<Rightarrow> int \<Rightarrow> ('a procs_scheme, int) km" where
  "sigraise q n =
     andthen (acquire PtableLock) (
     bnd (look (find_pid q)) (\<lambda>r. case r of
       None \<Rightarrow> andthen (release PtableLock) (ret (-1))
     | Some i \<Rightarrow>
         if \<not> in_bounds n NSIG then fail (Fault ''pendingSignals'')
         else
           andthen (upd (upd_proc i (\<lambda>p. p\<lparr>pendingSignals := (pendingSignals p)(nat n := 1)\<rparr>))) (
           andthen (release PtableLock) (ret 0))))"

text \<open>
  The process buffers.  When no process has the number, the loop leaves \<open>p\<close> one past the table and
  the code writes there.
\<close>

definition sent_to_proc_buffer :: "int \<Rightarrow> int \<Rightarrow> (nat \<Rightarrow> int) \<Rightarrow> ('a procs_scheme, int) km" where
  "sent_to_proc_buffer s_pid r_pid msg =
     (if \<not> in_bounds r_pid NPROC then fail (Fault ''procbuffer_lock'')
      else
        andthen (acquire (ProcbufferLock (nat r_pid))) (
        andthen (acquire PtableLock) (
        bnd (look (find_pid r_pid)) (\<lambda>r. case r of
          None \<Rightarrow> fail (Fault ''ptable.proc'')
        | Some i \<Rightarrow>
            andthen (upd (upd_proc i (\<lambda>p. p\<lparr>msg_from_multicast :=
              (\<lambda>j. if 1 \<le> j \<and> j < MessageSize then msg (j - 1) else msg_from_multicast p j)\<rparr>))) (
            andthen (release PtableLock) (
            andthen (release (ProcbufferLock (nat r_pid))) (
            ret 0)))))))"

definition receive_from_procbuffer :: "int \<Rightarrow> ('a procs_scheme, int \<times> int list) km" where
  "receive_from_procbuffer myid =
     (if \<not> in_bounds myid NPROC then fail (Fault ''procbuffer_lock'')
      else
        andthen (acquire (ProcbufferLock (nat myid))) (
        andthen (acquire PtableLock) (
        bnd (look (find_pid myid)) (\<lambda>r. case r of
          None \<Rightarrow> fail (Fault ''ptable.proc'')
        | Some i \<Rightarrow>
            bnd (look (\<lambda>k. map (msg_from_multicast (ptab k i)) [1..<MessageSize])) (\<lambda>words.
            andthen (release PtableLock) (
            andthen (release (ProcbufferLock (nat myid))) (
            ret (0, words))))))))"

text \<open>\<open>kill\<close> acquires the lock that this function holds.\<close>

definition destroy_container_processes :: "int \<Rightarrow> int \<Rightarrow> int \<Rightarrow> ('a procs_scheme, int) km" where
  "destroy_container_processes q a pcid =
     andthen (acquire PtableLock) (
     andthen (for_each (\<lambda>i.
         bnd (look (\<lambda>k. ptab k i)) (\<lambda>p.
         if container_id p = a \<and> p_pid p \<noteq> q then bnd (kill (p_pid p)) (\<lambda>_. ret ()) else ret ()))
       [0..<NPROC]) (
     andthen (release PtableLock) (
     andthen (if pcid = a then bnd (kill q) (\<lambda>_. ret ()) else ret ()) (
     ret 0))))"

definition set_scheduler_logger :: "int \<Rightarrow> ('a procs_scheme, unit) km" where
  "set_scheduler_logger a = upd (\<lambda>k. k\<lparr>scheduler_logger := a\<rparr>)"

text \<open>The listing of \<open>ps\<close>.\<close>

definition print_ps :: "int \<Rightarrow> ('a procs_scheme, unit) km" where
  "print_ps cid =
     andthen (acquire PtableLock) (
     andthen (for_each (\<lambda>i.
         bnd (look (\<lambda>k. ptab k i)) (\<lambda>p.
         if p_state p \<noteq> UNUSED \<and> container_id p = cid then
           cprintf (''pid:%d name:%s'' @ [newline]) [CInt (of_int (p_pid p)), CStr (Some (p_name p))]
         else if p_state p \<noteq> UNUSED \<and> cid = 0 then
           cprintf (''pid:%d name:%s'' @ [newline]) [CInt (of_int (p_pid p)), CStr (Some (p_name p))]
         else ret ()))
       [0..<NPROC])
     (release PtableLock))"

text \<open>\<open>getcallerpcs\<close> (\<^verbatim>\<open>spinlock.c\<close>): at most ten return addresses along the chain of frame pointers.\<close>

primrec pcs_loop :: "nat \<Rightarrow> memory \<Rightarrow> uint \<Rightarrow> uint list" where
  "pcs_loop 0 m ebp = []"
| "pcs_loop (Suc n) m ebp =
     (if ebp = 0 \<or> ebp < KERNBASE \<or> ebp = 0xffffffff then replicate (Suc n) 0
      else rd32 m (ebp + 4) # pcs_loop n m (rd32 m ebp))"

definition getcallerpcs :: "memory \<Rightarrow> uint \<Rightarrow> uint list" where
  "getcallerpcs m v = pcs_loop 10 m (v - 8)"

definition state_name :: "procstate \<Rightarrow> string" where
  "state_name st = (case st of UNUSED \<Rightarrow> ''unused'' | EMBRYO \<Rightarrow> ''embryo'' | SLEEPING \<Rightarrow> ''sleep ''
     | RUNNABLE \<Rightarrow> ''runble'' | RUNNING \<Rightarrow> ''run   '' | ZOMBIE \<Rightarrow> ''zombie'')"

definition procdump :: "('a procs_scheme, unit) km" where
  "procdump =
     for_each (\<lambda>i.
       bnd (look (\<lambda>k. ptab k i)) (\<lambda>p.
       if p_state p = UNUSED then ret ()
       else
         andthen (cprintf ''%d %s %s'' [CInt (of_int (p_pid p)), CStr (Some (state_name (p_state p))), CStr (Some (p_name p))]) (
         andthen (if p_state p = SLEEPING
                  then bnd (look (\<lambda>k. getcallerpcs (ram k) (ctx_ebp (p_context p) + 8))) (\<lambda>pc.
                    for_each (\<lambda>a. cprintf '' %p'' [CInt a]) (takeWhile (\<lambda>a. a \<noteq> 0) pc))
                  else ret ())
           (cprintf [newline] []))))
       [0..<NPROC]"

section \<open>Basic facts\<close>

lemmas bk_unfold [km_simps] = bret_def lift_def bbnd_def swtch_def

lemma upd_proc_sel [simp]:
  "ptab (upd_proc i f k) = (ptab k)(i := f (ptab k i))" "ram (upd_proc i f k) = ram k"
  "nextpid (upd_proc i f k) = nextpid k" "initproc (upd_proc i f k) = initproc k"
  "freelist (upd_proc i f k) = freelist k" "use_lock (upd_proc i f k) = use_lock k" "kend (upd_proc i f k) = kend k"
  "msgs (upd_proc i f k) = msgs k" "ctab (upd_proc i f k) = ctab k" "current_container (upd_proc i f k) = current_container k"
  "forkret_addr (upd_proc i f k) = forkret_addr k" "trapret_addr (upd_proc i f k) = trapret_addr k"
  "scheduler_logger (upd_proc i f k) = scheduler_logger k"
  by (simp_all add: upd_proc_def)

lemma find_pid_Some:
  assumes "find_pid q k = Some i"
  shows "i < NPROC" "p_pid (ptab k i) = q" "\<And>j. j < i \<Longrightarrow> p_pid (ptab k j) \<noteq> q"
  using assms by (auto simp: find_pid_def find_upt_Some_iff)

lemma find_pid_None: "find_pid q k = None \<longleftrightarrow> (\<forall>i < NPROC. p_pid (ptab k i) \<noteq> q)"
  by (auto simp: find_pid_def find_upt_None_iff)

lemma kill_step:
  assumes "mach_ok m" "lock_free PtableLock m"
  shows "kill q m k = (case find_pid q k of
    Some i \<Rightarrow> Inr (0, m, upd_proc i (\<lambda>p.
           p\<lparr>p_killed := True, p_state := if p_state p = SLEEPING then RUNNABLE else p_state p\<rparr>) k)
  | None \<Rightarrow> Inr (-1, m, k))"
  using assms by (simp add: kill_def km_simps split: option.split)

lemma wakeup_step:
  assumes "mach_ok m" "lock_free PtableLock m"
  shows "wakeup ch m k = Inr ((), m, wakeup1 ch k)"
  using assms by (simp add: wakeup_def km_simps)

lemma ptab_wakeup1:
  "ptab (wakeup1 ch k) i = (if i < NPROC \<and> p_state (ptab k i) = SLEEPING \<and> p_chan (ptab k i) = ch
     then (ptab k i)\<lparr>p_state := RUNNABLE\<rparr> else ptab k i)"
  by (simp add: wakeup1_def Let_def)

lemma curproc_id_ok:
  "mach_ok m \<Longrightarrow> curproc (cpu_of m) = Some p \<Longrightarrow> curproc_id m k = Inr (p, m, k)"
  by (simp add: curproc_id_def km_simps)

lemma my_ok: "mach_ok m \<Longrightarrow> curproc (cpu_of m) = Some p \<Longrightarrow> my f m k = Inr (f (ptab k p), m, k)"
  by (simp add: my_def km_simps curproc_id_ok)

lemma upd_my_ok:
  "mach_ok m \<Longrightarrow> curproc (cpu_of m) = Some p \<Longrightarrow> upd_my f m k = Inr ((), m, upd_proc p f k)"
  by (simp add: upd_my_def km_simps curproc_id_ok)

section \<open>Sleeping\<close>

text \<open>The machine of a process outside of every critical section.\<close>

definition runs :: "nat \<Rightarrow> mach \<Rightarrow> bool" where
  "runs p m \<longleftrightarrow> quiet m \<and> ncli (cpu_of m) = 0 \<and> curproc (cpu_of m) = Some p"

lemma runsD: "runs p m \<Longrightarrow> quiet m" "runs p m \<Longrightarrow> curproc (cpu_of m) = Some p" "runs p m \<Longrightarrow> ncli (cpu_of m) = 0"
  by (simp_all add: runs_def)

lemma runs_idle [simp]: "runs p (idle_mach (Some p))"
  by (simp add: runs_def) (simp add: idle_mach_def)

lemma cpu_of_hold:
  assumes "mach_ok m"
  shows "cpu_of (hold l m) = (cpu_of m)\<lparr>ncli := ncli (cpu_of m) + 1\<rparr>"
  using assms by (auto simp: hold_def mach_ok_def cpu_of_deep)

lemma intr_hold [simp]: "\<not> intr (hold l m)"
  by (simp add: hold_def)

lemma sched_enter_ok:
  assumes "runs p m" "p_state (ptab k p) \<noteq> RUNNING"
  shows "sched_enter (hold PtableLock m) k = Inr (intena (cpu_of m), hold PtableLock m, k)"
proof -
  have ok: "mach_ok m" "lock_free PtableLock m" using runsD(1) [OF assms(1)] by simp_all
  obtain i where i: "this_cpu m = Some i" using ok(1) by (rule mach_ok_cpu)
  have c: "cpus (hold PtableLock m) ! i = (cpus m ! i)\<lparr>ncli := 1\<rparr>"
    using cpu_of_hold [OF ok(1), of PtableLock] i runsD(3) [OF assms(1)] by simp
  show ?thesis
    using assms(2) ok i c runsD(2) [OF assms(1)]
    by (simp add: sched_enter_def km_simps holding_ok mycpu_Inr)
qed

lemma sched_exit_same:
  assumes "mach_ok m"
  shows "sched_exit (intena (cpu_of m)) (hold PtableLock m) k = Inr ((), hold PtableLock m, k)"
proof -
  obtain i where i: "this_cpu m = Some i" "i < length (cpus m)" using assms by (rule mach_ok_cpu)
  have c: "cpus (hold PtableLock m) ! i = (cpus m ! i)\<lparr>ncli := ncli (cpus m ! i) + 1\<rparr>"
    using cpu_of_hold [OF assms, of PtableLock] i by simp
  have "upd_cpu i (\<lambda>c. c\<lparr>intena := intena (cpus m ! i)\<rparr>) (hold PtableLock m) = hold PtableLock m"
    unfolding upd_cpu_def c using c
    by (simp add: list_update_same_conv) (metis (no_types, lifting) list_update_id mach.surjective mach.update_convs(1) c)
  then show ?thesis
    using i by (simp add: sched_exit_def km_simps mycpu_Inr)
qed

lemma sleep_enter_ok:
  assumes "runs p m"
  shows "sleep_enter ch lk p (hold lk m) k =
    Inr ((), hold PtableLock m, upd_proc p (\<lambda>q. q\<lparr>p_chan := ch, p_state := SLEEPING\<rparr>) k)"
proof -
  have ok: "quiet m" using runsD(1) [OF assms] .
  show ?thesis
  proof (cases "lk = PtableLock")
    case True
    then show ?thesis by (simp add: sleep_enter_def km_simps)
  next
    case False
    then show ?thesis
      using ok by (simp add: sleep_enter_def km_simps release_under)
  qed
qed

lemma sleep_exit_ok:
  assumes "quiet m"
  shows "sleep_exit lk p (hold PtableLock m) k = Inr ((), hold lk m, upd_proc p (\<lambda>q. q\<lparr>p_chan := ChanInt 0\<rparr>) k)"
  using assms by (cases "lk = PtableLock") (simp_all add: sleep_exit_def km_simps)

lemma curproc_hold: "mach_ok m \<Longrightarrow> curproc (cpus (hold l m) ! the (this_cpu m)) = curproc (cpu_of m)"
  using cpu_of_hold [of m l] by simp

lemma sleep_blocks:
  assumes "runs p m"
  shows "sleep ch lk [] (hold lk m) k =
    Inr (None, hold PtableLock m, upd_proc p (\<lambda>q. q\<lparr>p_chan := ch, p_state := SLEEPING\<rparr>) k)"
  using assms runsD [OF assms]
  by (simp add: sleep_def sched_def km_simps curproc_hold sleep_enter_ok sched_enter_ok [OF assms])

text \<open>An episode that ends with the process back on this CPU, the table locked.\<close>

lemma sleep_returns:
  assumes "runs p m" and e: "e (hold PtableLock m)
      (upd_proc p (\<lambda>q. q\<lparr>p_chan := ch, p_state := SLEEPING\<rparr>) k) = (hold PtableLock m, k')"
  shows "sleep ch lk (e # es) (hold lk m) k =
    Inr (Some ((), es), hold lk m, upd_proc p (\<lambda>q. q\<lparr>p_chan := ChanInt 0\<rparr>) k')"
  using runsD [OF assms(1)]
  by (simp add: sleep_def sched_def km_simps curproc_hold sleep_enter_ok [OF assms(1)]
      sched_enter_ok [OF assms(1)] e sched_exit_same sleep_exit_ok)

section \<open>Process numbers\<close>

text \<open>
  Every slot's number is below \<open>nextpid\<close>, a process in use has a positive number, and a number
  that is not 0 belongs to one slot only.
\<close>

definition pids_ok :: "'a procs_scheme \<Rightarrow> bool" where
  "pids_ok k \<longleftrightarrow> 0 < nextpid k \<and>
     (\<forall>i < NPROC. p_pid (ptab k i) < nextpid k \<and> 0 \<le> p_pid (ptab k i) \<and>
        (p_state (ptab k i) \<noteq> UNUSED \<longrightarrow> 0 < p_pid (ptab k i))) \<and>
     (\<forall>i < NPROC. \<forall>j < NPROC. i \<noteq> j \<longrightarrow> p_pid (ptab k i) \<noteq> 0 \<longrightarrow> p_pid (ptab k i) \<noteq> p_pid (ptab k j))"

lemma pids_ok_cong:
  assumes "pids_ok k" "nextpid k' = nextpid k" "\<And>i. p_pid (ptab k' i) = p_pid (ptab k i)"
    "\<And>i. p_state (ptab k' i) \<noteq> UNUSED \<Longrightarrow> p_state (ptab k i) \<noteq> UNUSED"
  shows "pids_ok k'"
  using assms(1) unfolding pids_ok_def assms(2,3) using assms(4) by blast

lemma pids_ok_upd_proc:
  assumes "pids_ok k" "p_pid (f (ptab k i)) = p_pid (ptab k i)"
    "p_state (f (ptab k i)) \<noteq> UNUSED \<longrightarrow> p_state (ptab k i) \<noteq> UNUSED"
  shows "pids_ok (upd_proc i f k)"
  by (rule pids_ok_cong [OF assms(1)]) (use assms(2,3) in \<open>auto split: if_splits\<close>)

lemma pids_ok_ptab: "pids_ok k \<Longrightarrow> ptab k' = ptab k \<Longrightarrow> nextpid k' = nextpid k \<Longrightarrow> pids_ok k'"
  by (simp add: pids_ok_def)

lemma pids_ok_wakeup1: "pids_ok k \<Longrightarrow> pids_ok (wakeup1 ch k)"
  by (erule pids_ok_cong) (auto simp: ptab_wakeup1, simp add: wakeup1_def)

lemma pids_ok_kill:
  assumes "pids_ok k" "mach_ok m" "lock_free PtableLock m" "kill q m k = Inr (r, m', k')"
  shows "pids_ok k'"
  using assms by (auto simp: kill_step intro!: pids_ok_upd_proc split: option.splits)

text \<open>The state \<open>allocproc\<close> leaves when it has found slot \<open>i\<close> and a page for the stack.\<close>

definition embryo :: "nat \<Rightarrow> 'a procs_scheme \<Rightarrow> 'a procs_scheme" where
  "embryo i k = (upd_proc i (\<lambda>p. p\<lparr>p_state := EMBRYO, p_pid := nextpid k\<rparr>) k)\<lparr>nextpid := nextpid k + 1\<rparr>"

lemma pids_ok_embryo:
  assumes "pids_ok k" "i < NPROC"
  shows "pids_ok (embryo i k)"
proof -
  have lt: "p_pid (ptab k j) < nextpid k" if "j < NPROC" for j
    using assms(1) that by (simp add: pids_ok_def)
  have pos: "0 < nextpid k" using assms(1) by (simp add: pids_ok_def)
  have old: "0 \<le> p_pid (ptab k j) \<and> (p_state (ptab k j) \<noteq> UNUSED \<longrightarrow> 0 < p_pid (ptab k j))" if "j < NPROC" for j
    using assms(1) that by (simp add: pids_ok_def)
  have uniq: "p_pid (ptab k j) \<noteq> p_pid (ptab k j')" if "j < NPROC" "j' < NPROC" "j \<noteq> j'" "p_pid (ptab k j) \<noteq> 0" for j j'
    using assms(1) that by (simp add: pids_ok_def)
  show ?thesis
    unfolding pids_ok_def embryo_def
    using lt pos old uniq by (auto simp: less_imp_neq less_imp_neq [symmetric] intro: less_trans less_imp_le)
qed

lemma embryo_kmem [simp]:
  "freelist (embryo i k) = freelist k" "ram (embryo i k) = ram k" "use_lock (embryo i k) = use_lock k"
  "kend (embryo i k) = kend k" "nextpid (embryo i k) = nextpid k + 1"
  "trapret_addr (embryo i k) = trapret_addr k" "forkret_addr (embryo i k) = forkret_addr k"
  by (simp_all add: embryo_def)

lemma allocproc_full:
  assumes "quiet m" "\<forall>i < NPROC. p_state (ptab k i) \<noteq> UNUSED"
  shows "allocproc m k = Inr (None, m, k)"
proof -
  have "find (\<lambda>i. p_state (ptab k i) = UNUSED) [0..<NPROC] = None"
    using assms(2) by (simp add: find_upt_None_iff)
  then show ?thesis using assms(1) by (simp add: allocproc_def km_simps)
qed

definition fresh_proc :: "nat \<Rightarrow> 'a procs_scheme \<Rightarrow> 'a procs_scheme" where
  "fresh_proc i k =
     (let s = freelist k;
          k1 = (embryo i k)\<lparr>freelist := rd32 (ram k) s\<rparr>;
          k2 = upd_proc i (\<lambda>p. p\<lparr>p_kstack := s\<rparr>) k1;
          k3 = k2\<lparr>ram := wr32 (ram k) (s + KSTACKSIZE - SIZEOF_TRAPFRAME - 4) (trapret_addr k)\<rparr>
      in upd_proc i (new_proc (forkret_addr k)) k3)"

lemma allocproc_ok:
  assumes "quiet m" "find (\<lambda>i. p_state (ptab k i) = UNUSED) [0..<NPROC] = Some i" "freelist k \<noteq> 0"
  shows "allocproc m k = Inr (Some i, m, fresh_proc i k)"
  using assms
  by (simp add: allocproc_def km_simps kalloc_some fresh_proc_def Let_def embryo_def)

lemma allocproc_no_stack:
  assumes "quiet m" "find (\<lambda>i. p_state (ptab k i) = UNUSED) [0..<NPROC] = Some i" "freelist k = 0"
  shows "allocproc m k = Inr (None, m,
    upd_proc i (\<lambda>p. p\<lparr>p_state := UNUSED\<rparr>) (upd_proc i (\<lambda>p. p\<lparr>p_kstack := 0\<rparr>) (embryo i k)))"
  using assms
  by (simp add: allocproc_def km_simps kalloc_none embryo_def)

lemma fresh_proc_slot:
  "ptab (fresh_proc i k) i = new_proc (forkret_addr k)
     ((ptab k i)\<lparr>p_state := EMBRYO, p_pid := nextpid k, p_kstack := freelist k\<rparr>)"
  "j \<noteq> i \<Longrightarrow> ptab (fresh_proc i k) j = ptab k j" "nextpid (fresh_proc i k) = nextpid k + 1"
  by (simp_all add: fresh_proc_def Let_def embryo_def)

lemma pids_ok_fresh_proc:
  assumes "pids_ok k" "i < NPROC"
  shows "pids_ok (fresh_proc i k)"
proof -
  have "p_pid (ptab (fresh_proc i k) j) = p_pid (ptab (embryo i k) j) \<and>
      p_state (ptab (fresh_proc i k) j) = p_state (ptab (embryo i k) j)" for j
    by (cases "j = i") (simp_all add: fresh_proc_slot new_proc_def embryo_def)
  then show ?thesis
    by (intro pids_ok_cong [OF pids_ok_embryo [OF assms]]) (simp_all add: fresh_proc_slot)
qed

text \<open>A table in which nothing is in use, on top of an empty container table and two free pages.\<close>

definition idle_tf :: trapframe where
  "idle_tf = \<lparr>tf_edi = 0, tf_esi = 0, tf_ebp = 0, tf_ebx = 0, tf_edx = 0, tf_ecx = 0, tf_eax = 0, tf_es = 0, tf_ds = 0,
     tf_trapno = 0, tf_err = 0, tf_eip = 0, tf_cs = 0, tf_eflags = 0, tf_esp = 0, tf_ss = 0\<rparr>"

definition unused_proc :: proc where
  "unused_proc = \<lparr>p_sz = 0, p_pgdir = 0, p_kstack = 0, p_state = UNUSED, p_pid = 0, p_parent = None, p_tf = idle_tf,
     p_context = new_context 0, p_chan = ChanInt 0, p_killed = False, p_ofile = (\<lambda>_. None), p_cwd = None, p_name = '''',
     signalHandlers = (\<lambda>_. 0), pendingSignals = (\<lambda>_. 0), msg_from_multicast = (\<lambda>_. 0), container_id = 0\<rparr>"

definition boot_procs :: procs where
  "boot_procs = \<lparr>ram = ram two_pages, use_lock = True, freelist = 0x80400000, kend = 0x80400000, kpgdir = 0, cr3 = 0,
     kdata = 0x80108000, ctab = ctab no_containers, current_container = 0,
     ptab = (\<lambda>_. unused_proc), initproc = None, nextpid = 1, scheduler_logger = 0, msgs = initialised msg_zero,
     forkret_addr = 0x80103a00, trapret_addr = 0x80105b00\<rparr>"

lemma boot_procs_facts [simp]:
  "ptab boot_procs = (\<lambda>_. unused_proc)" "freelist boot_procs = 0x80400000" "nextpid boot_procs = 1"
  "pids_ok boot_procs"
  by (simp_all add: boot_procs_def pids_ok_def unused_proc_def)

lemma find_first [simp]: "0 < n \<Longrightarrow> P 0 \<Longrightarrow> find P [0..<n] = Some 0"
  by (simp add: find_upt_Some_iff)

section \<open>Properties\<close>





text \<open>C27: \<open>kill\<close> of a process number marks exactly that process as killed and wakes it if it sleeps; with
  no such process it returns -1 and changes nothing.\<close>

theorem kill_effect:
  assumes "quiet m" "pids_ok k" "q \<noteq> 0"
  shows "(\<forall>i < NPROC. p_pid (ptab k i) = q \<longrightarrow> (\<exists>k'. kill q m k = Inr (0, m, k') \<and> pids_ok k' \<and>
      p_killed (ptab k' i) \<and> p_state (ptab k' i) = (if p_state (ptab k i) = SLEEPING then RUNNABLE else p_state (ptab k i)) \<and>
      (\<forall>j. j \<noteq> i \<longrightarrow> ptab k' j = ptab k j))) \<and>
    ((\<forall>i < NPROC. p_pid (ptab k i) \<noteq> q) \<longrightarrow> kill q m k = Inr (-1, m, k))"
proof (intro conjI allI impI)
  fix i
  assume i: "i < NPROC" "p_pid (ptab k i) = q"
  then obtain j where j: "find_pid q k = Some j"
    using find_pid_None [of q k] by (cases "find_pid q k") auto
  have "j = i"
    using find_pid_Some [OF j] i assms(2,3) unfolding pids_ok_def by metis
  moreover have "pids_ok (upd_proc i (\<lambda>p. p\<lparr>p_killed := True,
      p_state := if p_state p = SLEEPING then RUNNABLE else p_state p\<rparr>) k)"
    by (rule pids_ok_upd_proc [OF assms(2)]) auto
  ultimately show "\<exists>k'. kill q m k = Inr (0, m, k') \<and> pids_ok k' \<and> p_killed (ptab k' i) \<and>
      p_state (ptab k' i) = (if p_state (ptab k i) = SLEEPING then RUNNABLE else p_state (ptab k i)) \<and>
      (\<forall>j. j \<noteq> i \<longrightarrow> ptab k' j = ptab k j)"
    using assms(1) j by (simp add: kill_step)
next
  assume "\<forall>i < NPROC. p_pid (ptab k i) \<noteq> q"
  then show "kill q m k = Inr (-1, m, k)"
    using assms(1) find_pid_None [of q k] by (simp add: kill_step)
qed

theorem kill_effect_witness:
  "let k = upd_proc 5 (\<lambda>p. p\<lparr>p_pid := 1, p_state := SLEEPING\<rparr>) (boot_procs\<lparr>nextpid := 2\<rparr>)
   in pids_ok k \<and> (\<exists>k'. kill 1 (idle_mach None) k = Inr (0, idle_mach None, k') \<and> p_killed (ptab k' 5) \<and>
        p_state (ptab k' 5) = RUNNABLE) \<and> kill 7 (idle_mach None) k = Inr (-1, idle_mach None, k)"
proof -
  let ?k = "upd_proc 5 (\<lambda>p. p\<lparr>p_pid := 1, p_state := SLEEPING\<rparr>) (boot_procs\<lparr>nextpid := 2\<rparr>)"
  have ok: "pids_ok ?k" by (auto simp: pids_ok_def unused_proc_def)
  have "5 < NPROC" by (simp add: const_defs)
  then show ?thesis
    using ok kill_effect [OF quiet_idle ok, of 1 None] kill_effect [OF quiet_idle ok, of 7 None]
    by (auto simp: unused_proc_def Let_def)
qed

text \<open>C37: a \<open>kill(0)\<close> by any user process finds the first unused slot, whose number is 0, and marks it
  killed; \<open>allocproc\<close> does not clear the mark, so the next process created there starts killed.\<close>

theorem kill_zero_poisons:
  assumes "quiet m" "find_pid 0 k = Some i" "p_state (ptab k i) = UNUSED"
    "\<forall>j < i. p_state (ptab k j) \<noteq> UNUSED" "freelist k \<noteq> 0"
  shows "\<exists>k1 k2. kill 0 m k = Inr (0, m, k1) \<and> allocproc m k1 = Inr (Some i, m, k2) \<and> p_killed (ptab k2 i)"
proof -
  let ?k = "upd_proc i (\<lambda>p. p\<lparr>p_killed := True, p_state := if p_state p = SLEEPING then RUNNABLE else p_state p\<rparr>) k"
  have "find (\<lambda>j. p_state (ptab ?k j) = UNUSED) [0..<NPROC] = Some i"
    using assms(3,4) find_pid_Some(1) [OF assms(2)] by (simp add: find_upt_Some_iff)
  from allocproc_ok [OF assms(1) this] show ?thesis
    using assms by (simp add: kill_step fresh_proc_slot new_proc_def)
qed

theorem kill_zero_poisons_witness:
  "\<exists>k1 k2. kill 0 (idle_mach None) boot_procs = Inr (0, idle_mach None, k1) \<and>
     allocproc (idle_mach None) k1 = Inr (Some 0, idle_mach None, k2) \<and> p_killed (ptab k2 0)"
  by (rule kill_zero_poisons) (simp_all add: find_pid_def unused_proc_def)

lemma for_each_first_fails:
  assumes "\<And>i. i \<in> set is \<Longrightarrow> \<not> P i \<Longrightarrow> f i m k = Inr ((), m, k)" "\<And>i. i \<in> set is \<Longrightarrow> P i \<Longrightarrow> f i m k = Inl e"
    "\<exists>i \<in> set is. P i"
  shows "for_each f is m k = Inl e"
  using assms
proof (induction "is")
  case (Cons i "is")
  show ?case
  proof (cases "P i")
    case True
    then show ?thesis using Cons.prems by (simp add: bnd_Inl)
  next
    case False
    then have "f i m k = Inr ((), m, k)" using Cons.prems(1) by simp
    then show ?thesis using Cons False by (simp add: bnd_def)
  qed
qed simp

text \<open>C38: \<open>destroy_container_processes\<close> panics with "acquire" as soon as some other process is in the
  container: it calls \<open>kill\<close> while it holds the lock that \<open>kill\<close> acquires.\<close>

theorem destroy_container_panics:
  assumes "quiet m" "i < NPROC" "container_id (ptab k i) = a" "p_pid (ptab k i) \<noteq> q"
  shows "destroy_container_processes q a pcid m k = Inl (Panic ''acquire'')"
proof -
  let ?m = "hold PtableLock m"
  have held: "kill x ?m k = Inl (Panic ''acquire'')" for x
    using assms(1) by (simp add: kill_def km_simps acquire_held)
  have "for_each (\<lambda>i. bnd (look (\<lambda>k. ptab k i)) (\<lambda>p.
         if container_id p = a \<and> p_pid p \<noteq> q then bnd (kill (p_pid p)) (\<lambda>_. ret ()) else ret ()))
       [0..<NPROC] ?m k = Inl (Panic ''acquire'')"
    by (rule for_each_first_fails [where P = "\<lambda>i. container_id (ptab k i) = a \<and> p_pid (ptab k i) \<noteq> q"])
      (use assms held in \<open>auto simp: km_simps\<close>)
  then show ?thesis
    using assms(1) by (simp add: destroy_container_processes_def bnd_def)
qed

theorem destroy_container_panics_witness:
  "destroy_container_processes 1 4 4 (idle_mach None)
     (upd_proc 2 (\<lambda>p. p\<lparr>p_pid := 3, container_id := 4\<rparr>) boot_procs) = Inl (Panic ''acquire'')"
  by (rule destroy_container_panics [where i = 2]) (simp_all add: const_defs)

text \<open>C32: a multicast message stored by \<open>sent_to_proc_buffer\<close> is what \<open>receive_from_procbuffer\<close> of that
  process returns.\<close>

theorem procbuffer_roundtrip:
  assumes "quiet m" "find_pid (int r) k = Some i" "r < NPROC"
  shows "\<exists>k'. sent_to_proc_buffer s (int r) msg m k = Inr (0, m, k') \<and>
    receive_from_procbuffer (int r) m k' = Inr ((0, map msg [0..<MessageSize - 1]), m, k')"
proof -
  let ?k = "upd_proc i (\<lambda>p. p\<lparr>msg_from_multicast :=
      (\<lambda>j. if 1 \<le> j \<and> j < MessageSize then msg (j - 1) else msg_from_multicast p j)\<rparr>) k"
  have send: "sent_to_proc_buffer s (int r) msg m k = Inr (0, m, ?k)"
    using assms by (simp add: sent_to_proc_buffer_def km_simps)
  have "find_pid (int r) ?k = Some i"
  proof -
    have "p_pid (ptab ?k j) = p_pid (ptab k j)" for j by simp
    then show ?thesis using assms(2) unfolding find_pid_def by presburger
  qed
  moreover have "map (msg_from_multicast (ptab ?k i)) [1..<MessageSize] = map msg [0..<MessageSize - 1]"
    by (rule nth_equalityI) auto
  ultimately have "receive_from_procbuffer (int r) m ?k = Inr ((0, map msg [0..<MessageSize - 1]), m, ?k)"
    using assms(1,3) by (simp add: receive_from_procbuffer_def km_simps)
  with send show ?thesis by blast
qed

theorem procbuffer_roundtrip_witness:
  "\<exists>k'. sent_to_proc_buffer 9 (int 0) (\<lambda>i. int i + 1) (idle_mach None) boot_procs = Inr (0, idle_mach None, k') \<and>
     receive_from_procbuffer (int 0) (idle_mach None) k'
       = Inr ((0, map (\<lambda>i. int i + 1) [0..<MessageSize - 1]), idle_mach None, k')"
  by (rule procbuffer_roundtrip [where i = 0]) (simp_all add: find_pid_def unused_proc_def)

end
