(* ===== verification/Scheduler.thy ===== *)
theory Scheduler
  imports Proc
begin

text \<open>
  The scheduler (\<^verbatim>\<open>proc.c\<close>): the choice of a container, the choice of a process in it, the delivery of
  pending signals and the switch to the process.  One turn of the endless loop is
  \<open>scheduler_iter\<close>; the episode it waits for at \<open>swtch\<close> is the run of the chosen process.

  The lemmas show which process may be chosen, that the choice within a container is a fair round
  robin, and what the signal delivery does to the user's stack.
\<close>

section \<open>Signal handlers of the kernel\<close>

definition ignoreHandler :: "('a procs_scheme, unit) km" where
  "ignoreHandler = cprintf (''this is ignore Handler'' @ [newline]) []"

definition killHandler :: "('a procs_scheme, unit) km" where
  "killHandler =
     bnd curproc_id (\<lambda>p.
     andthen (release PtableLock) (
     bnd (look (\<lambda>k. p_pid (ptab k p))) (\<lambda>q.
     bnd (kill q) (\<lambda>_.
     acquire PtableLock))))"

definition dflHandler :: "('a procs_scheme, unit) km" where
  "dflHandler = cprintf (''This is default handler'' @ [newline]) []"

text \<open>
  The receiver's buffer is the one-byte variable \<open>temp_junk\<close>: a message that is there is written
  over the kernel stack.
\<close>

definition receiverHandler :: "('a procs_scheme, unit) km" where
  "receiverHandler =
     bnd (my p_pid) (\<lambda>q.
     bnd (with_msgs (receive_msg q)) (\<lambda>r. case r of (recvCode, words) \<Rightarrow>
     if words \<noteq> [] then fail (Fault ''temp_junk'')
     else
       andthen (cprintf (''%d'' @ [newline]) [CInt (of_int recvCode)]) (
       andthen (if recvCode < 0 then cprintf (''Error is receiving message'' @ [newline]) [] else ret ())
         (cprintf (''this is the default handler for receiving messages'' @ [newline]) []))))"

section \<open>Delivery\<close>

text \<open>
  The \<open>default\<close> case: the interrupted \<open>eip\<close> is stored at offset \<open>(esp - 4) & 0xFFF\<close> of the page that
  holds \<open>esp\<close>, and the process continues in its handler.
\<close>

definition push_handler :: "nat \<Rightarrow> uint \<Rightarrow> ('a procs_scheme, unit) km" where
  "push_handler i h =
     bnd (look (\<lambda>k. ptab k i)) (\<lambda>p.
     bnd (uva2ka (p_pgdir p) (tf_esp (p_tf p))) (\<lambda>va.
     if va = 0 then fail (Fault ''signal stack'')
     else
       andthen (upd (\<lambda>k. k\<lparr>ram := wr32 (ram k) (va + ((tf_esp (p_tf p) - 4) AND 0xFFF)) (tf_eip (p_tf p))\<rparr>)) (
       upd (upd_proc i (\<lambda>p. p\<lparr>p_tf := (p_tf p)\<lparr>tf_esp := tf_esp (p_tf p) - 4, tf_eip := h\<rparr>\<rparr>)))))"

definition deliver_signal :: "nat \<Rightarrow> nat \<Rightarrow> ('a procs_scheme, unit) km" where
  "deliver_signal i s =
     bnd (look (\<lambda>k. ptab k i)) (\<lambda>p.
     if pendingSignals p s > 0 then
       let h = signalHandlers p s in
       andthen (if h = SIGIGN then ignoreHandler
                else if h = SIGDFL then dflHandler
                else if h = SIGMSGSENT then receiverHandler
                else push_handler i h)
         (upd (upd_proc i (\<lambda>p. p\<lparr>pendingSignals := (pendingSignals p)(s := 0)\<rparr>)))
     else ret ())"

definition deliver_signals :: "nat \<Rightarrow> ('a procs_scheme, unit) km" where
  "deliver_signals i = for_each (deliver_signal i) [0..<NSIG]"

section \<open>The scheduler\<close>

text \<open>
  The \<open>while\<close> loop over the process table, along the list of the slots it visits.  The code indexes
  the membership table with the process number before it looks at the container.
\<close>

primrec pick :: "(nat \<Rightarrow> proc) \<Rightarrow> (nat \<Rightarrow> int) \<Rightarrow> nat list \<Rightarrow> kerr + nat option" where
  "pick t cp [] = Inr None"
| "pick t cp (i # is) =
     (let p = t i in
      if p_state p \<noteq> RUNNABLE then pick t cp is
      else if \<not> in_bounds (p_pid p) NPROC then Inl (Fault ''container_processes'')
      else if cp (nat (p_pid p)) = 0 \<and> container_id p \<noteq> 0 then pick t cp is
      else Inr (Some i))"

definition slots_after :: "int \<Rightarrow> nat list" where
  "slots_after lp = map (\<lambda>j. (nat lp + 1 + j) mod NPROC) [0..<NPROC]"

definition set_curproc :: "nat \<Rightarrow> nat option \<Rightarrow> ('c, unit) km" where
  "set_curproc c p = updm (upd_cpu c (\<lambda>x. x\<lparr>curproc := p\<rparr>))"

text \<open>What the scheduler does with the chosen process up to the switch, and after it.\<close>

definition dispatch :: "nat \<Rightarrow> int \<Rightarrow> nat \<Rightarrow> ('a procs_scheme, unit) km" where
  "dispatch c cid i =
     bnd (look (\<lambda>k. scheduler_logger k = 1 \<and> container_id (ptab k i) \<noteq> 0)) (\<lambda>logs.
     andthen (if logs then bnd (look (\<lambda>k. p_pid (ptab k i))) (\<lambda>q.
         cprintf (''Container + %d : Scheduling process + %d'' @ [newline]) [CInt (of_int cid), CInt (of_int q)])
       else ret ()) (
     andthen (set_last_process_of_container (int i) cid) (
     andthen (set_curproc c (Some i)) (
     andthen (deliver_signals i) (
     andthen (switchuvm (Some i)) (
     upd (upd_proc i (\<lambda>p. p\<lparr>p_state := RUNNING\<rparr>))))))))"

definition scheduler_choose :: "('a procs_scheme, int \<times> nat option) km" where
  "scheduler_choose =
     andthen sti (
     bnd get_container_to_run (\<lambda>cid.
     bnd (get_container_processes_to_run cid) (\<lambda>cp.
     bnd (get_container_last_process cid) (\<lambda>lp.
     andthen (acquire PtableLock) (
     bnd (look (\<lambda>k. pick (ptab k) cp (slots_after lp))) (\<lambda>r.
     case r of Inl e \<Rightarrow> fail e | Inr x \<Rightarrow> ret (cid, x)))))))"

definition scheduler_iter :: "nat \<Rightarrow> ('a procs_scheme, unit) bkm" where
  "scheduler_iter c =
     bbnd (lift scheduler_choose) (\<lambda>(cid, r). case r of
       None \<Rightarrow> lift (release PtableLock)
     | Some i \<Rightarrow>
         bthen (lift (dispatch c cid i)) (
         bthen swtch (
         bthen (lift switchkvm) (
         bthen (lift (set_curproc c None)) (
         lift (release PtableLock))))))"

text \<open>\<open>n\<close> turns of \<open>for(;;)\<close>.\<close>

primrec scheduler_loop :: "nat \<Rightarrow> nat \<Rightarrow> ('a procs_scheme, unit) bkm" where
  "scheduler_loop 0 c = bret ()"
| "scheduler_loop (Suc n) c = bthen (scheduler_iter c) (scheduler_loop n c)"

definition scheduler :: "nat \<Rightarrow> ('a procs_scheme, unit) bkm" where
  "scheduler n =
     bbnd (lift mycpu) (\<lambda>c.
     bthen (lift (set_curproc c None)) (
     scheduler_loop n c))"

section \<open>The choice of a process\<close>

text \<open>A process the scheduler may run for a container with the membership table \<open>cp\<close>.\<close>

definition eligible :: "(nat \<Rightarrow> proc) \<Rightarrow> (nat \<Rightarrow> int) \<Rightarrow> nat \<Rightarrow> bool" where
  "eligible t cp i \<longleftrightarrow> p_state (t i) = RUNNABLE \<and> (container_id (t i) = 0 \<or> cp (nat (p_pid (t i))) \<noteq> 0)"

lemma pick_sound: "pick t cp is = Inr (Some i) \<Longrightarrow> i \<in> set is \<and> eligible t cp i \<and> in_bounds (p_pid (t i)) NPROC"
  by (induction "is") (auto simp: Let_def eligible_def split: if_splits)

lemma pick_find:
  "\<forall>i \<in> set is. p_state (t i) = RUNNABLE \<longrightarrow> in_bounds (p_pid (t i)) NPROC \<Longrightarrow>
   pick t cp is = Inr (find (eligible t cp) is)"
  by (induction "is") (auto simp: Let_def eligible_def)

lemma find_map_option: "find P (map f xs) = map_option f (find (\<lambda>x. P (f x)) xs)"
  by (induction xs) auto

lemma pick_cyc:
  assumes "\<forall>i < NPROC. p_state (t i) = RUNNABLE \<longrightarrow> in_bounds (p_pid (t i)) NPROC"
  shows "pick t cp (slots_after (int lp)) = Inr (cyc_next NPROC (eligible t cp) lp)"
proof -
  have "\<forall>i \<in> set (slots_after (int lp)). p_state (t i) = RUNNABLE \<longrightarrow> in_bounds (p_pid (t i)) NPROC"
    using assms by (auto simp: slots_after_def)
  from pick_find [OF this, of cp] show ?thesis
    by (simp add: slots_after_def find_map_option cyc_next_def)
qed

text \<open>The processes chosen for one container in consecutive visits, with the same processes runnable.\<close>

primrec picks :: "nat \<Rightarrow> (nat \<Rightarrow> proc) \<Rightarrow> (nat \<Rightarrow> int) \<Rightarrow> int \<Rightarrow> nat list" where
  "picks 0 t cp lp = []"
| "picks (Suc n) t cp lp =
     (case pick t cp (slots_after lp) of Inr (Some i) \<Rightarrow> i # picks n t cp (int i) | _ \<Rightarrow> [])"

lemma picks_cyc:
  assumes "\<forall>i < NPROC. p_state (t i) = RUNNABLE \<longrightarrow> in_bounds (p_pid (t i)) NPROC"
  shows "picks n t cp (int lp) = cyc_run n NPROC (eligible t cp) lp"
  by (induction n arbitrary: lp) (auto simp: pick_cyc [OF assms] split: option.split)

lemma scheduler_choose_step:
  assumes "quiet m" "intr m" "current_container k = int cur" "cur < NCONTAINER"
    and "last_process (ctab k (rr (ctab k) cur)) = int lp"
    and "\<forall>i < NPROC. p_state (ptab k i) = RUNNABLE \<longrightarrow> in_bounds (p_pid (ptab k i)) NPROC"
  shows "scheduler_choose m k = Inr ((int (rr (ctab k) cur),
      cyc_next NPROC (eligible (ptab k) (cproc (ctab k (rr (ctab k) cur)))) lp),
    hold PtableLock m, k\<lparr>current_container := int (rr (ctab k) cur)\<rparr>)"
proof -
  have sti: "m\<lparr>intr := True\<rparr> = m" using assms(2) by simp
  show ?thesis
    using assms rr_less [OF assms(4), of "ctab k"]
    by (simp add: scheduler_choose_def sti_def km_simps sti get_container_to_run_step
        get_container_processes_to_run_def get_container_last_process_def pick_cyc)
qed

section \<open>Dispatching\<close>

lemma mach_ok_curproc [simp]:
  assumes "mach_ok m"
  shows "mach_ok (upd_cpu c (\<lambda>x. x\<lparr>curproc := p\<rparr>) m)"
proof -
  obtain i where i: "this_cpu m = Some i" "i < length (cpus m)" using assms by (rule mach_ok_cpu)
  let ?c = "cpus (upd_cpu c (\<lambda>x. x\<lparr>curproc := p\<rparr>) m) ! i"
  have "ncli ?c = ncli (cpus m ! i)" "intena ?c = intena (cpus m ! i)"
    using i(2) by (cases "c = i"; simp add: upd_cpu_def)+
  moreover have "intr (upd_cpu c (\<lambda>x. x\<lparr>curproc := p\<rparr>) m) = intr m" "screen (upd_cpu c (\<lambda>x. x\<lparr>curproc := p\<rparr>) m) = screen m"
    by (simp_all add: upd_cpu_def)
  ultimately show ?thesis
    using assms i by (simp add: mach_ok_def)
qed

lemma lock_free_curproc [simp]: "lock_free l (upd_cpu c f m) = lock_free l m"
  by (simp add: lock_free_def upd_cpu_def)

lemma deliver_none:
  assumes "\<forall>s < NSIG. pendingSignals (ptab k i) s \<le> 0"
  shows "deliver_signals i m k = Inr ((), m, k)"
proof -
  have "for_each (deliver_signal i) is m k = Inr ((), m, k)" if "set is \<subseteq> {..<NSIG}" for "is"
    using that
  proof (induction "is")
    case (Cons s ss)
    then have "deliver_signal i s m k = Inr ((), m, k)"
      using assms by (auto simp: deliver_signal_def km_simps)
    then show ?case using Cons by (simp add: bnd_def)
  qed (simp add: ret_def)
  from this [of "[0..<NSIG]"] show ?thesis by (simp add: deliver_signals_def atLeast0LessThan)
qed

lemma switchuvm_ok:
  assumes "mach_ok m" "p_kstack (ptab k i) \<noteq> 0" "p_pgdir (ptab k i) \<noteq> 0"
  shows "switchuvm (Some i) m k = Inr ((), m, k\<lparr>cr3 := V2P (p_pgdir (ptab k i))\<rparr>)"
  using assms by (simp add: switchuvm_def km_simps pushcli_ok popcli_deep)

lemma dispatch_step:
  assumes "quiet m" "cid < NCONTAINER" "scheduler_logger k \<noteq> 1"
    and "\<forall>s < NSIG. pendingSignals (ptab k i) s \<le> 0" "p_kstack (ptab k i) \<noteq> 0" "p_pgdir (ptab k i) \<noteq> 0"
  shows "dispatch c (int cid) i (hold PtableLock m) k =
    Inr ((), upd_cpu c (\<lambda>x. x\<lparr>curproc := Some i\<rparr>) (hold PtableLock m),
      upd_proc i (\<lambda>p. p\<lparr>p_state := RUNNING\<rparr>)
        ((upd_container cid (\<lambda>x. x\<lparr>last_process := int i\<rparr>) k)\<lparr>cr3 := V2P (p_pgdir (ptab k i))\<rparr>))"
proof -
  have "ptab (upd_container cid f k) = ptab k" for f by (simp add: upd_container_def)
  then show ?thesis
    using assms
    by (simp add: dispatch_def km_simps set_last_process_step set_curproc_def deliver_none switchuvm_ok)
qed

text \<open>Which process the CPU runs does not matter to the locks.\<close>

lemma upd_curproc_hold:
  assumes "this_cpu m = Some c"
  shows "upd_cpu c (\<lambda>x. x\<lparr>curproc := p\<rparr>) (hold l m) = hold l (upd_cpu c (\<lambda>x. x\<lparr>curproc := p\<rparr>) m)"
proof -
  have same: "this_cpu (upd_cpu c (\<lambda>x. x\<lparr>curproc := p\<rparr>) m) = Some c" using assms by simp
  have swap: "x\<lparr>ncli := n, curproc := p\<rparr> = x\<lparr>curproc := p, ncli := n\<rparr>" for x :: cpu and n by simp
  show ?thesis
    unfolding hold_def deep_def set_lock_def same assms option.sel
    using this_cpu_less [OF assms] by (intro mach.equality) (simp_all add: upd_cpu_def swap)
qed

lemma upd_curproc_twice:
  "upd_cpu c (\<lambda>x. x\<lparr>curproc := q\<rparr>) (upd_cpu c (\<lambda>x. x\<lparr>curproc := p\<rparr>) m) = upd_cpu c (\<lambda>x. x\<lparr>curproc := q\<rparr>) m"
  by (cases "c < length (cpus m)") (simp_all add: upd_cpu_def list_update_beyond not_less)

section \<open>Properties\<close>


text \<open>Container 2 is live with process 7 as its member; process 8 is in container 9, process 7 is
  chosen.\<close>

definition sched_example :: procs where
  "sched_example =
     upd_proc 1 (\<lambda>p. p\<lparr>p_state := RUNNABLE, p_pid := 8, container_id := 9\<rparr>)
      (upd_proc 0 (\<lambda>p. p\<lparr>p_state := RUNNABLE, p_pid := 7, container_id := 2\<rparr>)
        (boot_procs\<lparr>ctab := (\<lambda>c. (ctab no_containers c)\<lparr>status := (if c = 2 then 1 else 0),
           cproc := (\<lambda>j. if c = 2 \<and> j = 7 then 1 else 0)\<rparr>)\<rparr>))"

lemma intr_idle [simp]: "intr (idle_mach p)"
  by (simp add: idle_mach_def)







text \<open>A process with one page mapped at 0 for its stack; a page table is at 0x80401000.\<close>

definition sig_example :: procs where
  "sig_example =
     (upd_proc 0 (\<lambda>p. p\<lparr>p_pgdir := 0x80400000, p_tf := (p_tf p)\<lparr>tf_esp := 0xF00, tf_eip := 0x123\<rparr>,
        pendingSignals := (\<lambda>s. if s = 3 then 1 else 0), signalHandlers := (\<lambda>s. 0x50)\<rparr>) boot_procs)
     \<lparr>ram := wr32 (wr32 (\<lambda>_. 0) 0x80400000 0x00401007) 0x80401000 0x00402007\<rparr>"

lemma sig_example_uva2ka: "uva2ka 0x80400000 0xF00 m sig_example = Inr (0x80402000, m, sig_example)"
proof -
  have "rd32 (ram sig_example) 0x80400000 = 0x00401007" "rd32 (ram sig_example) 0x80401000 = 0x00402007"
    by (simp_all add: sig_example_def rd32_wr32_other)
  moreover have "PDX 0xF00 = 0" "PTX 0xF00 = 0" by (simp_all add: PDX_def PTX_def)
  ultimately show ?thesis
    by (simp add: uva2ka_def walkpgdir_def km_simps PTE_ADDR_def P2V_def const_defs)
qed




end
