(* ===== verification/Args.thy ===== *)
theory Args
  imports Scheduler
begin

text \<open>
  How the kernel fetches the arguments of a system call (\<^verbatim>\<open>syscall.c\<close>).  The lemmas show that every
  pointer \<open>argptr\<close> and \<open>argstr\<close> accept stays inside the process, with its whole block.
\<close>

section \<open>Arguments\<close>

text \<open>A result \<open>None\<close> is the return value -1; the pointer argument is then not set.\<close>

definition fetchint :: "uint \<Rightarrow> ('a procs_scheme, uint option) km" where
  "fetchint addr =
     bnd (my p_sz) (\<lambda>sz.
     if addr \<ge> sz \<or> addr + 4 > sz then ret None
     else bnd (get32 addr) (\<lambda>v. ret (Some v)))"

text \<open>The scan of \<open>fetchstr\<close>; \<open>n\<close> is the number of bytes left before \<open>ep\<close>.\<close>

primrec fetchstr_loop :: "nat \<Rightarrow> uint \<Rightarrow> nat \<Rightarrow> ('a vm_state_scheme, nat option) km" where
  "fetchstr_loop 0 s len = ret None"
| "fetchstr_loop (Suc n) s len =
     bnd (get8 s) (\<lambda>c. if c = 0 then ret (Some len) else fetchstr_loop n (s + 1) (len + 1))"

definition fetchstr :: "uint \<Rightarrow> ('a procs_scheme, (nat \<times> uint) option) km" where
  "fetchstr addr =
     bnd (my p_sz) (\<lambda>sz.
     if addr \<ge> sz then ret None
     else bnd (fetchstr_loop (unat sz - unat addr) addr 0) (\<lambda>r.
       ret (map_option (\<lambda>len. (len, addr)) r)))"

definition argint :: "nat \<Rightarrow> ('a procs_scheme, uint option) km" where
  "argint n = bnd (my (\<lambda>p. tf_esp (p_tf p))) (\<lambda>esp. fetchint (esp + 4 + 4 * of_nat n))"

definition argptr :: "nat \<Rightarrow> int \<Rightarrow> ('a procs_scheme, uint option) km" where
  "argptr n sz =
     bnd (argint n) (\<lambda>r. case r of
       None \<Rightarrow> ret None
     | Some i \<Rightarrow>
         bnd (my p_sz) (\<lambda>psz.
         if sz < 0 \<or> i \<ge> psz \<or> i + of_int sz > psz then ret None else ret (Some i)))"

definition argstr :: "nat \<Rightarrow> ('a procs_scheme, (nat \<times> uint) option) km" where
  "argstr n = bnd (argint n) (\<lambda>r. case r of None \<Rightarrow> ret None | Some addr \<Rightarrow> fetchstr addr)"

text \<open>
  Several system calls ignore the result of \<open>argint\<close> or \<open>argptr\<close>; when it is -1 they go on with an
  uninitialised variable.
\<close>

definition arg_used :: "('a procs_scheme, 'b option) km \<Rightarrow> ('a procs_scheme, 'b) km" where
  "arg_used f = bnd f (\<lambda>r. case r of None \<Rightarrow> fail (Fault ''uninitialised'') | Some x \<Rightarrow> ret x)"

section \<open>What the checks guarantee\<close>

lemma get32_Inr: "get32 a m k = Inr (v, m', k') \<longleftrightarrow> vread32 k a = Some v \<and> m' = m \<and> k' = k"
  by (auto simp: get32_def page_fault_def km_simps split: option.splits)

lemma get8_Inr: "get8 a m k = Inr (v, m', k') \<longleftrightarrow> vread k a = Some v \<and> m' = m \<and> k' = k"
  by (auto simp: get8_def page_fault_def km_simps split: option.splits)

lemma no_wrap:
  fixes i psz :: uint
  assumes "psz \<le> KERNBASE" "i < psz" "0 \<le> n" "n < 2 ^ 31"
  shows "unat (i + of_int n) = unat i + nat n"
proof -
  have "unat i < 2 ^ 31"
    using assms(1,2) by (simp add: const_defs word_less_nat_alt word_le_nat_alt)
  moreover have "unat (of_int n :: uint) = nat n"
    using assms(3,4) unat32_of_nat [of "nat n"] by simp
  ultimately show ?thesis using assms(3,4) by (simp add: unat32_add nat_less_iff)
qed

lemma fetchint_inside:
  assumes "mach_ok m" "curproc (cpu_of m) = Some p" "p_sz (ptab k p) \<le> KERNBASE"
    and "fetchint addr m k = Inr (Some v, m', k')"
  shows "unat addr + 4 \<le> unat (p_sz (ptab k p)) \<and> vread32 k addr = Some v \<and> m' = m \<and> k' = k"
proof -
  let ?sz = "p_sz (ptab k p)"
  have c: "addr < ?sz" "addr + 4 \<le> ?sz" "get32 addr m k = Inr (v, m', k')"
    using assms(4) my_ok [OF assms(1,2), of p_sz k]
    by (auto simp: fetchint_def bnd_def ret_def not_le not_less split: if_splits sum.splits)
  have "unat (addr + of_int 4) = unat addr + nat 4"
    by (rule no_wrap [OF assms(3) c(1)]) simp_all
  then show ?thesis using c get32_Inr [of addr m k v m' k'] by (simp add: word_le_nat_alt)
qed

lemma argint_inside:
  assumes "mach_ok m" "curproc (cpu_of m) = Some p" "p_sz (ptab k p) \<le> KERNBASE"
    and "argint n m k = Inr (Some v, m', k')"
  shows "m' = m \<and> k' = k"
  using assms fetchint_inside [OF assms(1-3)] by (simp add: argint_def bnd_def my_ok)

lemma argptr_inside:
  assumes "mach_ok m" "curproc (cpu_of m) = Some p" "p_sz (ptab k p) \<le> KERNBASE" "n < 2 ^ 31"
    and "argptr i n m k = Inr (Some a, m', k')"
  shows "m' = m \<and> k' = k \<and> 0 \<le> n \<and> unat a + nat n \<le> unat (p_sz (ptab k p))"
proof -
  let ?sz = "p_sz (ptab k p)"
  obtain v m1 k1 where v: "argint i m k = Inr (Some v, m1, k1)"
    using assms(5) by (auto simp: argptr_def bnd_def ret_def split: sum.splits option.splits)
  have same: "m1 = m" "k1 = k" using argint_inside [OF assms(1-3) v] by auto
  have c: "v = a" "0 \<le> n" "a < ?sz" "a + of_int n \<le> ?sz" "m' = m" "k' = k"
    using assms(5) v same my_ok [OF assms(1,2), of p_sz k]
    by (auto simp: argptr_def bnd_def ret_def not_le not_less split: if_splits)
  then show ?thesis
    using no_wrap [OF assms(3) c(3,2) assms(4)] by (simp add: word_le_nat_alt)
qed

lemma fetchstr_loop_spec:
  "fetchstr_loop n s len m k = Inr (r, m', k') \<Longrightarrow> m' = m \<and> k' = k \<and>
    (\<forall>l. r = Some l \<longrightarrow> len \<le> l \<and> l - len < n \<and> vread k (s + of_nat (l - len)) = Some 0 \<and>
       (\<forall>j < l - len. \<exists>c. vread k (s + of_nat j) = Some c \<and> c \<noteq> 0))"
proof (induction n arbitrary: s len)
  case 0
  then show ?case by (simp add: ret_def)
next
  case (Suc n)
  from Suc.prems obtain c where c: "get8 s m k = Inr (c, m, k)" "vread k s = Some c"
    by (auto simp: bnd_def get8_Inr split: sum.splits)
  show ?case
  proof (cases "c = 0")
    case True
    then show ?thesis using Suc.prems c by (auto simp: bnd_def ret_def)
  next
    case False
    then have step: "fetchstr_loop n (s + 1) (len + 1) m k = Inr (r, m', k')"
      using Suc.prems c by (simp add: bnd_def)
    note IH = Suc.IH [OF step]
    show ?thesis
    proof (intro conjI allI impI)
      fix l
      assume r: "r = Some l"
      with IH have l: "len + 1 \<le> l" "l - (len + 1) < n" "vread k (s + 1 + of_nat (l - (len + 1))) = Some 0"
        and pre: "\<And>j. j < l - (len + 1) \<Longrightarrow> \<exists>c. vread k (s + 1 + of_nat j) = Some c \<and> c \<noteq> 0" by auto
      have e: "l - len = Suc (l - (len + 1))" using l(1) by simp
      show "len \<le> l" "l - len < Suc n" using l e by simp_all
      show "vread k (s + of_nat (l - len)) = Some 0" using l(3) by (simp add: e algebra_simps)
      show "\<exists>c. vread k (s + of_nat j) = Some c \<and> c \<noteq> 0" if "j < l - len" for j
        using that pre [of "j - 1"] c(2) False by (cases j) (auto simp: e algebra_simps)
    qed (use IH in auto)
  qed
qed

lemma argstr_inside:
  assumes "mach_ok m" "curproc (cpu_of m) = Some p" "p_sz (ptab k p) \<le> KERNBASE"
    and "argstr i m k = Inr (Some (l, a), m', k')"
  shows "m' = m \<and> k' = k \<and> unat a + l < unat (p_sz (ptab k p)) \<and> vread k (a + of_nat l) = Some 0 \<and>
    (\<forall>j < l. \<exists>c. vread k (a + of_nat j) = Some c \<and> c \<noteq> 0)"
proof -
  let ?sz = "p_sz (ptab k p)"
  obtain v m1 k1 where v: "argint i m k = Inr (Some v, m1, k1)"
    using assms(4) by (auto simp: argstr_def bnd_def ret_def split: sum.splits option.splits)
  have same: "m1 = m" "k1 = k" using argint_inside [OF assms(1-3) v] by auto
  from assms(4) v same have "v = a" "a < ?sz" "fetchstr_loop (unat ?sz - unat a) a 0 m k = Inr (Some l, m', k')"
    by (auto simp: argstr_def fetchstr_def bnd_def ret_def my_ok [OF assms(1,2)] not_le split: if_splits sum.splits)
  with fetchstr_loop_spec [OF this(3)] show ?thesis by (auto simp: word_less_nat_alt)
qed

section \<open>Properties\<close>

text \<open>C19: a pointer that \<open>argptr\<close> accepts lies with its whole block below the size of the process, and
  a string that \<open>argstr\<close> accepts lies below it with its terminating null byte, the first one in
  the string; so no system call that uses the checked block reaches kernel memory.\<close>

theorem user_pointers_confined:
  assumes "runs p m" "p_sz (ptab k p) \<le> KERNBASE" "n < 2 ^ 31"
  shows "(argptr i n m k = Inr (Some a, m', k') \<longrightarrow> unat a + nat n \<le> unat (p_sz (ptab k p))) \<and>
    (argstr i m k = Inr (Some (l, s), m', k') \<longrightarrow> unat s + l < unat (p_sz (ptab k p)) \<and>
       vread k (s + of_nat l) = Some 0 \<and> (\<forall>j < l. \<exists>c. vread k (s + of_nat j) = Some c \<and> c \<noteq> 0))"
  using argptr_inside [of m p k n i a m' k'] argstr_inside [of m p k i l s m' k'] assms runsD [OF assms(1)] by auto

text \<open>A process of one page whose first argument is the address 0x10, where the string "A" stands.\<close>

definition arg_example :: procs where
  "arg_example = (upd_proc 0 (\<lambda>p. p\<lparr>p_sz := 0x1000\<rparr>) sig_example)
     \<lparr>cr3 := 0x400000, ram := (ram sig_example)(0x80402F04 := 0x10, 0x80402010 := 65)\<rparr>"

lemma arg_example_translate:
  assumes "PDX va = 0" "PTX va = 0"
  shows "translate (ram arg_example) 0x80400000 va = Some (0x80402000 + (va AND 0xFFF))"
proof -
  have "rd32 (ram arg_example) 0x80400000 = 0x00401007" "rd32 (ram arg_example) 0x80401000 = 0x00402007"
    by (simp_all add: arg_example_def sig_example_def rd32_def wr32_def)
  then show ?thesis using assms
    by (simp add: translate_def PTE_ADDR_def P2V_def const_defs)
qed

lemma arg_example_vread:
  "vread arg_example 0xF04 = Some 0x10" "vread arg_example 0xF05 = Some 0" "vread arg_example 0xF06 = Some 0"
  "vread arg_example 0xF07 = Some 0" "vread arg_example 0x10 = Some 65" "vread arg_example 0x11 = Some 0"
proof -
  have "P2V (cr3 arg_example) = 0x80400000" by (simp add: arg_example_def P2V_def const_defs)
  then have v: "vread arg_example va = Some (ram arg_example (0x80402000 + (va AND 0xFFF)))"
    if "PDX va = 0" "PTX va = 0" "va < 0x80000000" for va
  proof -
    have "\<not> 0x80000000 \<le> va" using that(3) by (simp add: not_le)
    then show ?thesis
      using that arg_example_translate [of va] \<open>P2V (cr3 arg_example) = 0x80400000\<close>
      by (simp add: vread_def kaddr_def const_defs)
  qed
  show "vread arg_example 0xF04 = Some 0x10" "vread arg_example 0xF05 = Some 0" "vread arg_example 0xF06 = Some 0"
    "vread arg_example 0xF07 = Some 0" "vread arg_example 0x10 = Some 65" "vread arg_example 0x11 = Some 0"
    by (simp_all add: v PDX_def PTX_def) (simp_all add: arg_example_def sig_example_def wr32_def)
qed

lemma arg_example_argint:
  "argint 0 (idle_mach (Some 0)) arg_example = Inr (Some 0x10, idle_mach (Some 0), arg_example)"
proof -
  have "vread32 arg_example 0xF04 = Some 0x10"
    by (simp add: vread32_def arg_example_vread)
  moreover have "p_sz (ptab arg_example 0) = 0x1000" "tf_esp (p_tf (ptab arg_example 0)) = 0xF00"
    by (simp_all add: arg_example_def sig_example_def)
  ultimately show ?thesis
    by (simp add: argint_def fetchint_def km_simps my_ok get32_Inr [THEN iffD2])
qed

theorem user_pointers_confined_witness:
  "argptr 0 8 (idle_mach (Some 0)) arg_example = Inr (Some 0x10, idle_mach (Some 0), arg_example) \<and>
   argstr 0 (idle_mach (Some 0)) arg_example = Inr (Some (1, 0x10), idle_mach (Some 0), arg_example) \<and>
   unat (0x10 :: uint) + nat 8 \<le> unat (p_sz (ptab arg_example 0)) \<and> vread arg_example (0x10 + of_nat 1) = Some 0"
proof -
  have sz: "p_sz (ptab arg_example 0) = 0x1000" by (simp add: arg_example_def sig_example_def)
  have "argptr 0 8 (idle_mach (Some 0)) arg_example = Inr (Some 0x10, idle_mach (Some 0), arg_example)"
    by (simp add: argptr_def km_simps arg_example_argint my_ok sz)
  moreover have "argstr 0 (idle_mach (Some 0)) arg_example = Inr (Some (1, 0x10), idle_mach (Some 0), arg_example)"
  proof -
    have "unat (0x1000 :: uint) - unat (0x10 :: uint) = Suc (Suc 4078)" by simp
    then have "fetchstr_loop (unat (0x1000 :: uint) - unat (0x10 :: uint)) 0x10 0 (idle_mach (Some 0)) arg_example
        = Inr (Some 1, idle_mach (Some 0), arg_example)"
      by (simp only: fetchstr_loop.simps) (simp add: km_simps get8_Inr [THEN iffD2] arg_example_vread)
    then show ?thesis
      by (simp add: argstr_def fetchstr_def km_simps arg_example_argint my_ok sz)
  qed
  ultimately show ?thesis
    using user_pointers_confined [of 0 "idle_mach (Some 0)" arg_example 8 0 "0x10" "idle_mach (Some 0)" arg_example 1 "0x10"]
    by (simp add: sz const_defs)
qed

end
