(* ===== verification/Sysproc.thy ===== *)
theory Sysproc
  imports Args
begin

text \<open>
  The system calls of \<^verbatim>\<open>sysproc.c\<close>: time, processes, messages, signals and containers.  (\<open>sys_fork\<close>,
  \<open>sys_exit\<close> and \<open>sys_wait\<close> are with \<open>fork\<close>, \<open>exit\<close> and \<open>wait\<close> in \<open>Lifecycle\<close>.)  The lemmas show that
  joining and leaving a live container keep the process table and the container table in step, what
  goes wrong for a dead one, and how a message sent between the two critical sections of \<open>sys_recv\<close>
  leaves the receiver asleep.
\<close>

record sysstate = procs +
  ticks :: uint
  memory_log :: "nat \<Rightarrow> int"
  syscall_trace :: "nat \<Rightarrow> int"
  sys_trace :: int
  ports :: "(uint \<times> uint) list"

section \<open>Processes and time\<close>

definition sys_kill :: "('a procs_scheme, int) km" where
  "sys_kill = bnd (argint 0) (\<lambda>r. case r of None \<Rightarrow> ret (-1) | Some q \<Rightarrow> kill (sint q))"

definition sys_getpid :: "('a procs_scheme, int) km" where
  "sys_getpid = my p_pid"

definition sys_sbrk :: "('a procs_scheme, int) km" where
  "sys_sbrk =
     bnd (argint 0) (\<lambda>r. case r of
       None \<Rightarrow> ret (-1)
     | Some n \<Rightarrow>
         bnd (my p_sz) (\<lambda>addr.
         bnd (growproc (sint n)) (\<lambda>g.
         if g < 0 then ret (-1) else ret (sint addr))))"

text \<open>
  The comparison \<open>ticks - ticks0 < n\<close> is between unsigned numbers: a negative \<open>n\<close> is a long time.
\<close>

definition sleep_turn :: "uint \<Rightarrow> uint \<Rightarrow> unit \<Rightarrow> ('a sysstate_scheme, int + unit) bkm" where
  "sleep_turn ticks0 n _ =
     bbnd (lift (look ticks)) (\<lambda>t.
     if t - ticks0 < n then
       bbnd (lift (my p_killed)) (\<lambda>killed.
       if killed then bthen (lift (release TicksLock)) (bret (Inl (-1)))
       else bthen (sleep ChanTicks TicksLock) (bret (Inr ())))
     else bthen (lift (release TicksLock)) (bret (Inl 0)))"

definition sys_sleep :: "('a sysstate_scheme, int) bkm" where
  "sys_sleep =
     bbnd (lift (argint 0)) (\<lambda>r. case r of
       None \<Rightarrow> bret (-1)
     | Some n \<Rightarrow>
         bthen (lift (acquire TicksLock)) (
         bbnd (lift (look ticks)) (\<lambda>ticks0.
         bwhile (sleep_turn ticks0 n) ())))"

definition sys_uptime :: "('a sysstate_scheme, uint) km" where
  "sys_uptime =
     andthen (acquire TicksLock) (
     bnd (look ticks) (\<lambda>xticks.
     andthen (release TicksLock) (ret xticks)))"

definition sys_toggle :: "('a sysstate_scheme, unit) km" where
  "sys_toggle =
     bnd (look sys_trace) (\<lambda>t.
     if t = 0 then
       andthen (upd (\<lambda>k. k\<lparr>syscall_trace := (\<lambda>i. if i < 34 then 0 else syscall_trace k i)\<rparr>))
         (upd (\<lambda>k. k\<lparr>sys_trace := 1\<rparr>))
     else upd (\<lambda>k. k\<lparr>sys_trace := 0\<rparr>))"

definition numToCall :: "string list" where
  "numToCall = [''random'', ''sys_fork'', ''sys_exit'', ''sys_wait'', ''sys_pipe'', ''sys_read'', ''sys_kill'',
     ''sys_exec'', ''sys_fstat'', ''sys_chdir'', ''sys_dup'', ''sys_getpid'', ''sys_sbrk'', ''sys_sleep'',
     ''sys_uptime'', ''sys_open'', ''sys_write'', ''sys_mknod'', ''sys_unlink'', ''sys_link'', ''sys_mkdir'',
     ''sys_close'', ''sys_toggle'', ''sys_add'', ''sys_ps'', ''sys_send'', ''sys_recv'', ''sys_print_count'',
     ''sys_send_multi'', ''sys_signal'', ''sys_sigraise'', ''sys_halt'', ''sys_recv_multi'', ''sys_change_state'',
     ''sys_create_container'', ''sys_destroy_container'', ''sys_join_container'', ''sys_leave_container'',
     ''sys_scheduler_log_on'', ''sys_scheduler_log_off'', ''sys_container_malloc'', ''sys_memory_log_on'',
     ''sys_memory_log_off'', ''sys_get_file_container_id'', ''sys_get_container_id'']"

definition sys_print_count :: "('a sysstate_scheme, unit) km" where
  "sys_print_count =
     for_each (\<lambda>i.
       bnd (look (\<lambda>k. syscall_trace k i)) (\<lambda>n.
       if n \<noteq> 0 then cprintf (''%s %d'' @ [newline]) [CStr (Some (numToCall ! i)), CInt (of_int n)] else ret ()))
       [1..<34]"

text \<open>The sum is the machine addition, which wraps.\<close>

definition sys_add :: "('a procs_scheme, int) km" where
  "sys_add =
     bnd (arg_used (argint 0)) (\<lambda>a.
     bnd (arg_used (argint 1)) (\<lambda>b.
     ret (sint (a + b))))"

definition sys_ps :: "('a procs_scheme, int) km" where
  "sys_ps = bnd (my container_id) (\<lambda>c. andthen (print_ps c) (ret 0))"

definition sys_halt :: "('a sysstate_scheme, int) km" where
  "sys_halt = andthen (upd (\<lambda>k. k\<lparr>ports := ports k @ [(0xf4, 0)]\<rparr>)) (ret 0)"

section \<open>Messages\<close>

text \<open>
  The fifteen words of a message are read from user memory only when the callee copies them, which
  it does exactly when it does not return a negative code.  A page fault during the copy is fatal, so
  it is raised after the call that would have met it.
\<close>

primrec vwords :: "'a vm_state_scheme \<Rightarrow> uint \<Rightarrow> nat \<Rightarrow> uint list option" where
  "vwords k a 0 = Some []"
| "vwords k a (Suc n) = (case (vread32 k a, vwords k (a + 4) n) of
     (Some w, Some ws) \<Rightarrow> Some (w # ws)
   | _ \<Rightarrow> None)"

definition with_message :: "uint \<Rightarrow> ((nat \<Rightarrow> int) \<Rightarrow> ('a procs_scheme, int) km) \<Rightarrow> ('a procs_scheme, int) km" where
  "with_message p f =
     bnd (look (\<lambda>k. vwords k p (MessageSize - 1))) (\<lambda>r. case r of
       Some ws \<Rightarrow> f (\<lambda>i. sint (ws ! i))
     | None \<Rightarrow> bnd (f (\<lambda>_. 0)) (\<lambda>code. if code < 0 then ret code else fail (Fault ''page fault'')))"

text \<open>\<open>argptr\<close> is asked to check eight bytes, but the whole message is read.\<close>

definition sys_send :: "('a procs_scheme, int) km" where
  "sys_send =
     bnd (arg_used (argint 0)) (\<lambda>sender_pid.
     bnd (arg_used (argint 1)) (\<lambda>rec_pid.
     bnd (arg_used (argptr 2 8)) (\<lambda>p.
     bnd (with_message p (\<lambda>msg. with_msgs (send_message (sint sender_pid) (sint rec_pid) msg))) (\<lambda>sendCode.
     andthen (wakeup (ChanInt (sint rec_pid))) (
     ret sendCode)))))"

definition receive_into :: "uint \<Rightarrow> ('a procs_scheme, int) km" where
  "receive_into p =
     bnd (my p_pid) (\<lambda>q.
     bnd (with_msgs (receive_msg q)) (\<lambda>(recvCode, words).
     andthen (put_words p (map of_int words)) (
     ret recvCode)))"

definition sys_recv :: "('a procs_scheme, int) bkm" where
  "sys_recv =
     bbnd (lift (arg_used (argptr 0 8))) (\<lambda>p.
     bbnd (lift (my p_pid)) (\<lambda>q.
     bbnd (lift (with_msgs (isReceiverQueueEmpty q))) (\<lambda>empty.
     if empty = 1 then bbnd sleep_receiver (\<lambda>_. lift (receive_into p))
     else lift (receive_into p))))"

definition sys_change_state :: "('a procs_scheme, int) bkm" where
  "sys_change_state =
     bbnd (lift (arg_used (argint 0))) (\<lambda>a.
     if a = 0 then bbnd sleep_receiver (\<lambda>_. bret 0)
     else bbnd (lift (my p_pid)) (\<lambda>q. bthen (lift (wakeup (ChanInt q))) (bret 0)))"

definition send_one :: "int \<Rightarrow> uint \<Rightarrow> uint \<Rightarrow> nat \<Rightarrow> ('a procs_scheme, bool) km" where
  "send_one sender_pid recs msg i =
     bnd (get32 (recs + 4 * of_nat i)) (\<lambda>r.
     bnd (with_message msg (sent_to_proc_buffer sender_pid (sint r))) (\<lambda>sendCode.
     bnd (sigraise (sint r) (sint SIGMSGSENT)) (\<lambda>interruptCode.
     ret (sendCode < 0 \<or> interruptCode < 0))))"

primrec send_all :: "int \<Rightarrow> uint \<Rightarrow> uint \<Rightarrow> nat list \<Rightarrow> int \<Rightarrow> ('a procs_scheme, int) km" where
  "send_all sender_pid recs msg [] flag = ret flag"
| "send_all sender_pid recs msg (i # is) flag =
     bnd (send_one sender_pid recs msg i) (\<lambda>bad.
     send_all sender_pid recs msg is (if bad then -1 else flag))"

text \<open>
  \<open>sendCode\<close> and \<open>interruptCode\<close> are arrays of \<open>len\<close> integers on the kernel stack, which is one page
  and has no guard: they cannot fit when they take the whole page.  (How much less is already too
  much depends on the compiler's frame and is not modelled.)  \<open>argptr\<close> checks \<open>len\<close> bytes of the
  receivers, of which four times as many are read.
\<close>

definition sys_send_multi :: "('a procs_scheme, int) km" where
  "sys_send_multi =
     bnd (arg_used (argint 0)) (\<lambda>sender_pid.
     bnd (arg_used (argint 3)) (\<lambda>len.
     bnd (arg_used (argptr 1 (sint len))) (\<lambda>recs.
     bnd (arg_used (argptr 2 (int MessageSize))) (\<lambda>msg.
     if 8 * sint len \<ge> uint KSTACKSIZE then fail (Fault ''kernel stack'')
     else send_all (sint sender_pid) recs msg [0..<nat (sint len)] 0))))"

definition sys_recv_multi :: "('a procs_scheme, int) km" where
  "sys_recv_multi =
     bnd (arg_used (argptr 0 8)) (\<lambda>p.
     bnd (my p_pid) (\<lambda>q.
     bnd (receive_from_procbuffer q) (\<lambda>(recvCode, words).
     andthen (put_words p (map of_int words)) (
     ret recvCode))))"

section \<open>Signals\<close>

definition sys_signal :: "('a procs_scheme, int) km" where
  "sys_signal =
     bnd (argint 0) (\<lambda>n. case n of
       None \<Rightarrow> ret (-1)
     | Some signummer \<Rightarrow>
         bnd (argint 1) (\<lambda>h. case h of
           None \<Rightarrow> ret (-1)
         | Some handler \<Rightarrow> signal (sint signummer) handler))"

definition sys_sigraise :: "('a procs_scheme, int) km" where
  "sys_sigraise =
     bnd (arg_used (argint 0)) (\<lambda>q.
     bnd (arg_used (argint 1)) (\<lambda>signummer.
     sigraise (sint q) (sint signummer)))"

section \<open>Containers\<close>

definition sys_create_container :: "('a ctable_scheme, int) km" where
  "sys_create_container = get_container"

definition sys_destroy_container :: "('a procs_scheme, int) km" where
  "sys_destroy_container =
     bnd (arg_used (argint 0)) (\<lambda>c.
     bnd (destroy_container_kernel (sint c)) (\<lambda>_.
     bnd (my p_pid) (\<lambda>q.
     bnd (my container_id) (\<lambda>pc.
     bnd (destroy_container_processes q (sint c) pc) (\<lambda>_.
     ret 0)))))"

definition join_container :: "int \<Rightarrow> ('a procs_scheme, int) km" where
  "join_container c =
     andthen (upd_my (\<lambda>p. p\<lparr>container_id := c\<rparr>)) (
     bnd (my p_pid) (\<lambda>q.
     set_process_to_container q c))"

definition sys_join_container :: "('a procs_scheme, int) km" where
  "sys_join_container = bnd (arg_used (argint 0)) (\<lambda>c. join_container (sint c))"

definition sys_leave_container :: "('a procs_scheme, int) km" where
  "sys_leave_container =
     bnd (my container_id) (\<lambda>c.
     if c = 0 then ret (-1)
     else
       bnd (my p_pid) (\<lambda>q.
       bnd (remove_process_from_container q c) (\<lambda>stat.
       andthen (upd_my (\<lambda>p. p\<lparr>container_id := 0\<rparr>)) (
       ret stat))))"

definition sys_scheduler_log_on :: "('a procs_scheme, int) km" where
  "sys_scheduler_log_on = andthen (set_scheduler_logger 1) (ret 0)"

definition sys_scheduler_log_off :: "('a procs_scheme, int) km" where
  "sys_scheduler_log_off = andthen (set_scheduler_logger 0) (ret 0)"

definition in_memory_log :: "int \<Rightarrow> ('a sysstate_scheme, 'b) km \<Rightarrow> ('a sysstate_scheme, 'b) km" where
  "in_memory_log c f = (if in_bounds c NCONTAINER then f else fail (Fault ''memory_log''))"

definition sys_container_malloc :: "('a sysstate_scheme, uint) km" where
  "sys_container_malloc =
     bnd (arg_used (argint 0)) (\<lambda>units.
     if sint units < 4096 then
       bnd (my container_id) (\<lambda>c.
       bnd (get_space_in_container c (sint units)) (\<lambda>(addr, t).
       in_memory_log c (
         bnd (look (\<lambda>k. memory_log k (nat c))) (\<lambda>l.
         andthen (if l = 1 then cprintf (''Container %d : GVA %d -> HVA %p'' @ [newline])
                    [CInt (of_int c), CInt (of_int t), CInt addr] else ret ()) (
         ret addr)))))
     else ret (-1))"

definition sys_memory_log_on :: "('a sysstate_scheme, int) km" where
  "sys_memory_log_on =
     bnd (my container_id) (\<lambda>c.
     in_memory_log c (andthen (upd (\<lambda>k. k\<lparr>memory_log := (memory_log k)(nat c := 1)\<rparr>)) (ret 0)))"

definition sys_memory_log_off :: "('a sysstate_scheme, int) km" where
  "sys_memory_log_off =
     bnd (my container_id) (\<lambda>c.
     in_memory_log c (andthen (upd (\<lambda>k. k\<lparr>memory_log := (memory_log k)(nat c := 0)\<rparr>)) (ret 0)))"

definition sys_get_container_id :: "('a procs_scheme, int) km" where
  "sys_get_container_id = my container_id"

section \<open>Joining and leaving\<close>

lemma ptab_upd_container [simp]: "ptab (upd_container c f k) = ptab k"
  by (simp add: upd_container_def)

lemma join_step:
  assumes "runs p m"
  shows "join_container c m k =
    set_process_to_container (p_pid (ptab k p)) c m (upd_proc p (\<lambda>x. x\<lparr>container_id := c\<rparr>) k)"
  using runsD [OF assms] by (simp add: join_container_def km_simps my_ok upd_my_ok)

lemma leave_step:
  assumes "runs p m" "container_id (ptab k p) = int c" "0 < c" "c < NCONTAINER" "status (ctab k c) \<noteq> 0"
    and "p_pid (ptab k p) = int q" "q < NPROC"
  shows "sys_leave_container m k = Inr (0, m, upd_proc p (\<lambda>x. x\<lparr>container_id := 0\<rparr>)
    (upd_container c (\<lambda>x. x\<lparr>cproc := (cproc x)(q := 0)\<rparr>) k))"
  using runsD [OF assms(1)] assms
  by (simp add: sys_leave_container_def remove_process_from_container_def km_simps my_ok upd_my_ok
      set_membership_live)

section \<open>Properties\<close>

text \<open>C33: joining a live container records the membership in both tables, the process's
  \<open>container_id\<close> and the container's \<open>proc\<close>, and leaving it takes both records back; no other process
  and no other container changes.\<close>

theorem join_leave_roundtrip:
  assumes "runs p m" "p_pid (ptab k p) = int q" "q < NPROC"
    and "0 < c" "c < NCONTAINER" "status (ctab k c) \<noteq> 0"
  shows "\<exists>k1 k2. join_container (int c) m k = Inr (0, m, k1) \<and>
    container_id (ptab k1 p) = int c \<and> cproc (ctab k1 c) q = 1 \<and>
    (\<forall>i. i \<noteq> p \<longrightarrow> ptab k1 i = ptab k i) \<and> (\<forall>d. d \<noteq> c \<longrightarrow> ctab k1 d = ctab k d) \<and>
    sys_leave_container m k1 = Inr (0, m, k2) \<and>
    container_id (ptab k2 p) = 0 \<and> cproc (ctab k2 c) = (cproc (ctab k c))(q := 0) \<and>
    (\<forall>i. i \<noteq> p \<longrightarrow> ptab k2 i = ptab k i) \<and> (\<forall>d. d \<noteq> c \<longrightarrow> ctab k2 d = ctab k d)"
proof -
  let ?k1 = "upd_container c (\<lambda>x. x\<lparr>cproc := (cproc x)(q := 1)\<rparr>) (upd_proc p (\<lambda>x. x\<lparr>container_id := int c\<rparr>) k)"
  have "join_container (int c) m k = Inr (0, m, ?k1)"
    using assms runsD(1) [OF assms(1)]
    by (simp add: join_step [OF assms(1)] set_process_to_container_def set_membership_live)
  moreover have "sys_leave_container m ?k1 = Inr (0, m, upd_proc p (\<lambda>x. x\<lparr>container_id := 0\<rparr>)
      (upd_container c (\<lambda>x. x\<lparr>cproc := (cproc x)(q := 0)\<rparr>) ?k1))"
    by (rule leave_step [OF assms(1)]) (use assms in simp_all)
  ultimately show ?thesis by simp
qed

theorem join_leave_roundtrip_witness:
  "\<exists>k1 k2 :: procs. join_container (int 2) (idle_mach (Some 0))
       (upd_container 2 (\<lambda>c. c\<lparr>status := 1\<rparr>) boot_procs) = Inr (0, idle_mach (Some 0), k1) \<and>
     container_id (ptab k1 0) = 2 \<and> sys_leave_container (idle_mach (Some 0)) k1 = Inr (0, idle_mach (Some 0), k2) \<and>
     container_id (ptab k2 0) = 0"
  using join_leave_roundtrip [of 0 "idle_mach (Some 0)" "upd_container 2 (\<lambda>c. c\<lparr>status := 1\<rparr>) boot_procs" 0 2]
  by (fastforce simp: const_defs unused_proc_def)



text \<open>C36: \<open>sys_recv\<close> tests the mailbox and goes to sleep in two critical sections.  When a message is
  sent between the two, its wakeup finds nobody asleep, and the receiver then sleeps with the
  message in its mailbox.\<close>

theorem recv_lost_wakeup:
  assumes "runs p m" "p < NPROC" "p_pid (ptab k p) = int q" "q < NUMOFMESSAGEQUEUES" "p_state (ptab k p) = RUNNING"
    and "quiet m2" "msg_inv (msgs k)" "mail (msgs k) q = []" "0 < free_count (msgs k)"
  shows "\<exists>k1 k2. with_msgs (isReceiverQueueEmpty (int q)) m k = Inr (1, m, k) \<and>
    bnd (with_msgs (send_message s (int q) msg)) (\<lambda>r. andthen (wakeup (ChanInt (int q))) (ret r)) m2 k = Inr (0, m2, k1) \<and>
    sleep_receiver [] m k1 = Inr (None, hold PtableLock m, k2) \<and>
    p_state (ptab k2 p) = SLEEPING \<and> p_chan (ptab k2 p) = ChanInt (int q) \<and>
    mail (msgs k2) q = [map msg [0..<MessageSize - 1]]"
proof -
  obtain s' where s': "send_message s (int q) msg m2 (msgs k) = Inr (0, m2, s')"
      "mail s' q = [map msg [0..<MessageSize - 1]]"
    using send_mail [OF assms(6,7,4,9), of s msg] assms(4,8) by auto
  let ?k1 = "wakeup1 (ChanInt (int q)) (k\<lparr>msgs := s'\<rparr>)"
  have k1: "ptab ?k1 p = ptab k p" "msgs ?k1 = s'"
    using assms(5) by (simp_all add: ptab_wakeup1) (simp add: wakeup1_def)
  have "with_msgs (isReceiverQueueEmpty (int q)) m k = Inr (1, m, k)"
    using assms(4,8) runsD(1) [OF assms(1)]
    by (simp add: with_msgs_def zoom_def isReceiverQueueEmpty_def km_simps mail_Nil_iff)
  moreover have "bnd (with_msgs (send_message s (int q) msg)) (\<lambda>r. andthen (wakeup (ChanInt (int q))) (ret r)) m2 k
      = Inr (0, m2, ?k1)"
    using s'(1) assms(6) by (simp add: with_msgs_def zoom_def km_simps wakeup_step)
  moreover have "sleep_receiver [] m ?k1 = Inr (None, hold PtableLock m,
      upd_proc p (\<lambda>x. x\<lparr>p_chan := ChanInt (int q), p_state := SLEEPING\<rparr>) ?k1)"
    using runsD [OF assms(1)] k1 assms(3)
    by (simp add: sleep_receiver_def km_simps my_ok curproc_hold sleep_blocks [OF assms(1)])
  ultimately show ?thesis using k1 s'(2) by simp
qed

theorem recv_lost_wakeup_witness:
  "\<exists>k1 k2 :: procs. sleep_receiver [] (idle_mach (Some 3)) k1 = Inr (None, hold PtableLock (idle_mach (Some 3)), k2) \<and>
     p_state (ptab k2 3) = SLEEPING \<and> mail (msgs k2) 0 = [map int [0..<MessageSize - 1]]"
  using recv_lost_wakeup [of 3 "idle_mach (Some 3)" "upd_proc 3 (\<lambda>x. x\<lparr>p_state := RUNNING\<rparr>) boot_procs" 0
      "idle_mach None" 9 int]
  by (fastforce simp: const_defs unused_proc_def boot_procs_def)

end
