(* ===== verification/Sleeplock.thy ===== *)
theory Sleeplock
  imports Sysproc
begin

text \<open>
  Long-term locks (\<^verbatim>\<open>sleeplock.c\<close>).  A sleep lock is named by a number: the buffers of the block
  cache have the numbers from 0, the i-nodes of the i-node cache those after them.  The lemmas show
  that an uncontended lock is taken without giving up the CPU, that a process that had to wait
  takes the lock only from a state in which it was free, and that releasing wakes every waiter.
\<close>

record sleeplock =
  sl_locked :: bool
  sl_pid :: int

record slstate = sysstate +
  slk :: "nat \<Rightarrow> sleeplock"

definition set_slk :: "nat \<Rightarrow> bool \<Rightarrow> int \<Rightarrow> 'a slstate_scheme \<Rightarrow> 'a slstate_scheme" where
  "set_slk l b q k = k\<lparr>slk := (slk k)(l := \<lparr>sl_locked = b, sl_pid = q\<rparr>)\<rparr>"

definition initsleeplock :: "nat \<Rightarrow> ('a slstate_scheme, unit) km" where
  "initsleeplock l = andthen (initlock (SleepLock l)) (upd (set_slk l False 0))"

text \<open>One turn of \<open>while (lk->locked) sleep(lk, &lk->lk);\<close>.\<close>

definition acquiresleep_turn :: "nat \<Rightarrow> unit \<Rightarrow> ('a slstate_scheme, unit + unit) bkm" where
  "acquiresleep_turn l _ =
     bbnd (lift (look (\<lambda>k. sl_locked (slk k l)))) (\<lambda>b.
     if b then bthen (sleep (ChanSleeplock l) (SleepLock l)) (bret (Inr ())) else bret (Inl ()))"

definition acquiresleep_take :: "nat \<Rightarrow> ('a slstate_scheme, unit) km" where
  "acquiresleep_take l =
     andthen (upd (\<lambda>k. k\<lparr>slk := (slk k)(l := (slk k l)\<lparr>sl_locked := True\<rparr>)\<rparr>)) (
     bnd (my p_pid) (\<lambda>q.
     andthen (upd (set_slk l True q)) (release (SleepLock l))))"

definition acquiresleep :: "nat \<Rightarrow> ('a slstate_scheme, unit) bkm" where
  "acquiresleep l =
     bthen (lift (acquire (SleepLock l))) (
     bthen (bwhile (acquiresleep_turn l) ()) (
     lift (acquiresleep_take l)))"

definition releasesleep :: "nat \<Rightarrow> ('a slstate_scheme, unit) km" where
  "releasesleep l =
     andthen (acquire (SleepLock l)) (
     andthen (upd (set_slk l False 0)) (
     andthen (wakeup (ChanSleeplock l)) (
     release (SleepLock l))))"

definition holdingsleep :: "nat \<Rightarrow> ('a slstate_scheme, bool) km" where
  "holdingsleep l =
     andthen (acquire (SleepLock l)) (
     bnd (look (\<lambda>k. slk k l)) (\<lambda>s.
     bnd (if sl_locked s then bnd (my p_pid) (\<lambda>q. ret (sl_pid s = q)) else ret False) (\<lambda>r.
     andthen (release (SleepLock l)) (ret r))))"

section \<open>Runs that return\<close>

lemma bnd_InrE:
  assumes "bnd f g m k = Inr (y, m', k')"
  obtains x m1 k1 where "f m k = Inr (x, m1, k1)" "g x m1 k1 = Inr (y, m', k')"
  using assms by (auto simp: bnd_def split: sum.splits)

lemma bbnd_SomeE:
  assumes "bbnd f g es m k = Inr (Some (y, es'), m', k')"
  obtains x es1 m1 k1 where "f es m k = Inr (Some (x, es1), m1, k1)" "g x es1 m1 k1 = Inr (Some (y, es'), m', k')"
  using assms by (auto simp: bbnd_def bnd_def ret_def split: sum.splits option.splits)

lemma lift_SomeE:
  assumes "lift f es m k = Inr (Some (y, es'), m', k')"
  obtains "f m k = Inr (y, m', k')" "es' = es"
  using assms by (auto simp: lift_def bnd_def ret_def split: sum.splits)

section \<open>Uncontended use\<close>

lemma set_slk_sel [simp]:
  "slk (set_slk l b q k) = (slk k)(l := \<lparr>sl_locked = b, sl_pid = q\<rparr>)" "ptab (set_slk l b q k) = ptab k"
  by (simp_all add: set_slk_def)

lemma slk_wakeup1 [simp]: "slk (wakeup1 ch k) = slk k"
  by (simp add: wakeup1_def)

lemma set_slk_absorb:
  "slk k = s \<Longrightarrow> set_slk l b q (k\<lparr>slk := s(l := v)\<rparr>) = set_slk l b q k"
  by (auto simp: set_slk_def)

lemma my_hold:
  assumes "runs p m"
  shows "my f (hold l m) k = Inr (f (ptab k p), hold l m, k)"
  using runsD [OF assms] by (intro my_ok) (simp_all add: curproc_hold)

lemma acquiresleep_free:
  assumes "runs p m" "\<not> sl_locked (slk k l)"
  shows "acquiresleep l es m k = Inr (Some ((), es), m, set_slk l True (p_pid (ptab k p)) k)"
  using assms(2) runsD(1) [OF assms(1)]
  by (simp add: acquiresleep_def acquiresleep_turn_def acquiresleep_take_def bwhile_def km_simps
      my_hold [OF assms(1)] set_slk_absorb)

lemma releasesleep_step:
  assumes "runs p m"
  shows "releasesleep l m k = Inr ((), m, wakeup1 (ChanSleeplock l) (set_slk l False 0 k))"
  using runsD(1) [OF assms] by (simp add: releasesleep_def km_simps wakeup_step)

lemma holdingsleep_step:
  assumes "runs p m"
  shows "holdingsleep l m k = Inr (sl_locked (slk k l) \<and> sl_pid (slk k l) = p_pid (ptab k p), m, k)"
  using runsD(1) [OF assms] by (simp add: holdingsleep_def km_simps my_hold [OF assms])

section \<open>Contention\<close>

lemma acquiresleep_loop_free:
  "bloop n (acquiresleep_turn l) () es m k = Inr (Some ((), es'), m', k') \<Longrightarrow> \<not> sl_locked (slk k' l)"
proof (induction n arbitrary: es m k)
  case 0
  then show ?case by (simp add: km_simps)
next
  case (Suc n)
  show ?case
  proof (cases "sl_locked (slk k l)")
    case False
    then show ?thesis using Suc.prems by (simp add: acquiresleep_turn_def km_simps)
  next
    case True
    from Suc.prems obtain r es1 m1 k1 where r: "acquiresleep_turn l () es m k = Inr (Some (r, es1), m1, k1)"
      and rest: "(case r of Inl x \<Rightarrow> bret x | Inr l' \<Rightarrow> bloop n (acquiresleep_turn l) l') es1 m1 k1
        = Inr (Some ((), es'), m', k')"
      unfolding bloop.simps by (rule bbnd_SomeE)
    from r True have "r = Inr ()"
      by (auto simp: acquiresleep_turn_def km_simps split: sum.splits option.splits)
    with rest have "bloop n (acquiresleep_turn l) () es1 m1 k1 = Inr (Some ((), es'), m', k')" by simp
    then show ?thesis by (rule Suc.IH)
  qed
qed

lemma release_state: "release l m k = Inr (u, m', k') \<Longrightarrow> k' = k"
  by (auto simp: release_def holding_def pushcli_def popcli_def mycpu_def cli_def sti_def km_simps
      split: sum.splits if_splits option.splits)

lemma my_state: "my f m k = Inr (x, m', k') \<Longrightarrow> k' = k"
  by (auto simp: my_def curproc_id_def myproc_def pushcli_def popcli_def mycpu_def cli_def sti_def km_simps
      split: sum.splits if_splits option.splits)

lemma acquiresleep_take_state:
  assumes "acquiresleep_take l m k = Inr (u, m', k')"
  shows "\<exists>q. k' = set_slk l True q k"
proof -
  let ?k = "k\<lparr>slk := (slk k)(l := (slk k l)\<lparr>sl_locked := True\<rparr>)\<rparr>"
  obtain q m1 k1 where q: "my p_pid m ?k = Inr (q, m1, k1)"
    using assms by (auto simp: acquiresleep_take_def km_simps split: sum.splits)
  then have "release (SleepLock l) m1 (set_slk l True q k1) = Inr (u, m', k')"
    using assms by (simp add: acquiresleep_take_def km_simps)
  with my_state [OF q] show ?thesis by (auto dest!: release_state simp: set_slk_absorb)
qed

text \<open>A process that has to wait once: the episode it sleeps through frees the lock.\<close>

lemma slk_upd_proc [simp]: "slk (upd_proc p f k) = slk k"
  by (simp add: upd_proc_def)

lemma acquiresleep_wait:
  assumes "runs p m" "sl_locked (slk k l)" "\<not> sl_locked (slk k1 l)"
    and e: "e (hold PtableLock m) (upd_proc p (\<lambda>q. q\<lparr>p_chan := ChanSleeplock l, p_state := SLEEPING\<rparr>) k)
      = (hold PtableLock m, k1)"
  shows "acquiresleep l (e # es) m k = Inr (Some ((), es), m,
    set_slk l True (p_pid (ptab k1 p)) (upd_proc p (\<lambda>q. q\<lparr>p_chan := ChanInt 0\<rparr>) k1))"
  using assms(2,3) runsD(1) [OF assms(1)]
  by (simp add: acquiresleep_def acquiresleep_turn_def acquiresleep_take_def bwhile_def km_simps
      my_hold [OF assms(1)] set_slk_absorb sleep_returns [of p m e "ChanSleeplock l" k k1, OF assms(1) e])

text \<open>A booted machine on which process slot 0 waits for lock 7, held by process 12.\<close>

definition boot_sys :: sysstate where
  "boot_sys = procs.extend boot_procs (sysstate.fields 0 (\<lambda>_. 0) (\<lambda>_. 0) 0 [])"

definition slk_example :: slstate where
  "slk_example = sysstate.extend boot_sys (slstate.fields (\<lambda>l. \<lparr>sl_locked = (l = 7), sl_pid = if l = 7 then 12 else 0\<rparr>))"

section \<open>Properties\<close>



end
