(* ===== verification/Bio.thy ===== *)
theory Bio
  imports Sleeplock
begin

text \<open>
  The block cache (\<^verbatim>\<open>bio.c\<close>) over the memory disk (\<^verbatim>\<open>memide.c\<close>, the driver of the build without a
  scratch disk).  The cache is the doubly linked list of the code: \<open>b_prev\<close> and \<open>b_next\<close> are buffer
  numbers, and \<open>NBUF\<close> is the list head.  A block is an array of \<open>BSIZE\<close> bytes; indices from \<open>BSIZE\<close> on
  have no meaning.

  The lemmas show that the pointer surgery of \<open>brelse\<close> moves the buffer to the front of the list, that
  a search along the pointers finds the first match and ends, and that \<open>bread\<close> returns the current
  contents of the block, cached or not, in a buffer the caller has to itself.
\<close>

section \<open>State\<close>

type_synonym block = "nat \<Rightarrow> uchar"

definition BSIZE :: nat where "BSIZE = 512"
definition NBUF :: nat where "NBUF = 30"
definition B_VALID :: uint where "B_VALID = 2"
definition B_DIRTY :: uint where "B_DIRTY = 4"

record buf =
  b_flags :: uint
  b_dev :: uint
  b_blockno :: uint
  b_refcnt :: uint
  b_prev :: nat
  b_next :: nat
  b_data :: block

text \<open>
  \<open>disk_writes\<close> is the history of the blocks written to the disk, in order; the code does not read it.
\<close>

record disk_state = slstate +
  bufs :: "nat \<Rightarrow> buf"
  memdisk :: "nat \<Rightarrow> block"
  disksize :: uint
  disk_writes :: "(nat \<times> block) list"

definition upd_buf :: "nat \<Rightarrow> (buf \<Rightarrow> buf) \<Rightarrow> 'a disk_state_scheme \<Rightarrow> 'a disk_state_scheme" where
  "upd_buf b f k = k\<lparr>bufs := (bufs k)(b := f (bufs k b))\<rparr>"

text \<open>The number of the sleep lock in buffer \<open>b\<close>.\<close>

definition buf_lock :: "nat \<Rightarrow> nat" where
  "buf_lock b = b"

section \<open>memide.c\<close>

definition iderw :: "nat \<Rightarrow> ('a disk_state_scheme, unit) km" where
  "iderw b =
     bnd (holdingsleep (buf_lock b)) (\<lambda>h.
     if \<not> h then fail (Panic ''iderw: buf not locked'')
     else bnd (look (\<lambda>k. bufs k b)) (\<lambda>bf. bnd (look disksize) (\<lambda>sz.
       if b_flags bf AND (B_VALID OR B_DIRTY) = B_VALID then fail (Panic ''iderw: nothing to do'')
       else if b_dev bf \<noteq> 1 then fail (Panic ''iderw: request not for disk 1'')
       else if b_blockno bf \<ge> sz then fail (Panic ''iderw: block out of range'')
       else
         let p = unat (b_blockno bf) in
         andthen (if b_flags bf AND B_DIRTY \<noteq> 0
           then upd (\<lambda>k. (upd_buf b (\<lambda>x. x\<lparr>b_flags := b_flags x AND NOT B_DIRTY\<rparr>) k)
                  \<lparr>memdisk := (memdisk k)(p := b_data bf), disk_writes := disk_writes k @ [(p, b_data bf)]\<rparr>)
           else upd (\<lambda>k. upd_buf b (\<lambda>x. x\<lparr>b_data := memdisk k p\<rparr>) k))
         (upd (upd_buf b (\<lambda>x. x\<lparr>b_flags := b_flags x OR B_VALID\<rparr>))))))"

section \<open>bio.c\<close>

definition binit_one :: "nat \<Rightarrow> ('a disk_state_scheme, unit) km" where
  "binit_one b =
     bnd (look (\<lambda>k. b_next (bufs k NBUF))) (\<lambda>first.
     andthen (upd (upd_buf b (\<lambda>x. x\<lparr>b_next := first, b_prev := NBUF\<rparr>))) (
     andthen (initsleeplock (buf_lock b)) (
     andthen (upd (upd_buf first (\<lambda>x. x\<lparr>b_prev := b\<rparr>))) (
     upd (upd_buf NBUF (\<lambda>x. x\<lparr>b_next := b\<rparr>))))))"

definition binit :: "('a disk_state_scheme, unit) km" where
  "binit =
     andthen (initlock BcacheLock) (
     andthen (upd (upd_buf NBUF (\<lambda>x. x\<lparr>b_prev := NBUF, b_next := NBUF\<rparr>))) (
     for_each binit_one [0..<NBUF]))"

text \<open>
  The loop \<open>for(b = head.next; b != &head; b = b->next) if(P(b)) ...\<close>: the outer \<open>None\<close> is a walk that
  does not come back to the head.
\<close>

primrec bsearch :: "nat \<Rightarrow> (nat \<Rightarrow> nat) \<Rightarrow> (nat \<Rightarrow> bool) \<Rightarrow> nat \<Rightarrow> nat option option" where
  "bsearch 0 nx P b = None"
| "bsearch (Suc n) nx P b =
     (if b = NBUF then Some None else if P b then Some (Some b) else bsearch n nx P (nx b))"

definition bfind :: "('a disk_state_scheme \<Rightarrow> nat \<Rightarrow> nat) \<Rightarrow> (buf \<Rightarrow> bool) \<Rightarrow> ('a disk_state_scheme, nat option) km" where
  "bfind nx P =
     bnd (look (\<lambda>k. bsearch (Suc NBUF) (nx k) (\<lambda>b. P (bufs k b)) (nx k NBUF))) (\<lambda>r. case r of
       None \<Rightarrow> fail (Stuck ''bcache list'')
     | Some x \<Rightarrow> ret x)"

abbreviation next_of :: "'a disk_state_scheme \<Rightarrow> nat \<Rightarrow> nat" where
  "next_of k b \<equiv> b_next (bufs k b)"

abbreviation prev_of :: "'a disk_state_scheme \<Rightarrow> nat \<Rightarrow> nat" where
  "prev_of k b \<equiv> b_prev (bufs k b)"

definition bget :: "uint \<Rightarrow> uint \<Rightarrow> ('a disk_state_scheme, nat) bkm" where
  "bget dev bno =
     bthen (lift (acquire BcacheLock)) (
     bbnd (lift (bfind next_of (\<lambda>x. b_dev x = dev \<and> b_blockno x = bno))) (\<lambda>r. case r of
       Some b \<Rightarrow>
         bthen (lift (upd (upd_buf b (\<lambda>x. x\<lparr>b_refcnt := b_refcnt x + 1\<rparr>)))) (
         bthen (lift (release BcacheLock)) (
         bthen (acquiresleep (buf_lock b)) (bret b)))
     | None \<Rightarrow>
         bbnd (lift (bfind prev_of (\<lambda>x. b_refcnt x = 0 \<and> b_flags x AND B_DIRTY = 0))) (\<lambda>r. case r of
           Some b \<Rightarrow>
             bthen (lift (upd (upd_buf b (\<lambda>x. x\<lparr>b_dev := dev, b_blockno := bno, b_flags := 0, b_refcnt := 1\<rparr>)))) (
             bthen (lift (release BcacheLock)) (
             bthen (acquiresleep (buf_lock b)) (bret b)))
         | None \<Rightarrow> lift (fail (Panic ''bget: no buffers'')))))"

definition bread :: "uint \<Rightarrow> uint \<Rightarrow> ('a disk_state_scheme, nat) bkm" where
  "bread dev bno =
     bbnd (bget dev bno) (\<lambda>b.
     bbnd (lift (look (\<lambda>k. b_flags (bufs k b)))) (\<lambda>fl.
     bthen (if fl AND B_VALID = 0 then lift (iderw b) else bret ()) (
     bret b)))"

definition bwrite :: "nat \<Rightarrow> ('a disk_state_scheme, unit) km" where
  "bwrite b =
     bnd (holdingsleep (buf_lock b)) (\<lambda>h.
     if \<not> h then fail (Panic ''bwrite'')
     else andthen (upd (upd_buf b (\<lambda>x. x\<lparr>b_flags := b_flags x OR B_DIRTY\<rparr>))) (iderw b))"

text \<open>The assignments of \<open>brelse\<close> that move \<open>b\<close> to the front, one by one.\<close>

definition to_front :: "nat \<Rightarrow> 'a disk_state_scheme \<Rightarrow> 'a disk_state_scheme" where
  "to_front b k =
     (let k1 = upd_buf (next_of k b) (\<lambda>x. x\<lparr>b_prev := prev_of k b\<rparr>) k;
          k2 = upd_buf (prev_of k1 b) (\<lambda>x. x\<lparr>b_next := next_of k1 b\<rparr>) k1;
          k3 = upd_buf b (\<lambda>x. x\<lparr>b_next := next_of k2 NBUF\<rparr>) k2;
          k4 = upd_buf b (\<lambda>x. x\<lparr>b_prev := NBUF\<rparr>) k3;
          k5 = upd_buf (next_of k4 NBUF) (\<lambda>x. x\<lparr>b_prev := b\<rparr>) k4
      in upd_buf NBUF (\<lambda>x. x\<lparr>b_next := b\<rparr>) k5)"

definition brelse :: "nat \<Rightarrow> ('a disk_state_scheme, unit) km" where
  "brelse b =
     bnd (holdingsleep (buf_lock b)) (\<lambda>h.
     if \<not> h then fail (Panic ''brelse'')
     else
       andthen (releasesleep (buf_lock b)) (
       andthen (acquire BcacheLock) (
       andthen (upd (upd_buf b (\<lambda>x. x\<lparr>b_refcnt := b_refcnt x - 1\<rparr>))) (
       bnd (look (\<lambda>k. b_refcnt (bufs k b))) (\<lambda>n.
       andthen (if n = 0 then upd (to_front b) else ret ()) (
       release BcacheLock))))))"

section \<open>The linked list\<close>

text \<open>\<open>path nx a xs c\<close>: following \<open>nx\<close> from \<open>a\<close> one meets the nodes \<open>xs\<close> and then \<open>c\<close>.\<close>

primrec path :: "(nat \<Rightarrow> nat) \<Rightarrow> nat \<Rightarrow> nat list \<Rightarrow> nat \<Rightarrow> bool" where
  "path nx a [] c \<longleftrightarrow> nx a = c"
| "path nx a (x # xs) c \<longleftrightarrow> nx a = x \<and> path nx x xs c"

definition dll :: "(nat \<Rightarrow> nat) \<Rightarrow> (nat \<Rightarrow> nat) \<Rightarrow> nat list \<Rightarrow> bool" where
  "dll nx pv xs \<longleftrightarrow> distinct (NBUF # xs) \<and> path nx NBUF xs NBUF \<and> path pv NBUF (rev xs) NBUF"

lemma path_append: "path nx a (xs @ y # ys) c \<longleftrightarrow> path nx a xs y \<and> path nx y ys c"
proof (induction xs arbitrary: a)
  case (Cons x xs)
  show ?case unfolding append_Cons path.simps Cons.IH by blast
qed simp

lemma path_upd_other: "z \<notin> set (a # xs) \<Longrightarrow> path (nx(z := v)) a xs c \<longleftrightarrow> path nx a xs c"
proof (induction xs arbitrary: a)
  case (Cons x xs)
  have "path (nx(z := v)) x xs c = path nx x xs c" by (rule Cons.IH) (use Cons.prems in simp)
  then show ?case using Cons.prems by (simp add: fun_upd_other del: fun_upd_apply)
qed simp

lemma path_redirect:
  "path nx a xs c \<Longrightarrow> distinct (a # xs) \<Longrightarrow> z = last (a # xs) \<Longrightarrow> path (nx(z := d)) a xs d"
proof (induction xs arbitrary: a)
  case (Cons x xs)
  have "path (nx(z := d)) x xs d" by (rule Cons.IH) (use Cons.prems in simp_all)
  moreover have "z \<noteq> a" using Cons.prems by (auto split: if_splits)
  ultimately show ?case using Cons.prems(1) by (simp add: fun_upd_other del: fun_upd_apply)
qed simp

lemma path_start: "path nx a xs c \<Longrightarrow> nx a = hd (xs @ [c])"
  by (cases xs) auto

lemma path_from: "path nx a xs c \<Longrightarrow> nx b = nx a \<Longrightarrow> path nx b xs c"
  by (cases xs) auto

lemma path_end: "path nx a xs c \<Longrightarrow> nx (last (a # xs)) = c"
proof (induction xs arbitrary: a)
  case (Cons x xs)
  have "nx (last (x # xs)) = c" by (rule Cons.IH) (use Cons.prems in simp)
  then show ?case by simp
qed simp

text \<open>Taking a node out of a path: its predecessor is made to point to its successor.\<close>

lemma path_unlink:
  assumes "path nx h (as @ x # bs) c" "distinct (h # as @ x # bs)" "p = last (h # as)"
  shows "path (nx(p := nx x)) h (as @ bs) c"
proof -
  have as: "path nx h as x" and bs: "path nx x bs c" using assms(1) by (simp_all add: path_append)
  have pre: "path (nx(p := nx x)) h as (nx x)"
    by (rule path_redirect [OF as]) (use assms in auto)
  show ?thesis
  proof (cases bs)
    case Nil
    then show ?thesis using pre bs by simp
  next
    case (Cons b bs')
    have "p \<notin> set (b # bs')"
      using assms(2,3) Cons by (cases as rule: rev_cases) auto
    then show ?thesis
      using pre bs Cons by (simp add: path_append path_upd_other)
  qed
qed

lemma bsearch_path:
  "path nx a xs NBUF \<Longrightarrow> NBUF \<notin> set xs \<Longrightarrow> length xs < n \<Longrightarrow> bsearch n nx P (nx a) = Some (find P xs)"
proof (induction xs arbitrary: a n)
  case Nil
  then show ?case by (cases n) auto
next
  case (Cons x xs)
  then show ?case by (cases n) auto
qed

lemma dll_find:
  assumes "dll nx pv xs" "length xs \<le> NBUF"
  shows "bsearch (Suc NBUF) nx P (nx NBUF) = Some (find P xs)"
    "bsearch (Suc NBUF) pv P (pv NBUF) = Some (find P (rev xs))"
  using assms bsearch_path [of nx NBUF xs "Suc NBUF" P] bsearch_path [of pv NBUF "rev xs" "Suc NBUF" P]
  by (auto simp: dll_def simp del: bsearch.simps)

lemma dll_neighbours:
  assumes "dll nx pv (as @ x # bs)"
  shows "nx x = hd (bs @ [NBUF])" "pv x = last (NBUF # as)" "nx x \<noteq> x" "pv x \<noteq> x" "x \<noteq> NBUF"
proof -
  have p: "path nx x bs NBUF" "path pv x (rev as) NBUF" and d: "distinct (NBUF # as @ x # bs)"
    using assms by (simp_all add: dll_def path_append)
  show n: "nx x = hd (bs @ [NBUF])" using path_start [OF p(1)] .
  show q: "pv x = last (NBUF # as)"
    using path_start [OF p(2)] by (cases as rule: rev_cases) auto
  show "nx x \<noteq> x" using n d by (cases bs) auto
  show "pv x \<noteq> x" using q d by (cases as rule: rev_cases) auto
  show "x \<noteq> NBUF" using d by auto
qed

lemma dll_unlink:
  assumes "dll nx pv (as @ x # bs)"
  shows "dll (nx(pv x := nx x)) (pv(nx x := pv x)) (as @ bs)"
proof -
  have d: "distinct (NBUF # as @ x # bs)" and n: "path nx NBUF (as @ x # bs) NBUF"
    and p: "path pv NBUF (rev bs @ x # rev as) NBUF"
    using assms by (simp_all add: dll_def)
  have "path (nx(pv x := nx x)) NBUF (as @ bs) NBUF"
    by (rule path_unlink [OF n d]) (rule dll_neighbours(2) [OF assms])
  moreover have "nx x = last (NBUF # rev bs)"
    using dll_neighbours(1) [OF assms] by (cases bs) auto
  then have "path (pv(nx x := pv x)) NBUF (rev bs @ rev as) NBUF"
    by (intro path_unlink [OF p]) (use d in auto)
  ultimately show ?thesis using d by (auto simp: dll_def)
qed

lemma dll_insert:
  assumes "dll nx pv xs" "x \<notin> set xs" "x \<noteq> NBUF"
  shows "dll (nx(x := nx NBUF, NBUF := x)) (pv(x := NBUF, nx NBUF := x)) (x # xs)"
proof -
  have d: "distinct (NBUF # xs)" and n: "path nx NBUF xs NBUF" and p: "path pv NBUF (rev xs) NBUF"
    using assms(1) by (simp_all add: dll_def)
  have first: "nx NBUF = last (NBUF # rev xs)"
    using path_start [OF n] by (cases xs) auto
  have "path (nx(x := nx NBUF)) x xs NBUF"
  proof (rule path_from [of _ NBUF])
    show "path (nx(x := nx NBUF)) NBUF xs NBUF"
      using n assms(2,3) by (subst path_upd_other) auto
  qed (use assms(3) in auto)
  then have "path (nx(x := nx NBUF, NBUF := x)) x xs NBUF"
    using d assms(3) by (subst path_upd_other) auto
  moreover have "path (pv(x := NBUF, nx NBUF := x)) NBUF (rev xs) x"
  proof (rule path_redirect)
    show "path (pv(x := NBUF)) NBUF (rev xs) NBUF"
      using p assms(2,3) by (subst path_upd_other) auto
  qed (use d first in auto)
  moreover have "nx NBUF \<noteq> x"
    using first assms(2,3) by (cases xs) auto
  ultimately show ?thesis
    using d assms(2,3) by (auto simp: dll_def path_append)
qed

lemma bufs_upd_buf [simp]: "bufs (upd_buf b f k) = (bufs k)(b := f (bufs k b))"
  by (simp add: upd_buf_def)

lemma next_of_upd:
  "next_of (upd_buf a (b_next_update (\<lambda>_. v)) k) = (next_of k)(a := v)"
  "next_of (upd_buf a (b_prev_update (\<lambda>_. v)) k) = next_of k"
  "prev_of (upd_buf a (b_prev_update (\<lambda>_. v)) k) = (prev_of k)(a := v)"
  "prev_of (upd_buf a (b_next_update (\<lambda>_. v)) k) = prev_of k"
  by (auto simp: fun_eq_iff)

text \<open>\<open>to_front\<close> is the two steps.\<close>

lemma to_front_links:
  assumes "dll (next_of k) (prev_of k) (as @ b # bs)"
    and "nx1 = (next_of k)(prev_of k b := next_of k b)" "pv1 = (prev_of k)(next_of k b := prev_of k b)"
  shows "next_of (to_front b k) = nx1(b := nx1 NBUF, NBUF := b) \<and>
    prev_of (to_front b k) = pv1(b := NBUF, nx1 NBUF := b)"
proof -
  note nb = dll_neighbours(3-5) [OF assms(1)]
  define k1 where "k1 = upd_buf (next_of k b) (b_prev_update (\<lambda>_. prev_of k b)) k"
  define k2 where "k2 = upd_buf (prev_of k1 b) (b_next_update (\<lambda>_. next_of k1 b)) k1"
  define k3 where "k3 = upd_buf b (b_next_update (\<lambda>_. next_of k2 NBUF)) k2"
  define k4 where "k4 = upd_buf b (b_prev_update (\<lambda>_. NBUF)) k3"
  define k5 where "k5 = upd_buf (next_of k4 NBUF) (b_prev_update (\<lambda>_. b)) k4"
  have k6: "to_front b k = upd_buf NBUF (b_next_update (\<lambda>_. b)) k5"
    unfolding to_front_def Let_def k5_def k4_def k3_def k2_def k1_def by (rule refl)
  have 1: "next_of k1 = next_of k" "prev_of k1 = pv1"
    unfolding k1_def next_of_upd assms(3) by simp_all
  have b1: "prev_of k1 b = prev_of k b" "next_of k1 b = next_of k b"
    using nb(1) fun_cong [OF 1(1), of b] fun_cong [OF 1(2), of b] by (simp_all add: assms(3))
  have 2: "next_of k2 = nx1" "prev_of k2 = pv1"
    unfolding k2_def next_of_upd 1 b1 assms(2) by simp_all
  have 3: "next_of k3 = nx1(b := nx1 NBUF)" "prev_of k3 = pv1"
    unfolding k3_def next_of_upd 2 fun_cong [OF 2(1), of NBUF] by simp_all
  have 4: "next_of k4 = nx1(b := nx1 NBUF)" "prev_of k4 = pv1(b := NBUF)"
    unfolding k4_def next_of_upd 3 by simp_all
  have b4: "next_of k4 NBUF = nx1 NBUF"
    using fun_cong [OF 4(1), of NBUF] nb(3) by simp
  show ?thesis
    unfolding k6 k5_def next_of_upd 4 b4 by simp
qed

lemma to_front_dll:
  assumes "dll (next_of k) (prev_of k) (as @ b # bs)"
  shows "dll (next_of (to_front b k)) (prev_of (to_front b k)) (b # as @ bs)"
  unfolding conjunct1 [OF to_front_links [OF assms refl refl]] conjunct2 [OF to_front_links [OF assms refl refl]]
  by (rule dll_insert [OF dll_unlink [OF assms]])
    (use assms dll_neighbours(5) [OF assms] in \<open>auto simp: dll_def\<close>)

section \<open>Flags\<close>

abbreviation valid :: "buf \<Rightarrow> bool" where
  "valid x \<equiv> b_flags x AND B_VALID \<noteq> 0"

abbreviation dirty :: "buf \<Rightarrow> bool" where
  "dirty x \<equiv> b_flags x AND B_DIRTY \<noteq> 0"

lemma flag_bits: "f AND B_VALID = 0 \<longleftrightarrow> \<not> bit f 1" "f AND B_DIRTY = 0 \<longleftrightarrow> \<not> bit f 2"
  using and_exp_eq_0_iff_not_bit [of f 1] and_exp_eq_0_iff_not_bit [of f 2]
  by (simp_all add: B_VALID_def B_DIRTY_def)

lemma bit_flags:
  "bit B_VALID n \<longleftrightarrow> n = 1" "bit B_DIRTY n \<longleftrightarrow> n = 2"
proof -
  have e: "B_VALID = 2 ^ 1" "B_DIRTY = 2 ^ 2" by (simp_all add: B_VALID_def B_DIRTY_def)
  show "bit B_VALID n \<longleftrightarrow> n = 1" unfolding e by (subst bit_exp_iff) auto
  show "bit B_DIRTY n \<longleftrightarrow> n = 2" unfolding e by (subst bit_exp_iff) auto
qed

lemma flags_nonzero [simp]: "B_DIRTY \<noteq> 0" "B_VALID \<noteq> 0"
  by (simp_all add: B_DIRTY_def B_VALID_def)

lemma flag_ops [simp]:
  "(f OR B_VALID) AND B_VALID \<noteq> 0" "(f OR B_VALID) AND B_DIRTY = 0 \<longleftrightarrow> f AND B_DIRTY = 0"
  "(f OR B_DIRTY) AND B_DIRTY \<noteq> 0" "(f OR B_DIRTY) AND B_VALID = 0 \<longleftrightarrow> f AND B_VALID = 0"
  "(f AND NOT B_DIRTY) AND B_DIRTY = 0" "(f AND NOT B_DIRTY) AND B_VALID = 0 \<longleftrightarrow> f AND B_VALID = 0"
  by (simp_all only: flag_bits) (auto simp: bit_simps bit_flags)

lemma flag_clean: "f AND (B_VALID OR B_DIRTY) = B_VALID \<longleftrightarrow> f AND B_VALID \<noteq> 0 \<and> f AND B_DIRTY = 0"
proof -
  have "f AND (B_VALID OR B_DIRTY) = B_VALID \<longleftrightarrow> bit f 1 \<and> \<not> bit f 2"
  proof
    assume a: "f AND (B_VALID OR B_DIRTY) = B_VALID"
    have "bit (f AND (B_VALID OR B_DIRTY)) 1" "\<not> bit (f AND (B_VALID OR B_DIRTY)) 2"
      unfolding a by (simp_all add: bit_flags)
    then show "bit f 1 \<and> \<not> bit f 2" by (simp add: bit_simps bit_flags)
  next
    assume "bit f 1 \<and> \<not> bit f 2"
    then show "f AND (B_VALID OR B_DIRTY) = B_VALID"
      by (intro bit_word_eqI) (auto simp: bit_simps bit_flags)
  qed
  then show ?thesis by (simp only: flag_bits not_not)
qed

section \<open>One call at a time\<close>

text \<open>The buffer is locked by process \<open>p\<close>.\<close>

definition buf_mine :: "nat \<Rightarrow> nat \<Rightarrow> 'a disk_state_scheme \<Rightarrow> bool" where
  "buf_mine p b k \<longleftrightarrow> slk k b = \<lparr>sl_locked = True, sl_pid = p_pid (ptab k p)\<rparr>"

lemma upd_buf_sel [simp]:
  "slk (upd_buf b f k) = slk k" "ptab (upd_buf b f k) = ptab k" "memdisk (upd_buf b f k) = memdisk k"
  "disksize (upd_buf b f k) = disksize k" "disk_writes (upd_buf b f k) = disk_writes k"
  "disk_state.more (upd_buf b f k) = disk_state.more k"
  by (simp_all add: upd_buf_def)

lemma set_slk_disk [simp]:
  "bufs (set_slk l v q k) = bufs k" "memdisk (set_slk l v q k) = memdisk k" "disksize (set_slk l v q k) = disksize k"
  "disk_writes (set_slk l v q k) = disk_writes k" "disk_state.more (set_slk l v q k) = disk_state.more k"
  by (simp_all add: set_slk_def)

lemma wakeup1_disk [simp]:
  "bufs (wakeup1 ch k) = bufs k" "memdisk (wakeup1 ch k) = memdisk k" "disksize (wakeup1 ch k) = disksize k"
  "disk_writes (wakeup1 ch k) = disk_writes k" "disk_state.more (wakeup1 ch k) = disk_state.more k"
  "p_pid (ptab (wakeup1 ch k) i) = p_pid (ptab k i)"
  by (simp_all add: wakeup1_def Let_def)

lemma holding_mine:
  "runs p m \<Longrightarrow> buf_mine p b k \<Longrightarrow> holdingsleep (buf_lock b) m k = Inr (True, m, k)"
  by (simp add: holdingsleep_step buf_mine_def buf_lock_def)

definition loaded :: "nat \<Rightarrow> 'a disk_state_scheme \<Rightarrow> 'a disk_state_scheme" where
  "loaded b k = upd_buf b (\<lambda>x. x\<lparr>b_data := memdisk k (unat (b_blockno x)), b_flags := b_flags x OR B_VALID\<rparr>) k"

lemma iderw_read:
  assumes "runs p m" "buf_mine p b k" "\<not> valid (bufs k b)" "\<not> dirty (bufs k b)" "b_dev (bufs k b) = 1"
    and "b_blockno (bufs k b) < disksize k"
  shows "iderw b m k = Inr ((), m, loaded b k)"
  using assms
  by (simp add: iderw_def km_simps holding_mine flag_clean not_le Let_def loaded_def upd_buf_def)

definition flushed :: "nat \<Rightarrow> 'a disk_state_scheme \<Rightarrow> 'a disk_state_scheme" where
  "flushed b k = (upd_buf b (\<lambda>x. x\<lparr>b_flags := ((b_flags x OR B_DIRTY) AND NOT B_DIRTY) OR B_VALID\<rparr>) k)
     \<lparr>memdisk := (memdisk k)(unat (b_blockno (bufs k b)) := b_data (bufs k b)),
      disk_writes := disk_writes k @ [(unat (b_blockno (bufs k b)), b_data (bufs k b))]\<rparr>"

lemma bwrite_step:
  assumes "runs p m" "buf_mine p b k" "b_dev (bufs k b) = 1" "b_blockno (bufs k b) < disksize k"
  shows "bwrite b m k = Inr ((), m, flushed b k)"
proof -
  have "buf_mine p b (upd_buf b f k)" for f using assms(2) by (simp add: buf_mine_def)
  then show ?thesis
    using assms
    by (simp add: bwrite_def iderw_def km_simps holding_mine flag_clean not_le Let_def flushed_def upd_buf_def)
qed

lemma brelse_step:
  assumes "runs p m" "buf_mine p b k" "b_refcnt (bufs k b) = 1"
  shows "brelse b m k = Inr ((), m, to_front b (upd_buf b (\<lambda>x. x\<lparr>b_refcnt := 0\<rparr>)
    (wakeup1 (ChanSleeplock b) (set_slk b False 0 k))))"
proof -
  have "upd_buf b (\<lambda>x. x\<lparr>b_refcnt := b_refcnt x - 1\<rparr>) (wakeup1 (ChanSleeplock b) (set_slk b False 0 k))
      = upd_buf b (\<lambda>x. x\<lparr>b_refcnt := 0\<rparr>) (wakeup1 (ChanSleeplock b) (set_slk b False 0 k))"
    using assms(3) by (simp add: upd_buf_def)
  then show ?thesis
    using assms(3) runsD(1) [OF assms(1)]
    by (simp add: brelse_def km_simps holding_mine [OF assms(1,2), unfolded buf_lock_def]
        releasesleep_step [OF assms(1)] buf_lock_def)
qed

section \<open>The cache as one process sees it\<close>

text \<open>
  \<open>cache_ok p H k\<close>: process \<open>p\<close> holds exactly the buffers \<open>H\<close> and nobody holds another; the list links
  all buffers; no block is cached twice; a buffer that is neither held nor pinned by the log agrees
  with the disk.
\<close>

definition buf_ok :: "nat \<Rightarrow> nat set \<Rightarrow> 'a disk_state_scheme \<Rightarrow> nat \<Rightarrow> bool" where
  "buf_ok p H k b \<longleftrightarrow> (let x = bufs k b in
     (if b \<in> H then b_refcnt x = 1 \<and> buf_mine p b k \<and> b_dev x = 1 \<and> valid x
      else b_refcnt x = 0 \<and> \<not> sl_locked (slk k b)) \<and>
     (dirty x \<longrightarrow> valid x \<and> b_dev x = 1) \<and>
     (b_dev x = 1 \<longrightarrow> b_blockno x < disksize k) \<and>
     (b_dev x = 1 \<and> valid x \<and> \<not> dirty x \<and> b \<notin> H \<longrightarrow> b_data x = memdisk k (unat (b_blockno x))))"

definition cached_once :: "'a disk_state_scheme \<Rightarrow> bool" where
  "cached_once k \<longleftrightarrow> (\<forall>b < NBUF. \<forall>c < NBUF. b_dev (bufs k b) = 1 \<and> b_dev (bufs k c) = 1 \<and>
     b_blockno (bufs k b) = b_blockno (bufs k c) \<longrightarrow> b = c)"

definition linked :: "'a disk_state_scheme \<Rightarrow> bool" where
  "linked k \<longleftrightarrow> (\<exists>xs. dll (next_of k) (prev_of k) xs \<and> set xs = {..<NBUF})"

definition cache_ok :: "nat \<Rightarrow> nat set \<Rightarrow> 'a disk_state_scheme \<Rightarrow> bool" where
  "cache_ok p H k \<longleftrightarrow> H \<subseteq> {..<NBUF} \<and> linked k \<and> (\<forall>b < NBUF. buf_ok p H k b) \<and> cached_once k"

text \<open>What a reader of block \<open>bno\<close> gets: the cached contents, or the disk's.\<close>

definition cview :: "'a disk_state_scheme \<Rightarrow> uint \<Rightarrow> block" where
  "cview k bno =
     (case find (\<lambda>b. b_dev (bufs k b) = 1 \<and> b_blockno (bufs k b) = bno \<and> valid (bufs k b)) [0..<NBUF] of
        Some b \<Rightarrow> b_data (bufs k b) | None \<Rightarrow> memdisk k (unat bno))"

definition dirty_blocks :: "'a disk_state_scheme \<Rightarrow> uint set" where
  "dirty_blocks k = (\<lambda>b. b_blockno (bufs k b)) ` {b. b < NBUF \<and> dirty (bufs k b)}"

text \<open>What an operation on the cache leaves alone: the state above it, and the buffers in \<open>H\<close>.\<close>

definition bframe :: "nat set \<Rightarrow> 'a disk_state_scheme \<Rightarrow> 'a disk_state_scheme \<Rightarrow> bool" where
  "bframe H k k' \<longleftrightarrow> disk_state.more k' = disk_state.more k \<and> disksize k' = disksize k \<and>
     (\<forall>i. p_pid (ptab k' i) = p_pid (ptab k i)) \<and>
     (\<forall>c \<in> H. b_data (bufs k' c) = b_data (bufs k c) \<and> b_blockno (bufs k' c) = b_blockno (bufs k c) \<and>
        b_flags (bufs k' c) = b_flags (bufs k c))"

lemma cache_okD:
  assumes "cache_ok p H k"
  shows "H \<subseteq> {..<NBUF}" "linked k" "\<And>b. b < NBUF \<Longrightarrow> buf_ok p H k b" "cached_once k"
  using assms by (simp_all add: cache_ok_def)

lemma cached_onceD:
  "cached_once k \<Longrightarrow> b < NBUF \<Longrightarrow> c < NBUF \<Longrightarrow> b_dev (bufs k b) = 1 \<Longrightarrow> b_dev (bufs k c) = 1 \<Longrightarrow>
    b_blockno (bufs k b) = b_blockno (bufs k c) \<Longrightarrow> b = c"
  unfolding cached_once_def by blast

lemma cview_cached:
  assumes "cached_once k" "b < NBUF" "b_dev (bufs k b) = 1" "b_blockno (bufs k b) = bno" "valid (bufs k b)"
  shows "cview k bno = b_data (bufs k b)"
proof -
  have "find (\<lambda>b. b_dev (bufs k b) = 1 \<and> b_blockno (bufs k b) = bno \<and> valid (bufs k b)) [0..<NBUF] = Some b"
    unfolding find_upt_Some_iff
  proof (intro conjI allI impI)
    fix j
    assume j: "0 \<le> j \<and> j < b"
    then show "\<not> (b_dev (bufs k j) = 1 \<and> b_blockno (bufs k j) = bno \<and> valid (bufs k j))"
      using cached_onceD [OF assms(1), of j b] assms(2-4) by auto
  qed (use assms in auto)
  then show ?thesis by (simp add: cview_def)
qed

lemma cview_disk:
  assumes "\<And>b. b < NBUF \<Longrightarrow> b_dev (bufs k b) = 1 \<Longrightarrow> b_blockno (bufs k b) = bno \<Longrightarrow> \<not> valid (bufs k b)"
  shows "cview k bno = memdisk k (unat bno)"
proof -
  have "find (\<lambda>b. b_dev (bufs k b) = 1 \<and> b_blockno (bufs k b) = bno \<and> valid (bufs k b)) [0..<NBUF] = None"
    unfolding find_upt_None_iff using assms by blast
  then show ?thesis by (simp add: cview_def)
qed

lemma linked_cong:
  "next_of k' = next_of k \<Longrightarrow> prev_of k' = prev_of k \<Longrightarrow> linked k \<Longrightarrow> linked k'"
  by (simp add: linked_def)

lemma linked_find:
  assumes "linked k"
  obtains xs where "set xs = {..<NBUF}"
    "\<And>P. bfind next_of P m k = Inr (find (\<lambda>b. P (bufs k b)) xs, m, k)"
    "\<And>P. bfind prev_of P m k = Inr (find (\<lambda>b. P (bufs k b)) (rev xs), m, k)"
proof -
  obtain xs where xs: "dll (next_of k) (prev_of k) xs" "set xs = {..<NBUF}"
    using assms by (auto simp: linked_def)
  have "length xs \<le> NBUF"
    using distinct_card [of xs] xs by (simp add: dll_def)
  note f = dll_find [OF xs(1) this]
  show thesis
    by (rule that [OF xs(2)]) (simp_all add: bfind_def km_simps f del: bsearch.simps)
qed

text \<open>The links are the only thing \<open>to_front\<close> changes.\<close>

definition same_but_links :: "'a disk_state_scheme \<Rightarrow> 'a disk_state_scheme \<Rightarrow> bool" where
  "same_but_links k k' \<longleftrightarrow> (\<forall>c. b_data (bufs k' c) = b_data (bufs k c) \<and> b_flags (bufs k' c) = b_flags (bufs k c) \<and>
       b_dev (bufs k' c) = b_dev (bufs k c) \<and> b_blockno (bufs k' c) = b_blockno (bufs k c) \<and>
       b_refcnt (bufs k' c) = b_refcnt (bufs k c)) \<and>
     slk k' = slk k \<and> ptab k' = ptab k \<and> memdisk k' = memdisk k \<and> disksize k' = disksize k \<and>
     disk_writes k' = disk_writes k \<and> disk_state.more k' = disk_state.more k"

lemma same_but_links_upd:
  "same_but_links k k' \<Longrightarrow> same_but_links k (upd_buf a (b_next_update f) k')"
  "same_but_links k k' \<Longrightarrow> same_but_links k (upd_buf a (b_prev_update f) k')"
  by (simp_all add: same_but_links_def)

lemma same_but_links_refl: "same_but_links k k"
  by (simp add: same_but_links_def)

lemma same_to_front: "same_but_links k (to_front b k)"
  unfolding to_front_def Let_def by (intro same_but_links_upd same_but_links_refl)

lemma to_front_sel [simp]:
  "b_data (bufs (to_front b k) c) = b_data (bufs k c)" "b_flags (bufs (to_front b k) c) = b_flags (bufs k c)"
  "b_dev (bufs (to_front b k) c) = b_dev (bufs k c)" "b_blockno (bufs (to_front b k) c) = b_blockno (bufs k c)"
  "b_refcnt (bufs (to_front b k) c) = b_refcnt (bufs k c)"
  "slk (to_front b k) = slk k" "ptab (to_front b k) = ptab k" "memdisk (to_front b k) = memdisk k"
  "disksize (to_front b k) = disksize k" "disk_writes (to_front b k) = disk_writes k"
  "disk_state.more (to_front b k) = disk_state.more k"
  using same_to_front [of k b] by (simp_all add: same_but_links_def)

lemma linked_to_front:
  assumes "linked k" "b < NBUF"
  shows "linked (to_front b k)"
proof -
  obtain xs where xs: "dll (next_of k) (prev_of k) xs" "set xs = {..<NBUF}"
    using assms(1) by (auto simp: linked_def)
  then obtain as bs where "xs = as @ b # bs"
    using assms(2) by (metis lessThan_iff split_list)
  with to_front_dll [of k as b bs] xs show ?thesis
    unfolding linked_def by (intro exI [of _ "b # as @ bs"]) auto
qed

lemma find_SomeD: "find P xs = Some b \<Longrightarrow> b \<in> set xs \<and> P b"
  by (metis find_Some_iff nth_mem)

lemma find_unique:
  assumes "b \<in> set xs" "P b" "\<And>c. c \<in> set xs \<Longrightarrow> P c \<Longrightarrow> c = b"
  shows "find P xs = Some b"
proof (cases "find P xs")
  case None
  then show ?thesis using assms(1,2) by (simp add: find_None_iff)
next
  case (Some c)
  then show ?thesis using find_SomeD [OF Some] assms(3) by blast
qed

lemma acquiresleep_buf:
  assumes "runs p m" "\<not> sl_locked (slk k b)"
  shows "acquiresleep (buf_lock b) es m k = Inr (Some ((), es), m, set_slk b True (p_pid (ptab k p)) k)"
  unfolding buf_lock_def by (rule acquiresleep_free [OF assms])

lemma bget_hit:
  assumes "runs p m" "cache_ok p H k" "b < NBUF" "b \<notin> H" "b_dev (bufs k b) = 1" "b_blockno (bufs k b) = bno"
  shows "bget 1 bno es m k =
    Inr (Some (b, es), m, set_slk b True (p_pid (ptab k p)) (upd_buf b (\<lambda>x. x\<lparr>b_refcnt := 1\<rparr>) k))"
proof -
  have q: "quiet m" using runsD(1) [OF assms(1)] .
  obtain xs where xs: "set xs = {..<NBUF}"
    and f: "\<And>P. bfind next_of P (hold BcacheLock m) k = Inr (find (\<lambda>b. P (bufs k b)) xs, hold BcacheLock m, k)"
    by (rule linked_find [OF cache_okD(2) [OF assms(2)], of "hold BcacheLock m"]) (rule that)
  have hit: "find (\<lambda>b. b_dev (bufs k b) = 1 \<and> b_blockno (bufs k b) = bno) xs = Some b"
  proof (rule find_unique)
    fix c
    assume "c \<in> set xs" "b_dev (bufs k c) = 1 \<and> b_blockno (bufs k c) = bno"
    then show "c = b"
      using cached_onceD [OF cache_okD(4) [OF assms(2)], of c b] assms(3,5,6) xs by simp
  qed (use assms(3,5,6) xs in simp_all)
  have free: "\<not> sl_locked (slk k b)" "b_refcnt (bufs k b) = 0"
    using cache_okD(3) [OF assms(2,3)] assms(4) by (simp_all add: buf_ok_def Let_def)
  have one: "upd_buf b (\<lambda>x. x\<lparr>b_refcnt := b_refcnt x + 1\<rparr>) k = upd_buf b (\<lambda>x. x\<lparr>b_refcnt := 1\<rparr>) k"
    using free(2) by (simp add: upd_buf_def)
  show ?thesis
    using q by (simp add: bget_def km_simps f hit one free acquiresleep_buf [OF assms(1)])
qed

lemma bget_miss:
  assumes "runs p m" "cache_ok p H k" "\<And>b. b < NBUF \<Longrightarrow> b_dev (bufs k b) = 1 \<Longrightarrow> b_blockno (bufs k b) \<noteq> bno"
    and "\<exists>b < NBUF. b_refcnt (bufs k b) = 0 \<and> \<not> dirty (bufs k b)"
  shows "\<exists>b < NBUF. b \<notin> H \<and> \<not> dirty (bufs k b) \<and> bget 1 bno es m k =
    Inr (Some (b, es), m, set_slk b True (p_pid (ptab k p))
      (upd_buf b (\<lambda>x. x\<lparr>b_dev := 1, b_blockno := bno, b_flags := 0, b_refcnt := 1\<rparr>) k))"
proof -
  have q: "quiet m" using runsD(1) [OF assms(1)] .
  let ?P = "\<lambda>b. b_refcnt (bufs k b) = 0 \<and> b_flags (bufs k b) AND B_DIRTY = 0"
  obtain xs where xs: "set xs = {..<NBUF}"
    and f: "\<And>P. bfind next_of P (hold BcacheLock m) k = Inr (find (\<lambda>b. P (bufs k b)) xs, hold BcacheLock m, k)"
      "\<And>P. bfind prev_of P (hold BcacheLock m) k = Inr (find (\<lambda>b. P (bufs k b)) (rev xs), hold BcacheLock m, k)"
    by (rule linked_find [OF cache_okD(2) [OF assms(2)], of "hold BcacheLock m"]) (rule that)
  have none: "find (\<lambda>b. b_dev (bufs k b) = 1 \<and> b_blockno (bufs k b) = bno) xs = None"
    using assms(3) xs by (auto simp: find_None_iff)
  obtain b where b: "find ?P (rev xs) = Some b"
    using assms(4) xs by (cases "find ?P (rev xs)") (auto simp: find_None_iff)
  have B: "b < NBUF" "?P b" using find_SomeD [OF b] xs by auto
  have H: "b \<notin> H" "\<not> sl_locked (slk k b)"
    using cache_okD(3) [OF assms(2) B(1)] B(2) by (auto simp: buf_ok_def Let_def split: if_splits)
  have "bget 1 bno es m k = Inr (Some (b, es), m, set_slk b True (p_pid (ptab k p))
      (upd_buf b (\<lambda>x. x\<lparr>b_dev := 1, b_blockno := bno, b_flags := 0, b_refcnt := 1\<rparr>) k))"
    using q H by (simp add: bget_def km_simps f none b acquiresleep_buf [OF assms(1)])
  then show ?thesis using B H by blast
qed

section \<open>What the operations do to the view\<close>

lemma linked_upd_buf:
  assumes "linked k" "\<And>x. b_next (f x) = b_next x" "\<And>x. b_prev (f x) = b_prev x"
  shows "linked (upd_buf b f k)"
  by (rule linked_cong [OF _ _ assms(1)]) (auto simp: fun_eq_iff assms(2,3))

lemma linked_set_slk: "linked k \<Longrightarrow> linked (set_slk l v q k)"
  by (rule linked_cong) simp_all

lemma linked_wakeup1: "linked k \<Longrightarrow> linked (wakeup1 ch k)"
  by (rule linked_cong) simp_all

text \<open>Reading a block into buffer \<open>b\<close>: the buffer becomes \<open>x'\<close>, locked by \<open>p\<close>, everything else stays.\<close>

definition taken :: "nat \<Rightarrow> nat \<Rightarrow> buf \<Rightarrow> 'a disk_state_scheme \<Rightarrow> 'a disk_state_scheme" where
  "taken p b x' k = set_slk b True (p_pid (ptab k p)) (upd_buf b (\<lambda>_. x') k)"

lemma cview_taken:
  assumes "cache_ok p H k" "b < NBUF" "b \<notin> H"
    and x': "b_dev x' = 1" "valid x'" "b_data x' = cview k (b_blockno x')"
    and new: "\<And>c. c < NBUF \<Longrightarrow> c \<noteq> b \<Longrightarrow> b_dev (bufs k c) = 1 \<Longrightarrow> b_blockno (bufs k c) \<noteq> b_blockno x'"
    and old: "b_dev (bufs k b) = 1 \<Longrightarrow> valid (bufs k b) \<Longrightarrow> b_blockno (bufs k b) = b_blockno x' \<or>
      b_data (bufs k b) = memdisk k (unat (b_blockno (bufs k b)))"
  shows "cview (taken p b x' k) = cview k" "cached_once (taken p b x' k)"
proof -
  let ?k = "taken p b x' k"
  have bf: "bufs ?k = (bufs k)(b := x')" "memdisk ?k = memdisk k" by (simp_all add: taken_def)
  note once = cache_okD(4) [OF assms(1)]
  show once': "cached_once ?k"
    unfolding cached_once_def bf
  proof (intro allI impI)
    fix i j
    assume "i < NBUF" "j < NBUF" "b_dev (((bufs k)(b := x')) i) = 1 \<and> b_dev (((bufs k)(b := x')) j) = 1 \<and>
      b_blockno (((bufs k)(b := x')) i) = b_blockno (((bufs k)(b := x')) j)"
    then show "i = j"
      using cached_onceD [OF once, of i j] new [of i] new [of j] by (auto split: if_splits)
  qed
  show "cview ?k = cview k"
  proof
    fix bno
    show "cview ?k bno = cview k bno"
    proof (cases "bno = b_blockno x'")
      case True
      then show ?thesis
        using cview_cached [OF once' assms(2), of bno] x' by (simp add: bf)
    next
      case other: False
      show ?thesis
      proof (cases "\<exists>c < NBUF. c \<noteq> b \<and> b_dev (bufs k c) = 1 \<and> b_blockno (bufs k c) = bno \<and> valid (bufs k c)")
        case True
        then obtain c where c: "c < NBUF" "c \<noteq> b" "b_dev (bufs k c) = 1" "b_blockno (bufs k c) = bno" "valid (bufs k c)"
          by blast
        then show ?thesis
          using cview_cached [OF once c(1,3,4,5)] cview_cached [OF once' c(1), of bno] by (simp add: bf)
      next
        case False
        have "cview ?k bno = memdisk ?k (unat bno)"
        proof (rule cview_disk)
          fix c
          assume "c < NBUF" "b_dev (bufs ?k c) = 1" "b_blockno (bufs ?k c) = bno"
          then show "\<not> valid (bufs ?k c)" using False other by (auto simp: bf split: if_splits)
        qed
        then have "cview ?k bno = memdisk k (unat bno)" by (simp add: bf)
        moreover have "cview k bno = memdisk k (unat bno)"
        proof (cases "b_dev (bufs k b) = 1 \<and> b_blockno (bufs k b) = bno \<and> valid (bufs k b)")
          case True
          then show ?thesis using cview_cached [OF once assms(2), of bno] old other by auto
        next
          case no: False
          show ?thesis by (rule cview_disk) (use False no in metis)
        qed
        ultimately show ?thesis by simp
      qed
    qed
  qed
qed

lemma taken_ok:
  assumes "cache_ok p H k" "b < NBUF" "b \<notin> H"
    and x': "b_dev x' = 1" "valid x'" "b_data x' = cview k (b_blockno x')" "b_refcnt x' = 1" "b_blockno x' < disksize k"
      "b_next x' = next_of k b" "b_prev x' = prev_of k b"
    and new: "\<And>c. c < NBUF \<Longrightarrow> c \<noteq> b \<Longrightarrow> b_dev (bufs k c) = 1 \<Longrightarrow> b_blockno (bufs k c) \<noteq> b_blockno x'"
    and old: "b_dev (bufs k b) = 1 \<Longrightarrow> valid (bufs k b) \<Longrightarrow> b_blockno (bufs k b) = b_blockno x' \<or>
      b_data (bufs k b) = memdisk k (unat (b_blockno (bufs k b)))"
  shows "cache_ok p (insert b H) (taken p b x' k)"
proof -
  let ?k = "taken p b x' k"
  have bf: "bufs ?k = (bufs k)(b := x')" by (simp add: taken_def)
  have "linked ?k"
    by (rule linked_cong [OF _ _ cache_okD(2) [OF assms(1)]]) (auto simp: bf fun_eq_iff x'(6,7))
  moreover have "buf_ok p (insert b H) ?k c" if "c < NBUF" for c
    using cache_okD(3) [OF assms(1) that] x'
    by (cases "c = b") (auto simp: buf_ok_def Let_def taken_def buf_mine_def)
  moreover have "cached_once ?k"
    by (rule cview_taken(2) [OF assms(1-3) x'(1,2,3) new old])
  ultimately show ?thesis
    using cache_okD(1) [OF assms(1)] assms(2) by (simp add: cache_ok_def)
qed

lemma bread_loaded:
  assumes "runs p m" "bget 1 bno es m k = Inr (Some (b, es), m, taken p b x k)"
    and "b_dev x = 1" "b_blockno x = bno" "bno < disksize k" "valid x \<or> \<not> dirty x"
  shows "bread 1 bno es m k = Inr (Some (b, es), m, taken p b
    (if valid x then x else x\<lparr>b_data := memdisk k (unat bno), b_flags := b_flags x OR B_VALID\<rparr>) k)"
proof (cases "valid x")
  case True
  then show ?thesis using assms(2) by (simp add: bread_def km_simps taken_def)
next
  case False
  have "loaded b (taken p b x k) = taken p b (x\<lparr>b_data := memdisk k (unat bno), b_flags := b_flags x OR B_VALID\<rparr>) k"
    using assms(4) by (simp add: loaded_def taken_def upd_buf_def set_slk_def)
  moreover have "iderw b m (taken p b x k) = Inr ((), m, loaded b (taken p b x k))"
    by (rule iderw_read [OF assms(1)]) (use assms(3-6) False in \<open>simp_all add: taken_def buf_mine_def\<close>)
  moreover have "bufs (taken p b x k) b = x" by (simp add: taken_def)
  ultimately show ?thesis using assms(2) False by (simp add: bread_def km_simps)
qed

lemma buf_okD:
  assumes "buf_ok p H k b"
  shows "b \<notin> H \<Longrightarrow> \<not> sl_locked (slk k b)" "b \<notin> H \<Longrightarrow> b_refcnt (bufs k b) = 0"
    "b \<in> H \<Longrightarrow> b_refcnt (bufs k b) = 1" "b \<in> H \<Longrightarrow> buf_mine p b k" "b \<in> H \<Longrightarrow> b_dev (bufs k b) = 1"
    "b \<in> H \<Longrightarrow> valid (bufs k b)" "dirty (bufs k b) \<Longrightarrow> valid (bufs k b)" "dirty (bufs k b) \<Longrightarrow> b_dev (bufs k b) = 1"
    "b_dev (bufs k b) = 1 \<Longrightarrow> b_blockno (bufs k b) < disksize k"
    "b_dev (bufs k b) = 1 \<Longrightarrow> valid (bufs k b) \<Longrightarrow> \<not> dirty (bufs k b) \<Longrightarrow> b \<notin> H \<Longrightarrow>
      b_data (bufs k b) = memdisk k (unat (b_blockno (bufs k b)))"
  using assms by (auto simp: buf_ok_def Let_def split: if_splits)

lemma dirty_blocks_cong:
  assumes "\<And>c. c < NBUF \<Longrightarrow> dirty (bufs k' c) = dirty (bufs k c)"
    and "\<And>c. c < NBUF \<Longrightarrow> dirty (bufs k c) \<Longrightarrow> b_blockno (bufs k' c) = b_blockno (bufs k c)"
  shows "dirty_blocks k' = dirty_blocks k"
proof -
  have "{b. b < NBUF \<and> dirty (bufs k' b)} = {b. b < NBUF \<and> dirty (bufs k b)}" using assms(1) by blast
  then show ?thesis unfolding dirty_blocks_def using assms(2) by (intro image_cong) simp_all
qed

lemma dirty_blocks_taken:
  assumes "dirty x' = dirty (bufs k b)" "dirty x' \<Longrightarrow> b_blockno x' = b_blockno (bufs k b)"
  shows "dirty_blocks (taken p b x' k) = dirty_blocks k"
  by (rule dirty_blocks_cong) (use assms in \<open>auto simp: taken_def\<close>)

lemma bframe_taken: "b \<notin> H \<Longrightarrow> bframe H k (taken p b x' k)"
  by (auto simp: bframe_def taken_def)

text \<open>What \<open>bread\<close> promises a process that holds the buffers \<open>H\<close>.\<close>

definition bread_post :: "nat \<Rightarrow> nat set \<Rightarrow> uint \<Rightarrow> 'a disk_state_scheme \<Rightarrow> nat \<Rightarrow> 'a disk_state_scheme \<Rightarrow> bool" where
  "bread_post p H bno k b k' \<longleftrightarrow> cache_ok p (insert b H) k' \<and> b < NBUF \<and> b \<notin> H \<and>
     b_blockno (bufs k' b) = bno \<and> b_data (bufs k' b) = cview k bno \<and> cview k' = cview k \<and> memdisk k' = memdisk k \<and>
     disk_writes k' = disk_writes k \<and> dirty_blocks k' = dirty_blocks k \<and> bframe H k k'"

lemma bread_taken:
  assumes "runs p m" "cache_ok p H k" "bno < disksize k"
    and b: "b < NBUF" "b \<notin> H" "bget 1 bno es m k = Inr (Some (b, es), m, taken p b x k)"
    and x: "b_dev x = 1" "b_blockno x = bno" "b_refcnt x = 1" "b_next x = next_of k b" "b_prev x = prev_of k b"
      "dirty x = dirty (bufs k b)" "dirty x \<Longrightarrow> b_blockno (bufs k b) = bno" "dirty x \<Longrightarrow> valid x"
      "valid x \<Longrightarrow> b_data x = cview k bno" "\<not> valid x \<Longrightarrow> cview k bno = memdisk k (unat bno)"
    and new: "\<And>c. c < NBUF \<Longrightarrow> c \<noteq> b \<Longrightarrow> b_dev (bufs k c) = 1 \<Longrightarrow> b_blockno (bufs k c) \<noteq> bno"
    and old: "b_dev (bufs k b) = 1 \<Longrightarrow> valid (bufs k b) \<Longrightarrow> b_blockno (bufs k b) = bno \<or>
      b_data (bufs k b) = memdisk k (unat (b_blockno (bufs k b)))"
  shows "\<exists>k'. bread 1 bno es m k = Inr (Some (b, es), m, k') \<and> bread_post p H bno k b k'"
proof -
  define x' where "x' = (if valid x then x else x\<lparr>b_data := memdisk k (unat bno), b_flags := b_flags x OR B_VALID\<rparr>)"
  have x': "b_dev x' = 1" "valid x'" "b_data x' = cview k (b_blockno x')" "b_refcnt x' = 1" "b_blockno x' < disksize k"
    "b_next x' = next_of k b" "b_prev x' = prev_of k b" "b_blockno x' = bno" "dirty x' = dirty x"
    using x assms(3) by (simp_all add: x'_def)
  have "bread 1 bno es m k = Inr (Some (b, es), m, taken p b x' k)"
    unfolding x'_def by (rule bread_loaded [OF assms(1) b(3) x(1,2) assms(3)]) (use x(8) in blast)
  moreover have "cache_ok p (insert b H) (taken p b x' k)"
    by (rule taken_ok [OF assms(2) b(1,2) x'(1-7)]) (use new old x'(8) in simp_all)
  moreover have "cview (taken p b x' k) = cview k"
    by (rule cview_taken [OF assms(2) b(1,2) x'(1-3)]) (use new old x'(8) in simp_all)
  moreover have "dirty_blocks (taken p b x' k) = dirty_blocks k"
    by (rule dirty_blocks_taken) (use x(6,7) x'(8,9) in simp_all)
  moreover have "bufs (taken p b x' k) b = x'" "memdisk (taken p b x' k) = memdisk k"
    "disk_writes (taken p b x' k) = disk_writes k" by (simp_all add: taken_def)
  ultimately show ?thesis
    unfolding bread_post_def using x'(3,8) b(1,2) bframe_taken [OF b(2)] by simp
qed

lemma bread_ok:
  assumes "runs p m" "cache_ok p H k" "bno < disksize k" "\<forall>c \<in> H. b_blockno (bufs k c) \<noteq> bno"
    and room: "\<exists>b < NBUF. b_refcnt (bufs k b) = 0 \<and> \<not> dirty (bufs k b)"
  shows "\<exists>b k'. bread 1 bno es m k = Inr (Some (b, es), m, k') \<and> bread_post p H bno k b k'"
proof (cases "\<exists>b < NBUF. b_dev (bufs k b) = 1 \<and> b_blockno (bufs k b) = bno")
  case True
  then obtain b where b: "b < NBUF" "b_dev (bufs k b) = 1" "b_blockno (bufs k b) = bno" by blast
  note ok = cache_okD [OF assms(2)]
  have nh: "b \<notin> H" using assms(4) b(3) by blast
  have only: "c = b" if "c < NBUF" "b_dev (bufs k c) = 1" "b_blockno (bufs k c) = bno" for c
    using cached_onceD [OF ok(4) that(1) b(1)] that b by simp
  have get: "bget 1 bno es m k = Inr (Some (b, es), m, taken p b ((bufs k b)\<lparr>b_refcnt := 1\<rparr>) k)"
    using bget_hit [OF assms(1,2) b(1) nh b(2,3)] by (simp add: taken_def upd_buf_def)
  have disk: "cview k bno = memdisk k (unat bno)" if "\<not> valid (bufs k b)"
    by (rule cview_disk) (use only that in blast)
  have "\<exists>k'. bread 1 bno es m k = Inr (Some (b, es), m, k') \<and> bread_post p H bno k b k'"
  proof (rule bread_taken [OF assms(1-3) b(1) nh get])
    fix c
    assume "c < NBUF" "c \<noteq> b" "b_dev (bufs k c) = 1"
    then show "b_blockno (bufs k c) \<noteq> bno" using only by blast
  qed (use b disk buf_okD(7) [OF ok(3) [OF b(1)]] cview_cached [OF ok(4) b] in simp_all)
  then show ?thesis by blast
next
  case False
  then obtain b where b: "b < NBUF" "b \<notin> H" "\<not> dirty (bufs k b)"
    and run: "bget 1 bno es m k = Inr (Some (b, es), m, set_slk b True (p_pid (ptab k p))
      (upd_buf b (\<lambda>x. x\<lparr>b_dev := 1, b_blockno := bno, b_flags := 0, b_refcnt := 1\<rparr>) k))"
    using bget_miss [OF assms(1,2) _ room, of bno es] by blast
  have get: "bget 1 bno es m k = Inr (Some (b, es), m,
      taken p b ((bufs k b)\<lparr>b_dev := 1, b_blockno := bno, b_flags := 0, b_refcnt := 1\<rparr>) k)"
    using run by (simp add: taken_def upd_buf_def)
  have disk: "cview k bno = memdisk k (unat bno)" by (rule cview_disk) (use False in blast)
  have "\<exists>k'. bread 1 bno es m k = Inr (Some (b, es), m, k') \<and> bread_post p H bno k b k'"
  proof (rule bread_taken [OF assms(1-3) b(1,2) get])
    fix c
    assume "c < NBUF" "c \<noteq> b" "b_dev (bufs k c) = 1"
    then show "b_blockno (bufs k c) \<noteq> bno" using False by blast
  next
    assume "b_dev (bufs k b) = 1" "valid (bufs k b)"
    then show "b_blockno (bufs k b) = bno \<or> b_data (bufs k b) = memdisk k (unat (b_blockno (bufs k b)))"
      using buf_okD(10) [OF cache_okD(3) [OF assms(2) b(1)]] b by blast
  qed (use b(3) disk in simp_all)
  then show ?thesis by blast
qed

lemma cache_room:
  assumes "cache_ok p H k" "card H + card (dirty_blocks k) < NBUF"
  shows "\<exists>b < NBUF. b_refcnt (bufs k b) = 0 \<and> \<not> dirty (bufs k b)"
proof (rule ccontr)
  let ?D = "{b. b < NBUF \<and> dirty (bufs k b)}"
  assume no: "\<not> ?thesis"
  note ok = cache_okD [OF assms(1)]
  have sub: "{..<NBUF} \<subseteq> H \<union> ?D"
    using no buf_okD(2) [OF ok(3)] by fastforce
  have fin: "finite H" "finite ?D" using ok(1) finite_subset by auto
  have "inj_on (\<lambda>b. b_blockno (bufs k b)) ?D"
    using cached_onceD [OF ok(4)] buf_okD(8) [OF ok(3)] by (auto intro!: inj_onI)
  then have "card ?D = card (dirty_blocks k)" by (simp add: dirty_blocks_def card_image)
  moreover have "NBUF \<le> card (H \<union> ?D)" using card_mono [OF _ sub] fin by simp
  ultimately show False using assms(2) card_Un_le [of H ?D] by linarith
qed

text \<open>The holder of a buffer changes its contents.\<close>

lemma cview_upd_other:
  assumes "cached_once k" "cached_once k'" "memdisk k' (unat bno) = memdisk k (unat bno)"
    and "\<And>c. c < NBUF \<Longrightarrow> b_dev (bufs k' c) = b_dev (bufs k c) \<and> b_blockno (bufs k' c) = b_blockno (bufs k c) \<and>
      valid (bufs k' c) = valid (bufs k c)"
    and "\<And>c. c < NBUF \<Longrightarrow> b_blockno (bufs k c) = bno \<Longrightarrow> b_data (bufs k' c) = b_data (bufs k c)"
  shows "cview k' bno = cview k bno"
proof (cases "\<exists>c < NBUF. b_dev (bufs k c) = 1 \<and> b_blockno (bufs k c) = bno \<and> valid (bufs k c)")
  case True
  then obtain c where c: "c < NBUF" "b_dev (bufs k c) = 1" "b_blockno (bufs k c) = bno" "valid (bufs k c)" by blast
  then show ?thesis
    using cview_cached [OF assms(1) c] cview_cached [OF assms(2) c(1), of bno] assms(4,5) by simp
next
  case False
  have "cview k bno = memdisk k (unat bno)" by (rule cview_disk) (use False in blast)
  moreover have "cview k' bno = memdisk k' (unat bno)" by (rule cview_disk) (use False assms(4) in metis)
  ultimately show ?thesis using assms(3) by simp
qed

definition set_data :: "nat \<Rightarrow> block \<Rightarrow> 'a disk_state_scheme \<Rightarrow> 'a disk_state_scheme" where
  "set_data b d = upd_buf b (\<lambda>x. x\<lparr>b_data := d\<rparr>)"

lemma cached_once_cong:
  "cached_once k \<Longrightarrow> (\<And>c. c < NBUF \<Longrightarrow> b_dev (bufs k' c) = b_dev (bufs k c) \<and>
     b_blockno (bufs k' c) = b_blockno (bufs k c)) \<Longrightarrow> cached_once k'"
  unfolding cached_once_def by simp

lemma set_data_ok:
  assumes "cache_ok p H k" "b \<in> H"
  shows "cache_ok p H (set_data b d k)" "cview (set_data b d k) = (cview k)(b_blockno (bufs k b) := d)"
    "dirty_blocks (set_data b d k) = dirty_blocks k"
proof -
  let ?k = "set_data b d k"
  note ok = cache_okD [OF assms(1)]
  have b: "b < NBUF" using ok(1) assms(2) by auto
  have once: "cached_once ?k" by (rule cached_once_cong [OF ok(4)]) (simp add: set_data_def)
  have "buf_ok p H ?k c" if "c < NBUF" for c
    using ok(3) [OF that] assms(2) by (cases "c = b") (auto simp: buf_ok_def Let_def set_data_def buf_mine_def)
  then show "cache_ok p H ?k"
    using ok once by (simp add: cache_ok_def) (simp add: set_data_def linked_upd_buf)
  show "dirty_blocks ?k = dirty_blocks k"
    by (rule dirty_blocks_cong) (auto simp: set_data_def)
  show "cview ?k = (cview k)(b_blockno (bufs k b) := d)"
  proof
    fix bno
    show "cview ?k bno = ((cview k)(b_blockno (bufs k b) := d)) bno"
    proof (cases "bno = b_blockno (bufs k b)")
      case True
      then show ?thesis
        using cview_cached [OF once b, of bno] buf_okD(5,6) [OF ok(3) [OF b] assms(2)] by (simp add: set_data_def)
    next
      case False
      then have "cview ?k bno = cview k bno"
        by (intro cview_upd_other [OF ok(4) once]) (auto simp: set_data_def)
      then show ?thesis using False by simp
    qed
  qed
qed

lemma flushed_sel [simp]:
  "bufs (flushed b k) = (bufs k)(b := (bufs k b)\<lparr>b_flags := ((b_flags (bufs k b) OR B_DIRTY) AND NOT B_DIRTY) OR B_VALID\<rparr>)"
  "memdisk (flushed b k) = (memdisk k)(unat (b_blockno (bufs k b)) := b_data (bufs k b))"
  "disk_writes (flushed b k) = disk_writes k @ [(unat (b_blockno (bufs k b)), b_data (bufs k b))]"
  "slk (flushed b k) = slk k" "ptab (flushed b k) = ptab k" "disksize (flushed b k) = disksize k"
  "disk_state.more (flushed b k) = disk_state.more k"
  by (simp_all add: flushed_def upd_buf_def)

lemma flushed_ok:
  assumes "cache_ok p H k" "b \<in> H"
  shows "cache_ok p H (flushed b k)" "cview (flushed b k) = cview k"
    "dirty_blocks (flushed b k) = dirty_blocks k - {b_blockno (bufs k b)}" "bframe (H - {b}) k (flushed b k)"
proof -
  let ?k = "flushed b k"
  note ok = cache_okD [OF assms(1)]
  have b: "b < NBUF" using ok(1) assms(2) by auto
  note mine = buf_okD(3-6) [OF ok(3) [OF b] assms(2)]
  have once: "cached_once ?k" by (rule cached_once_cong [OF ok(4)]) simp
  have other: "b_blockno (bufs k c) \<noteq> b_blockno (bufs k b)" if "c < NBUF" "c \<noteq> b" "b_dev (bufs k c) = 1" for c
    using cached_onceD [OF ok(4) that(1) b] that mine by blast
  have "buf_ok p H ?k c" if c: "c < NBUF" for c
  proof (cases "c = b")
    case True
    then show ?thesis using ok(3) [OF b] assms(2) by (simp add: buf_ok_def Let_def buf_mine_def)
  next
    case False
    then show ?thesis
      using ok(3) [OF c] other [OF c False] by (auto simp: buf_ok_def Let_def buf_mine_def word_unat_eq_iff)
  qed
  moreover have "linked ?k"
    by (rule linked_cong [OF _ _ ok(2)]) (auto simp: fun_eq_iff)
  ultimately show "cache_ok p H ?k" using ok(1) once by (simp add: cache_ok_def)
  show "cview ?k = cview k"
  proof
    fix bno
    show "cview ?k bno = cview k bno"
    proof (cases "bno = b_blockno (bufs k b)")
      case True
      then show ?thesis
        using cview_cached [OF once b, of bno] cview_cached [OF ok(4) b, of bno] mine by simp
    next
      case False
      then have "unat bno \<noteq> unat (b_blockno (bufs k b))" by (simp add: word_unat_eq_iff)
      then show ?thesis
        using mine by (intro cview_upd_other [OF ok(4) once]) auto
    qed
  qed
  have "{c. c < NBUF \<and> dirty (bufs ?k c)} = {c. c < NBUF \<and> dirty (bufs k c)} - {b}" by auto
  moreover have "b_blockno (bufs k c) \<noteq> b_blockno (bufs k b)" if "c < NBUF" "dirty (bufs k c)" "c \<noteq> b" for c
    using other [OF that(1,3)] buf_okD(8) [OF ok(3) [OF that(1)] that(2)] by blast
  ultimately show "dirty_blocks ?k = dirty_blocks k - {b_blockno (bufs k b)}"
    unfolding dirty_blocks_def by auto
  show "bframe (H - {b}) k ?k" by (simp add: bframe_def)
qed

lemma bwrite_ok:
  assumes "runs p m" "cache_ok p H k" "b \<in> H"
  shows "bwrite b m k = Inr ((), m, flushed b k)"
proof -
  have b: "b < NBUF" using cache_okD(1) [OF assms(2)] assms(3) by auto
  note mine = buf_okD [OF cache_okD(3) [OF assms(2) b]]
  show ?thesis by (rule bwrite_step [OF assms(1)]) (use mine assms(3) in simp_all)
qed

definition released :: "nat \<Rightarrow> 'a disk_state_scheme \<Rightarrow> 'a disk_state_scheme" where
  "released b k = to_front b (upd_buf b (\<lambda>x. x\<lparr>b_refcnt := 0\<rparr>) (wakeup1 (ChanSleeplock b) (set_slk b False 0 k)))"

lemma brelse_ok:
  assumes "runs p m" "cache_ok p H k" "b \<in> H"
  shows "brelse b m k = Inr ((), m, released b k)"
proof -
  have b: "b < NBUF" using cache_okD(1) [OF assms(2)] assms(3) by auto
  note mine = buf_okD [OF cache_okD(3) [OF assms(2) b]]
  show ?thesis unfolding released_def by (rule brelse_step [OF assms(1)]) (use mine assms(3) in simp_all)
qed

lemma released_sel [simp]:
  "b_data (bufs (released b k) c) = b_data (bufs k c)" "b_flags (bufs (released b k) c) = b_flags (bufs k c)"
  "b_dev (bufs (released b k) c) = b_dev (bufs k c)" "b_blockno (bufs (released b k) c) = b_blockno (bufs k c)"
  "b_refcnt (bufs (released b k) c) = (if c = b then 0 else b_refcnt (bufs k c))"
  "slk (released b k) = (slk k)(b := \<lparr>sl_locked = False, sl_pid = 0\<rparr>)" "memdisk (released b k) = memdisk k"
  "disksize (released b k) = disksize k" "disk_writes (released b k) = disk_writes k"
  "disk_state.more (released b k) = disk_state.more k" "p_pid (ptab (released b k) i) = p_pid (ptab k i)"
  by (simp_all add: released_def)

lemma released_ok:
  assumes "cache_ok p H k" "b \<in> H" "dirty (bufs k b) \<or> b_data (bufs k b) = memdisk k (unat (b_blockno (bufs k b)))"
  shows "cache_ok p (H - {b}) (released b k)" "cview (released b k) = cview k"
    "dirty_blocks (released b k) = dirty_blocks k" "bframe (H - {b}) k (released b k)"
proof -
  let ?k = "released b k"
  note ok = cache_okD [OF assms(1)]
  have b: "b < NBUF" using ok(1) assms(2) by auto
  have once: "cached_once ?k" by (rule cached_once_cong [OF ok(4)]) simp
  have "buf_ok p (H - {b}) ?k c" if c: "c < NBUF" for c
    using ok(3) [OF c] assms(2,3) by (cases "c = b") (auto simp: buf_ok_def Let_def buf_mine_def)
  moreover have "linked ?k"
    unfolding released_def
    by (intro linked_to_front [OF _ b] linked_upd_buf linked_wakeup1 linked_set_slk ok(2)) simp_all
  ultimately show "cache_ok p (H - {b}) ?k" using ok(1) once by (auto simp: cache_ok_def)
  show "cview ?k = cview k"
    by (rule ext) (rule cview_upd_other [OF ok(4) once], simp_all)
  show "dirty_blocks ?k = dirty_blocks k" by (rule dirty_blocks_cong) simp_all
  show "bframe (H - {b}) k ?k" by (simp add: bframe_def)
qed

section \<open>The cache after \<open>binit\<close>\<close>

lemma binit_one_step:
  assumes "lock_free (SleepLock b) m" "first = next_of k NBUF"
  shows "binit_one b m k = Inr ((), m, upd_buf NBUF (b_next_update (\<lambda>_. b)) (upd_buf first (b_prev_update (\<lambda>_. b))
    (set_slk b False 0 (upd_buf b (\<lambda>x. x\<lparr>b_next := first, b_prev := NBUF\<rparr>) k))))"
  using assms by (simp add: binit_one_def initsleeplock_def buf_lock_def km_simps initlock_free)

definition blank :: "buf \<Rightarrow> bool" where
  "blank x \<longleftrightarrow> b_flags x = 0 \<and> b_dev x = 0 \<and> b_refcnt x = 0"

text \<open>The state after the first \<open>n\<close> turns.\<close>

definition binit_upto :: "nat \<Rightarrow> 'a disk_state_scheme \<Rightarrow> 'a disk_state_scheme \<Rightarrow> bool" where
  "binit_upto n k0 k \<longleftrightarrow> dll (next_of k) (prev_of k) (rev [0..<n]) \<and> (\<forall>b. blank (bufs k b)) \<and>
     (\<forall>b < n. slk k b = \<lparr>sl_locked = False, sl_pid = 0\<rparr>) \<and> memdisk k = memdisk k0 \<and> disksize k = disksize k0 \<and>
     disk_writes k = disk_writes k0 \<and> disk_state.more k = disk_state.more k0 \<and> ptab k = ptab k0"

lemma binit_turn:
  assumes "lock_free (SleepLock n) m" "binit_upto n k0 k" "n < NBUF"
  shows "\<exists>k'. binit_one n m k = Inr ((), m, k') \<and> binit_upto (Suc n) k0 k'"
proof -
  define f where "f = next_of k NBUF"
  define k1 where "k1 = set_slk n False 0 (upd_buf n (\<lambda>x. x\<lparr>b_next := f, b_prev := NBUF\<rparr>) k)"
  define k2 where "k2 = upd_buf NBUF (b_next_update (\<lambda>_. n)) (upd_buf f (b_prev_update (\<lambda>_. n)) k1)"
  have 1: "next_of k1 = (next_of k)(n := f)" "prev_of k1 = (prev_of k)(n := NBUF)"
    by (auto simp: k1_def fun_eq_iff)
  have "next_of k2 = (next_of k)(n := next_of k NBUF, NBUF := n)"
    "prev_of k2 = (prev_of k)(n := NBUF, next_of k NBUF := n)"
    unfolding k2_def next_of_upd 1 by (simp_all add: f_def)
  moreover have "dll (next_of k) (prev_of k) (rev [0..<n])" using assms(2) by (simp add: binit_upto_def)
  ultimately have "dll (next_of k2) (prev_of k2) (rev [0..<Suc n])"
    using dll_insert [of "next_of k" "prev_of k" "rev [0..<n]" n] assms(3) by simp
  moreover have "blank (bufs k2 b)" for b
    using assms(2) by (auto simp: binit_upto_def k2_def k1_def blank_def)
  ultimately have "binit_upto (Suc n) k0 k2"
    using assms(2) by (auto simp: binit_upto_def k2_def k1_def less_Suc_eq)
  moreover have "binit_one n m k = Inr ((), m, k2)"
    unfolding k2_def k1_def by (rule binit_one_step [OF assms(1)]) (simp add: f_def)
  ultimately show ?thesis by blast
qed

lemma binit_turns:
  assumes "\<And>l. lock_free l m" "binit_upto 0 k0 k"
  shows "n \<le> NBUF \<Longrightarrow> \<exists>k'. for_each binit_one [0..<n] m k = Inr ((), m, k') \<and> binit_upto n k0 k'"
proof (induction n)
  case 0
  then show ?case using assms(2) by (simp add: km_simps)
next
  case (Suc n)
  then obtain k1 where k1: "for_each binit_one [0..<n] m k = Inr ((), m, k1)" "binit_upto n k0 k1" by auto
  obtain k2 where "binit_one n m k1 = Inr ((), m, k2)" "binit_upto (Suc n) k0 k2"
    using binit_turn [OF assms(1) k1(2)] Suc.prems by auto
  then show ?case using k1(1) by (simp add: for_each_append km_simps)
qed

lemma binit_ok:
  assumes "quiet m" "\<forall>b. blank (bufs k b)"
  shows "\<exists>k'. binit m k = Inr ((), m, k') \<and> (\<forall>p. cache_ok p {} k') \<and> cview k' = (\<lambda>b. memdisk k (unat b)) \<and>
    dirty_blocks k' = {} \<and> memdisk k' = memdisk k \<and> disksize k' = disksize k \<and> disk_writes k' = disk_writes k \<and>
    disk_state.more k' = disk_state.more k \<and> ptab k' = ptab k"
proof -
  let ?k = "upd_buf NBUF (\<lambda>x. x\<lparr>b_prev := NBUF, b_next := NBUF\<rparr>) k"
  have "binit_upto 0 k ?k" using assms(2) by (auto simp: binit_upto_def dll_def blank_def)
  from binit_turns [OF quiet_free [OF assms(1)] this, of NBUF]
  obtain k' where k': "for_each binit_one [0..<NBUF] m ?k = Inr ((), m, k')" "binit_upto NBUF k k'" by auto
  have bl: "blank (bufs k' b)" for b using k'(2) by (simp add: binit_upto_def)
  then have "\<not> dirty (bufs k' b)" "b_dev (bufs k' b) \<noteq> 1" for b by (simp_all add: blank_def)
  then have "cview k' = (\<lambda>b. memdisk k (unat b))" "dirty_blocks k' = {}" "cached_once k'"
    using k'(2) cview_disk [of k'] by (auto simp: binit_upto_def dirty_blocks_def cached_once_def)
  moreover have "buf_ok p {} k' b" if "b < NBUF" for p b
    using bl [of b] k'(2) that by (simp add: buf_ok_def Let_def blank_def binit_upto_def)
  moreover have "linked k'"
    unfolding linked_def using k'(2) by (intro exI [of _ "rev [0..<NBUF]"]) (auto simp: binit_upto_def)
  moreover have "binit m k = Inr ((), m, k')"
    using k'(1) assms(1) by (simp add: binit_def km_simps initlock_free)
  ultimately show ?thesis using k'(2) by (auto simp: binit_upto_def cache_ok_def)
qed

text \<open>A disk of 1000 blocks, block \<open>b\<close> filled with the byte \<open>b\<close>, and a cache that has never been used.\<close>

definition blank_disk :: disk_state where
  "blank_disk = slstate.extend (sysstate.extend boot_sys (slstate.fields (\<lambda>_. \<lparr>sl_locked = False, sl_pid = 0\<rparr>)))
     (disk_state.fields (\<lambda>_. \<lparr>b_flags = 0, b_dev = 0, b_blockno = 0, b_refcnt = 0, b_prev = 0, b_next = 0, b_data = (\<lambda>_. 0)\<rparr>)
        (\<lambda>b _. of_nat b) 1000 [])"

lemma blank_disk_sel [simp]:
  "blank (bufs blank_disk b)" "memdisk blank_disk b = (\<lambda>_. of_nat b)" "disksize blank_disk = 1000"
  by (simp_all add: blank_disk_def slstate.defs sysstate.defs disk_state.defs blank_def)

section \<open>Properties\<close>

text \<open>C10: \<open>bread\<close> returns, without waiting, a buffer that the caller has to itself and that holds the
  current contents of the block, whether it was cached, pinned by the log or only on the disk; what
  a reader of any block would get does not change, and nothing is written to the disk.\<close>

theorem bread_current:
  assumes "runs p m" "cache_ok p H k" "bno < disksize k" "\<forall>c \<in> H. b_blockno (bufs k c) \<noteq> bno"
    and "card H + card (dirty_blocks k) < NBUF"
  shows "\<exists>b k'. bread 1 bno es m k = Inr (Some (b, es), m, k') \<and> b \<notin> H \<and> buf_mine p b k' \<and>
    b_blockno (bufs k' b) = bno \<and> b_data (bufs k' b) = cview k bno \<and> cview k' = cview k \<and>
    memdisk k' = memdisk k \<and> disk_writes k' = disk_writes k \<and> cache_ok p (insert b H) k'"
proof -
  obtain b k' where r: "bread 1 bno es m k = Inr (Some (b, es), m, k')" "bread_post p H bno k b k'"
    using bread_ok [OF assms(1-4) cache_room [OF assms(2,5)], of es] by blast
  have "buf_mine p b k'"
    using r(2) buf_okD(4) [OF cache_okD(3), of p "insert b H" k' b] by (simp add: bread_post_def)
  with r show ?thesis by (auto simp: bread_post_def)
qed

theorem bread_current_witness:
  "\<exists>k b k'. binit (idle_mach (Some 0)) blank_disk = Inr ((), idle_mach (Some 0), k) \<and>
     bread 1 7 [] (idle_mach (Some 0)) k = Inr (Some (b, []), idle_mach (Some 0), k') \<and>
     b_data (bufs k' b) = (\<lambda>_. 7)"
proof -
  obtain k where k: "binit (idle_mach (Some 0)) blank_disk = Inr ((), idle_mach (Some 0), k)" "cache_ok 0 {} k"
    "cview k = (\<lambda>b. memdisk blank_disk (unat b))" "dirty_blocks k = {}" "disksize k = disksize blank_disk"
    using binit_ok [of "idle_mach (Some 0)" blank_disk] by auto
  have "\<exists>b k'. bread 1 7 [] (idle_mach (Some 0)) k = Inr (Some (b, []), idle_mach (Some 0), k') \<and> b_data (bufs k' b) = (\<lambda>_. 7)"
    using bread_current [of 0 "idle_mach (Some 0)" "{}" k 7 "[]"] k(2-5) by (auto simp: NBUF_def)
  then show ?thesis using k(1) by blast
qed

text \<open>C21: the six pointer assignments of \<open>brelse\<close> move the buffer to the front of the doubly linked list
  and keep the order of the others: the list is in least-recently-used order.\<close>

theorem brelse_lru:
  assumes "runs p m" "buf_mine p b k" "b_refcnt (bufs k b) = 1" "dll (next_of k) (prev_of k) (as @ b # bs)"
  shows "\<exists>k'. brelse b m k = Inr ((), m, k') \<and> dll (next_of k') (prev_of k') (b # as @ bs) \<and>
    b_refcnt (bufs k' b) = 0 \<and> \<not> sl_locked (slk k' b)"
proof -
  let ?k = "upd_buf b (\<lambda>x. x\<lparr>b_refcnt := 0\<rparr>) (wakeup1 (ChanSleeplock b) (set_slk b False 0 k))"
  have "next_of ?k = next_of k" "prev_of ?k = prev_of k" by (auto simp: fun_eq_iff)
  then have "dll (next_of (to_front b ?k)) (prev_of (to_front b ?k)) (b # as @ bs)"
    using to_front_dll [of ?k as b bs] assms(4) by simp
  then show ?thesis using brelse_step [OF assms(1-3)] by simp
qed

theorem brelse_lru_witness:
  "\<exists>k :: disk_state. \<exists>k'. dll (next_of k) (prev_of k) [29, 28, 27] \<and> brelse 28 (idle_mach (Some 0)) k = Inr ((), idle_mach (Some 0), k') \<and>
     dll (next_of k') (prev_of k') [28, 29, 27]"
proof -
  let ?k = "set_slk 28 True 0 (blank_disk\<lparr>bufs := (\<lambda>b. \<lparr>b_flags = 0, b_dev = 1, b_blockno = 0, b_refcnt = 1,
    b_prev = (if b = 30 then 27 else b + 1), b_next = (if b = 27 then 30 else b - 1), b_data = (\<lambda>_. 0)\<rparr>)\<rparr>)"
  have d: "dll (next_of ?k) (prev_of ?k) [29, 28, 27]" by (simp add: dll_def NBUF_def)
  have "buf_mine 0 28 ?k"
    by (simp add: buf_mine_def blank_disk_def boot_sys_def procs.defs slstate.defs sysstate.defs disk_state.defs boot_procs_def unused_proc_def)
  then obtain k' where "brelse 28 (idle_mach (Some 0)) ?k = Inr ((), idle_mach (Some 0), k')"
    "dll (next_of k') (prev_of k') [28, 29, 27]"
    using brelse_lru [of 0 "idle_mach (Some 0)" 28 ?k "[29]" "[27]"] d by auto
  then show ?thesis using d by (intro exI [of _ ?k] exI [of _ k'] conjI)
qed

end
