(* ===== verification/Log.thy ===== *)
theory Log
  imports Bio
begin

text \<open>
  The redo log (\<^verbatim>\<open>log.c\<close>): transactions of several system calls, their commit and the recovery at
  boot.  The lemmas say what each step of a commit does: which block reaches the disk, with which
  contents, and that nothing else changes.  \<open>Recovery\<close> puts the steps together.
\<close>

section \<open>Words in a block\<close>

text \<open>The structures on the disk are read and written through pointers into a buffer's bytes.\<close>

definition le32 :: "block \<Rightarrow> nat \<Rightarrow> uint" where
  "le32 d i = ucast (d i) OR push_bit 8 (ucast (d (i + 1))) OR push_bit 16 (ucast (d (i + 2)))
     OR push_bit 24 (ucast (d (i + 3)))"

definition set_le32 :: "nat \<Rightarrow> uint \<Rightarrow> block \<Rightarrow> block" where
  "set_le32 i v d = d(i := ucast v, i + 1 := ucast (drop_bit 8 v), i + 2 := ucast (drop_bit 16 v),
     i + 3 := ucast (drop_bit 24 v))"

lemma le32_set_le32 [simp]: "le32 (set_le32 i v d) i = v"
proof (rule bit_word_eqI)
  fix n
  assume "n < LENGTH(32)"
  then consider "n < 8" | "8 \<le> n" "n < 16" | "16 \<le> n" "n < 24" | "24 \<le> n" "n < 32"
    by fastforce
  then show "bit (le32 (set_le32 i v d) i) n \<longleftrightarrow> bit v n"
    by cases (auto simp: le32_def set_le32_def bit_simps)
qed

lemma le32_set_other:
  "i + 4 \<le> j \<or> j + 4 \<le> i \<Longrightarrow> le32 (set_le32 i v d) j = le32 d j"
  by (auto simp: le32_def set_le32_def)

section \<open>State\<close>

definition MAXOPBLOCKS :: int where "MAXOPBLOCKS = 10"
definition LOGSIZE :: nat where "LOGSIZE = 30"

text \<open>
  Block numbers are kept as the 32-bit words that the \<open>int\<close> fields hold.
\<close>

record logstate = disk_state +
  lg_start :: uint
  lg_size :: int
  lg_outstanding :: int
  lg_committing :: bool
  lg_dev :: uint
  lh_n :: int
  lh_block :: "nat \<Rightarrow> uint"

record superblock =
  sb_size :: uint
  sb_nblocks :: uint
  sb_ninodes :: uint
  sb_nlog :: uint
  sb_logstart :: uint
  sb_inodestart :: uint
  sb_bmapstart :: uint

primrec bfor :: "('i \<Rightarrow> ('c, unit) bkm) \<Rightarrow> 'i list \<Rightarrow> ('c, unit) bkm" where
  "bfor f [] = bret ()"
| "bfor f (i # is) = bthen (f i) (bfor f is)"

abbreviation bdata :: "nat \<Rightarrow> ('a disk_state_scheme, block) km" where
  "bdata b \<equiv> look (\<lambda>k. b_data (bufs k b))"

section \<open>log.c\<close>

definition readsb :: "uint \<Rightarrow> ('a disk_state_scheme, superblock) bkm" where
  "readsb dev =
     bbnd (bread dev 1) (\<lambda>bp.
     bbnd (lift (bdata bp)) (\<lambda>d.
     bthen (lift (brelse bp)) (
     bret \<lparr>sb_size = le32 d 0, sb_nblocks = le32 d 4, sb_ninodes = le32 d 8, sb_nlog = le32 d 12,
       sb_logstart = le32 d 16, sb_inodestart = le32 d 20, sb_bmapstart = le32 d 24\<rparr>)))"

definition install_one :: "nat \<Rightarrow> ('a logstate_scheme, unit) bkm" where
  "install_one tail =
     bbnd (lift (look lg_dev)) (\<lambda>dev.
     bbnd (lift (look (\<lambda>k. lg_start k + of_nat tail + 1))) (\<lambda>from.
     bbnd (bread dev from) (\<lambda>lbuf.
     bbnd (lift (look (\<lambda>k. lh_block k tail))) (\<lambda>to.
     bbnd (bread dev to) (\<lambda>dbuf.
     bbnd (lift (bdata lbuf)) (\<lambda>d.
     bthen (lift (upd (set_data dbuf d))) (
     bthen (lift (bwrite dbuf)) (
     bthen (lift (brelse lbuf)) (
     lift (brelse dbuf))))))))))"

definition install_trans :: "('a logstate_scheme, unit) bkm" where
  "install_trans = bbnd (lift (look lh_n)) (\<lambda>n. bfor install_one [0..<nat n])"

text \<open>The header block: the count and then the block numbers.\<close>

definition header_block :: "block \<Rightarrow> nat \<Rightarrow> uint" where
  "header_block d i = le32 d (4 + 4 * i)"

definition read_head :: "('a logstate_scheme, unit) bkm" where
  "read_head =
     bbnd (lift (look lg_dev)) (\<lambda>dev.
     bbnd (lift (look lg_start)) (\<lambda>start.
     bbnd (bread dev start) (\<lambda>b.
     bbnd (lift (bdata b)) (\<lambda>d.
     let n = sint (le32 d 0) in
     bthen (lift (upd (\<lambda>k. k\<lparr>lh_n := n\<rparr>))) (
     bthen (if n > int LOGSIZE then lift (fail (Fault ''log.lh.block''))
            else lift (upd (\<lambda>k. k\<lparr>lh_block := (\<lambda>i. if int i < n then header_block d i else lh_block k i)\<rparr>))) (
     lift (brelse b)))))))"

primrec put_blocks :: "(nat \<Rightarrow> uint) \<Rightarrow> nat \<Rightarrow> block \<Rightarrow> block" where
  "put_blocks bs 0 d = d"
| "put_blocks bs (Suc n) d = set_le32 (4 + 4 * n) (bs n) (put_blocks bs n d)"

definition write_head :: "('a logstate_scheme, unit) bkm" where
  "write_head =
     bbnd (lift (look lg_dev)) (\<lambda>dev.
     bbnd (lift (look lg_start)) (\<lambda>start.
     bbnd (bread dev start) (\<lambda>b.
     bbnd (lift (bdata b)) (\<lambda>d.
     bthen (lift (upd (\<lambda>k. set_data b (put_blocks (lh_block k) (nat (lh_n k)) (set_le32 0 (of_int (lh_n k)) d)) k))) (
     bthen (lift (bwrite b)) (
     lift (brelse b)))))))"

definition recover_from_log :: "('a logstate_scheme, unit) bkm" where
  "recover_from_log =
     bthen read_head (
     bthen install_trans (
     bthen (lift (upd (\<lambda>k. k\<lparr>lh_n := 0\<rparr>))) (
     write_head)))"

text \<open>The size check compares two constants: 4 + 4 * \<open>LOGSIZE\<close> bytes fit in a block.\<close>

definition initlog :: "uint \<Rightarrow> ('a logstate_scheme, unit) bkm" where
  "initlog dev =
     (if 4 + 4 * LOGSIZE \<ge> BSIZE then lift (fail (Panic ''initlog: too big logheader''))
      else
        bthen (lift (initlock LogLock)) (
        bbnd (readsb dev) (\<lambda>sb.
        bthen (lift (upd (\<lambda>k. k\<lparr>lg_start := sb_logstart sb, lg_size := sint (sb_nlog sb), lg_dev := dev\<rparr>))) (
        recover_from_log))))"

definition begin_op_turn :: "unit \<Rightarrow> ('a logstate_scheme, unit + unit) bkm" where
  "begin_op_turn _ =
     bbnd (lift (look lg_committing)) (\<lambda>c.
     if c then bthen (sleep ChanLog LogLock) (bret (Inr ()))
     else bbnd (lift (look (\<lambda>k. lh_n k + (lg_outstanding k + 1) * MAXOPBLOCKS > int LOGSIZE))) (\<lambda>full.
       if full then bthen (sleep ChanLog LogLock) (bret (Inr ()))
       else
         bthen (lift (upd (\<lambda>k. k\<lparr>lg_outstanding := lg_outstanding k + 1\<rparr>))) (
         bthen (lift (release LogLock)) (
         bret (Inl ())))))"

definition begin_op :: "('a logstate_scheme, unit) bkm" where
  "begin_op = bthen (lift (acquire LogLock)) (bwhile begin_op_turn ())"

definition write_log_one :: "nat \<Rightarrow> ('a logstate_scheme, unit) bkm" where
  "write_log_one tail =
     bbnd (lift (look lg_dev)) (\<lambda>dev.
     bbnd (lift (look (\<lambda>k. lg_start k + of_nat tail + 1))) (\<lambda>dst.
     bbnd (bread dev dst) (\<lambda>to.
     bbnd (lift (look (\<lambda>k. lh_block k tail))) (\<lambda>src.
     bbnd (bread dev src) (\<lambda>from.
     bbnd (lift (bdata from)) (\<lambda>d.
     bthen (lift (upd (set_data to d))) (
     bthen (lift (bwrite to)) (
     bthen (lift (brelse from)) (
     lift (brelse to))))))))))"

definition write_log :: "('a logstate_scheme, unit) bkm" where
  "write_log = bbnd (lift (look lh_n)) (\<lambda>n. bfor write_log_one [0..<nat n])"

definition commit :: "('a logstate_scheme, unit) bkm" where
  "commit =
     bbnd (lift (look lh_n)) (\<lambda>n.
     if n > 0 then
       bthen write_log (
       bthen write_head (
       bthen install_trans (
       bthen (lift (upd (\<lambda>k. k\<lparr>lh_n := 0\<rparr>))) (
       write_head))))
     else bret ())"

definition end_op :: "('a logstate_scheme, unit) bkm" where
  "end_op =
     bthen (lift (acquire LogLock)) (
     bthen (lift (upd (\<lambda>k. k\<lparr>lg_outstanding := lg_outstanding k - 1\<rparr>))) (
     bbnd (lift (look lg_committing)) (\<lambda>c.
     if c then lift (fail (Panic ''log.committing''))
     else bbnd (lift (look lg_outstanding)) (\<lambda>o'.
       let do_commit = (o' = 0) in
       bthen (if do_commit then lift (upd (\<lambda>k. k\<lparr>lg_committing := True\<rparr>)) else lift (wakeup ChanLog)) (
       bthen (lift (release LogLock)) (
       if do_commit then
         bthen commit (
         bthen (lift (acquire LogLock)) (
         bthen (lift (upd (\<lambda>k. k\<lparr>lg_committing := False\<rparr>))) (
         bthen (lift (wakeup ChanLog)) (
         lift (release LogLock)))))
       else bret ()))))))"

text \<open>The slot of block \<open>bno\<close> in the header: the one it has already (absorption), or the next one.\<close>

definition log_slot :: "uint \<Rightarrow> 'a logstate_scheme \<Rightarrow> nat" where
  "log_slot bno k = (case find (\<lambda>i. lh_block k i = bno) [0..<nat (lh_n k)] of Some i \<Rightarrow> i | None \<Rightarrow> nat (lh_n k))"

definition log_write :: "nat \<Rightarrow> ('a logstate_scheme, unit) km" where
  "log_write b =
     bnd (look lh_n) (\<lambda>n. bnd (look lg_size) (\<lambda>sz.
     if n \<ge> int LOGSIZE \<or> n \<ge> sz - 1 then fail (Panic ''too big a transaction'')
     else bnd (look lg_outstanding) (\<lambda>o'.
       if o' < 1 then fail (Panic ''log_write outside of trans'')
       else
         andthen (acquire LogLock) (
         bnd (look (\<lambda>k. b_blockno (bufs k b))) (\<lambda>bno.
         bnd (look (log_slot bno)) (\<lambda>i.
         andthen (upd (\<lambda>k. k\<lparr>lh_block := (lh_block k)(i := bno)\<rparr>)) (
         andthen (upd (\<lambda>k. if int i = lh_n k then k\<lparr>lh_n := lh_n k + 1\<rparr> else k)) (
         andthen (upd (upd_buf b (\<lambda>x. x\<lparr>b_flags := b_flags x OR B_DIRTY\<rparr>))) (
         release LogLock)))))))))"

section \<open>One block written\<close>

text \<open>
  \<open>wrote p d v k k'\<close>: from a state in which \<open>p\<close> holds no buffer to one in which it holds none, the
  contents \<open>v\<close> have been written to block \<open>d\<close>, on the disk and for every reader, and nothing else has
  changed.
\<close>

definition wrote :: "nat \<Rightarrow> uint \<Rightarrow> block \<Rightarrow> 'a disk_state_scheme \<Rightarrow> 'a disk_state_scheme \<Rightarrow> bool" where
  "wrote p d v k k' \<longleftrightarrow> cache_ok p {} k' \<and> cview k' = (cview k)(d := v) \<and> memdisk k' = (memdisk k)(unat d := v) \<and>
     dirty_blocks k' = dirty_blocks k - {d} \<and> disk_writes k' = disk_writes k @ [(unat d, v)] \<and> bframe {} k k'"

lemma dirty_iff:
  assumes "cache_ok p H k" "b < NBUF" "b_dev (bufs k b) = 1"
  shows "dirty (bufs k b) \<longleftrightarrow> b_blockno (bufs k b) \<in> dirty_blocks k"
proof
  assume "b_blockno (bufs k b) \<in> dirty_blocks k"
  then obtain c where c: "c < NBUF" "dirty (bufs k c)" "b_blockno (bufs k c) = b_blockno (bufs k b)"
    by (auto simp: dirty_blocks_def)
  then have "c = b"
    using cached_onceD [OF cache_okD(4) [OF assms(1)] c(1) assms(2)] buf_okD(8) [OF cache_okD(3) [OF assms(1) c(1)]] assms(3)
    by blast
  then show "dirty (bufs k b)" using c(2) by simp
qed (use assms(2) in \<open>auto simp: dirty_blocks_def\<close>)

lemma clean_view_held:
  assumes "cache_ok p H k" "bno \<notin> dirty_blocks k" "\<forall>c \<in> H. b_blockno (bufs k c) \<noteq> bno"
  shows "cview k bno = memdisk k (unat bno)"
proof (cases "\<exists>b < NBUF. b_dev (bufs k b) = 1 \<and> b_blockno (bufs k b) = bno \<and> valid (bufs k b)")
  case True
  then obtain b where b: "b < NBUF" "b_dev (bufs k b) = 1" "b_blockno (bufs k b) = bno" "valid (bufs k b)" by blast
  have "\<not> dirty (bufs k b)" using dirty_iff [OF assms(1) b(1,2)] b(3) assms(2) by simp
  moreover have "b \<notin> H" using assms(3) b(3) by blast
  ultimately show ?thesis
    using cview_cached [OF cache_okD(4) [OF assms(1)] b] buf_okD(10) [OF cache_okD(3) [OF assms(1) b(1)] b(2,4)] b(3) by simp
next
  case False
  then show ?thesis by (intro cview_disk) blast
qed

lemmas clean_view = clean_view_held [where H = "{}", simplified]

lemma bframe_trans: "bframe H k k1 \<Longrightarrow> bframe H k1 k2 \<Longrightarrow> bframe H k k2"
  by (simp add: bframe_def)

lemma bframe_empty: "bframe H k k' \<Longrightarrow> bframe {} k k'"
  by (simp add: bframe_def)

lemma bframeD:
  assumes "bframe H k k'"
  shows "disksize k' = disksize k" "disk_state.more k' = disk_state.more k" "p_pid (ptab k' i) = p_pid (ptab k i)"
    "c \<in> H \<Longrightarrow> b_data (bufs k' c) = b_data (bufs k c)" "c \<in> H \<Longrightarrow> b_blockno (bufs k' c) = b_blockno (bufs k c)"
  using assms by (simp_all add: bframe_def)

lemma bframe_set_data: "b \<notin> H \<Longrightarrow> bframe H k (set_data b d k)"
  by (auto simp: bframe_def set_data_def)

text \<open>A buffer is filled, written through and released.\<close>

lemma fill_ok:
  fixes v :: block
  assumes "runs p m" "cache_ok p H k" "t \<in> H" "b_blockno (bufs k t) = d"
  defines "k1 \<equiv> set_data t v k"
  shows "bwrite t m k1 = Inr ((), m, flushed t k1)" "cache_ok p H (flushed t k1)"
    "cview (flushed t k1) = (cview k)(d := v)" "memdisk (flushed t k1) = (memdisk k)(unat d := v)"
    "dirty_blocks (flushed t k1) = dirty_blocks k - {d}" "disk_writes (flushed t k1) = disk_writes k @ [(unat d, v)]"
    "bframe (H - {t}) k (flushed t k1)" "b_data (bufs (flushed t k1) t) = v" "b_blockno (bufs (flushed t k1) t) = d"
proof -
  have k1: "bufs k1 = (bufs k)(t := (bufs k t)\<lparr>b_data := v\<rparr>)" "memdisk k1 = memdisk k" "disk_writes k1 = disk_writes k"
    by (simp_all add: k1_def set_data_def)
  note sd = set_data_ok [OF assms(2,3), of v, folded k1_def]
  note fl = flushed_ok [OF sd(1) assms(3)]
  show "bwrite t m k1 = Inr ((), m, flushed t k1)" by (rule bwrite_ok [OF assms(1) sd(1) assms(3)])
  show "cache_ok p H (flushed t k1)" by (rule fl(1))
  show "bframe (H - {t}) k (flushed t k1)"
    by (rule bframe_trans [OF _ fl(4)]) (simp add: k1_def bframe_set_data)
  show "cview (flushed t k1) = (cview k)(d := v)" "memdisk (flushed t k1) = (memdisk k)(unat d := v)"
    "dirty_blocks (flushed t k1) = dirty_blocks k - {d}" "disk_writes (flushed t k1) = disk_writes k @ [(unat d, v)]"
    using fl(2,3) sd(2,3) assms(4) by (simp_all add: k1)
  show "b_data (bufs (flushed t k1) t) = v" "b_blockno (bufs (flushed t k1) t) = d"
    using assms(4) by (simp_all add: k1)
qed

text \<open>The end of a copy from buffer \<open>s\<close> to buffer \<open>t\<close>.\<close>

lemma copy_finish:
  assumes "runs p m" "cache_ok p {} k0" "cache_ok p {s, t} k" "s \<noteq> t" "a \<noteq> d"
    and s: "b_blockno (bufs k s) = a" "b_data (bufs k s) = cview k0 a" and t: "b_blockno (bufs k t) = d"
    and k: "cview k = cview k0" "memdisk k = memdisk k0" "dirty_blocks k = dirty_blocks k0" "disk_writes k = disk_writes k0"
      "bframe {} k0 k"
  shows "\<exists>k2 k3 k4. bwrite t m (set_data t (cview k0 a) k) = Inr ((), m, k2) \<and> brelse s m k2 = Inr ((), m, k3) \<and>
    brelse t m k3 = Inr ((), m, k4) \<and> wrote p d (cview k0 a) k0 k4"
proof -
  define k2 where "k2 = flushed t (set_data t (cview k0 a) k)"
  define k3 where "k3 = released s k2"
  define k4 where "k4 = released t k3"
  have ok2: "cache_ok p {s, t} k2" "cview k2 = (cview k)(d := cview k0 a)" "memdisk k2 = (memdisk k)(unat d := cview k0 a)"
    "dirty_blocks k2 = dirty_blocks k - {d}" "disk_writes k2 = disk_writes k @ [(unat d, cview k0 a)]"
    "bframe ({s, t} - {t}) k k2" "b_data (bufs k2 t) = cview k0 a" "b_blockno (bufs k2 t) = d"
    and w: "bwrite t m (set_data t (cview k0 a) k) = Inr ((), m, k2)"
    unfolding k2_def by (rule fill_ok [OF assms(1,3) insertI2 [OF singletonI] t])+
  have s2: "b_blockno (bufs k2 s) = a" "b_data (bufs k2 s) = cview k0 a"
    using bframeD(4,5) [OF ok2(6), of s] s assms(4) by simp_all
  have sb: "s < NBUF" "b_dev (bufs k2 s) = 1"
    using cache_okD(1) [OF ok2(1)] buf_okD(5) [OF cache_okD(3) [OF ok2(1)], of s] by auto
  have clean: "dirty (bufs k2 s) \<or> b_data (bufs k2 s) = memdisk k2 (unat (b_blockno (bufs k2 s)))"
  proof (cases "a \<in> dirty_blocks k0")
    case True
    then show ?thesis using dirty_iff [OF ok2(1) sb] s2 ok2(4) k(3) assms(5) by simp
  next
    case False
    have "unat a \<noteq> unat d" using assms(5) by (simp add: word_unat_eq_iff)
    then show ?thesis using clean_view [OF assms(2) False] s2 ok2(3) k(2) by simp
  qed
  have r1: "brelse s m k2 = Inr ((), m, k3)" unfolding k3_def by (rule brelse_ok [OF assms(1) ok2(1)]) simp
  note ok3 = released_ok [OF ok2(1) _ clean, folded k3_def, simplified]
  have H: "{s, t} - {s} = {t}" using assms(4) by auto
  have r2: "brelse t m k3 = Inr ((), m, k4)" unfolding k4_def by (rule brelse_ok [OF assms(1) ok3(1)]) (use assms(4) in auto)
  have "b_data (bufs k3 t) = memdisk k3 (unat (b_blockno (bufs k3 t)))" using ok2(3,7,8) by (simp add: k3_def)
  then have ok4: "cache_ok p ({t} - {t}) k4" "cview k4 = cview k3" "dirty_blocks k4 = dirty_blocks k3" "bframe ({t} - {t}) k3 k4"
    unfolding k4_def using released_ok [of p "{t}" k3 t] ok3(1) assms(4) by (simp_all add: H insert_Diff_if)
  have "bframe {} k0 k4"
    by (intro bframe_trans [OF k(5)] bframe_trans [OF bframe_empty [OF ok2(6)]] bframe_trans [OF bframe_empty [OF ok3(4)]]
        bframe_empty [OF ok4(4)])
  moreover have "memdisk k4 = memdisk k2" "disk_writes k4 = disk_writes k2" by (simp_all add: k4_def k3_def)
  ultimately have "wrote p d (cview k0 a) k0 k4"
    using ok2 ok3 ok4 k by (simp add: wrote_def)
  then show ?thesis using w r1 r2 by blast
qed

section \<open>The loops of a commit\<close>

lemma bread_post_room:
  assumes "runs p m" "cache_ok p H k" "bno < disksize k" "\<forall>c \<in> H. b_blockno (bufs k c) \<noteq> bno"
    "card H + card (dirty_blocks k) < NBUF"
  obtains b k' where "bread 1 bno es m k = Inr (Some (b, es), m, k')" "bread_post p H bno k b k'"
  using bread_ok [OF assms(1-4) cache_room [OF assms(2,5)], of es] by blast

lemma log_more:
  assumes "disk_state.more k' = disk_state.more (k :: 'a logstate_scheme)"
  shows "lg_dev k' = lg_dev k" "lg_start k' = lg_start k" "lh_n k' = lh_n k" "lh_block k' = lh_block k"
    "lg_size k' = lg_size k" "lg_outstanding k' = lg_outstanding k" "lg_committing k' = lg_committing k"
    "logstate.more k' = logstate.more k"
  using assms by (cases k; cases k'; simp)+

lemma set_data_more: "disk_state.more (set_data b d k) = disk_state.more k"
  by (simp add: set_data_def)

text \<open>Two buffers are read, \<open>x\<close> and then \<open>y\<close>.\<close>

lemma two_breads:
  assumes "runs p m" "cache_ok p {} k" "x < disksize k" "y < disksize k" "x \<noteq> y" "1 + card (dirty_blocks k) < NBUF"
  obtains s t k1 k2 where "bread 1 x es m k = Inr (Some (s, es), m, k1)" "bread 1 y es m k1 = Inr (Some (t, es), m, k2)"
    "s \<noteq> t" "cache_ok p {s, t} k2" "b_blockno (bufs k2 s) = x" "b_blockno (bufs k2 t) = y"
    "b_data (bufs k2 s) = cview k x" "b_data (bufs k2 t) = cview k y"
    "cview k2 = cview k" "memdisk k2 = memdisk k" "dirty_blocks k2 = dirty_blocks k" "disk_writes k2 = disk_writes k"
    "bframe {} k k1" "bframe {} k k2"
proof -
  obtain s k1 where 1: "bread 1 x es m k = Inr (Some (s, es), m, k1)" "bread_post p {} x k s k1"
    by (rule bread_post_room [OF assms(1-3), of es]) (use assms(6) in auto)
  obtain t k2 where 2: "bread 1 y es m k1 = Inr (Some (t, es), m, k2)" "bread_post p {s} y k1 t k2"
    by (rule bread_post_room [OF assms(1), of "{s}" k1 y es])
      (use 1(2) assms(4-6) in \<open>auto simp: bread_post_def bframe_def\<close>)
  show thesis
    by (rule that [OF 1(1) 2(1)])
      (use 1(2) 2(2) in \<open>auto simp: bread_post_def bframe_def insert_commute\<close>)
qed

lemma install_one_ok:
  fixes k :: "'a logstate_scheme"
  assumes "runs p m" "cache_ok p {} k" "lg_dev k = 1" "1 + card (dirty_blocks k) < NBUF"
    and a: "a = lg_start k + of_nat i + 1" "a < disksize k" and d: "d = lh_block k i" "d < disksize k" and "a \<noteq> d"
  shows "\<exists>k'. install_one i es m k = Inr (Some ((), es), m, k') \<and> wrote p d (cview k a) k k'"
proof -
  obtain s t k1 k2 where r: "bread 1 a es m k = Inr (Some (s, es), m, k1)" "bread 1 d es m k1 = Inr (Some (t, es), m, k2)"
    and st: "s \<noteq> t" "cache_ok p {s, t} k2" "b_blockno (bufs k2 s) = a" "b_blockno (bufs k2 t) = d" "b_data (bufs k2 s) = cview k a"
    and same: "cview k2 = cview k" "memdisk k2 = memdisk k" "dirty_blocks k2 = dirty_blocks k" "disk_writes k2 = disk_writes k"
    and fr: "bframe {} k k1" "bframe {} k k2"
    by (rule two_breads [OF assms(1,2) a(2) d(2) assms(9,4), of es])
  obtain k3 k4 k5 where e: "bwrite t m (set_data t (cview k a) k2) = Inr ((), m, k3)" "brelse s m k3 = Inr ((), m, k4)"
    "brelse t m k4 = Inr ((), m, k5)" "wrote p d (cview k a) k k5"
    using copy_finish [OF assms(1,2) st(2,1) assms(9) st(3,5,4) same fr(2)] by blast
  have "lh_block k1 i = d" using log_more(4) [OF bframeD(2) [OF fr(1)]] d(1) by simp
  then have "install_one i es m k = Inr (Some ((), es), m, k5)"
    using r e(1-3) assms(3) a(1) st(5) by (simp add: install_one_def km_simps)
  then show ?thesis using e(4) by blast
qed

lemma write_log_one_ok:
  fixes k :: "'a logstate_scheme"
  assumes "runs p m" "cache_ok p {} k" "lg_dev k = 1" "1 + card (dirty_blocks k) < NBUF"
    and a: "a = lg_start k + of_nat i + 1" "a < disksize k" and d: "d = lh_block k i" "d < disksize k" and "a \<noteq> d"
  shows "\<exists>k'. write_log_one i es m k = Inr (Some ((), es), m, k') \<and> wrote p a (cview k d) k k'"
proof -
  obtain s t k1 k2 where r: "bread 1 a es m k = Inr (Some (s, es), m, k1)" "bread 1 d es m k1 = Inr (Some (t, es), m, k2)"
    and st: "s \<noteq> t" "cache_ok p {s, t} k2" "b_blockno (bufs k2 s) = a" "b_blockno (bufs k2 t) = d" "b_data (bufs k2 t) = cview k d"
    and same: "cview k2 = cview k" "memdisk k2 = memdisk k" "dirty_blocks k2 = dirty_blocks k" "disk_writes k2 = disk_writes k"
    and fr: "bframe {} k k1" "bframe {} k k2"
    by (rule two_breads [OF assms(1,2) a(2) d(2) assms(9,4), of es])
  have ts: "cache_ok p {t, s} k2" using st(2) by (simp add: insert_commute)
  obtain k3 k4 k5 where e: "bwrite s m (set_data s (cview k d) k2) = Inr ((), m, k3)" "brelse t m k3 = Inr ((), m, k4)"
    "brelse s m k4 = Inr ((), m, k5)" "wrote p a (cview k d) k k5"
    using copy_finish [OF assms(1,2) ts st(1) [symmetric] assms(9) [symmetric] st(4,5,3) same fr(2)] by blast
  have "lh_block k1 i = d" using log_more(4) [OF bframeD(2) [OF fr(1)]] d(1) by simp
  then have "write_log_one i es m k = Inr (Some ((), es), m, k5)"
    using r e(1-3) assms(3) a(1) st(5) by (simp add: write_log_one_def km_simps)
  then show ?thesis using e(4) by blast
qed

text \<open>The header as \<open>write_head\<close> leaves it in a block with the contents \<open>d\<close>.\<close>

definition header :: "(nat \<Rightarrow> uint) \<Rightarrow> nat \<Rightarrow> block \<Rightarrow> block" where
  "header bs n d = put_blocks bs n (set_le32 0 (of_nat n) d)"

lemma write_head_ok:
  fixes k :: "'a logstate_scheme"
  assumes "runs p m" "cache_ok p {} k" "lg_dev k = 1" "card (dirty_blocks k) < NBUF" "lg_start k < disksize k" "lh_n k = int n"
  shows "\<exists>k'. write_head es m k = Inr (Some ((), es), m, k') \<and>
    wrote p (lg_start k) (header (lh_block k) n (cview k (lg_start k))) k k'"
proof -
  let ?s = "lg_start k"
  obtain b k1 where r: "bread 1 ?s es m k = Inr (Some (b, es), m, k1)" "bread_post p {} ?s k b k1"
    by (rule bread_post_room [OF assms(1,2,5), of es]) (use assms(4) in auto)
  note P = r(2) [unfolded bread_post_def]
  let ?v = "header (lh_block k) n (cview k ?s)"
  define k2 where "k2 = flushed b (set_data b ?v k1)"
  have held: "cache_ok p {b} k1" and at: "b_blockno (bufs k1 b) = ?s" using P by simp_all
  have ok2: "cache_ok p {b} k2" "cview k2 = (cview k1)(?s := ?v)" "memdisk k2 = (memdisk k1)(unat ?s := ?v)"
    "dirty_blocks k2 = dirty_blocks k1 - {?s}" "disk_writes k2 = disk_writes k1 @ [(unat ?s, ?v)]"
    "bframe ({b} - {b}) k1 k2" "b_data (bufs k2 b) = ?v" "b_blockno (bufs k2 b) = ?s"
    and w: "bwrite b m (set_data b ?v k1) = Inr ((), m, k2)"
    unfolding k2_def by (rule fill_ok [OF assms(1) held singletonI at])+
  have clean: "dirty (bufs k2 b) \<or> b_data (bufs k2 b) = memdisk k2 (unat (b_blockno (bufs k2 b)))"
    using ok2(3,7,8) by simp
  have rel: "brelse b m k2 = Inr ((), m, released b k2)" by (rule brelse_ok [OF assms(1) ok2(1)]) simp
  note ok3 = released_ok [OF ok2(1) singletonI clean]
  have "bframe {} k (released b k2)"
    using P bframe_trans [OF _ bframe_trans [OF bframe_empty [OF ok2(6)] bframe_empty [OF ok3(4)]]] by blast
  then have "wrote p ?s ?v k (released b k2)"
    using ok2 ok3 P by (simp add: wrote_def)
  moreover have "lh_block k1 = lh_block k" "lh_n k1 = int n"
    using log_more [OF bframeD(2), of "{}" k k1] P assms(6) by simp_all
  then have "write_head es m k = Inr (Some ((), es), m, released b k2)"
    using r(1) w rel assms(3) P by (simp add: write_head_def km_simps header_def)
  ultimately show ?thesis by blast
qed

end
