(* ===== verification/Recovery.thy ===== *)
theory Recovery
  imports Log
begin

text \<open>
  Commit and recovery as a whole.  The lemmas follow the writes that reach the disk: a crash between
  any two of the writes of a commit, followed by a reboot and \<open>recover_from_log\<close>, leaves on the disk all
  of the transaction or nothing of it.
\<close>

section \<open>Sequences of writes\<close>

definition disk_after :: "('b \<times> 'v) list \<Rightarrow> ('b \<Rightarrow> 'v) \<Rightarrow> 'b \<Rightarrow> 'v" where
  "disk_after ws d = fold (\<lambda>(b, v) d. d(b := v)) ws d"

lemma disk_after_append: "disk_after (ws @ vs) d = disk_after vs (disk_after ws d)"
  by (simp add: disk_after_def)

lemma disk_after_simps [simp]:
  "disk_after [] d = d" "disk_after [(b, v)] d = d(b := v)"
  by (simp_all add: disk_after_def)

lemma disk_after_notin: "x \<notin> fst ` set ws \<Longrightarrow> disk_after ws d x = d x"
proof (induction ws arbitrary: d)
  case (Cons w ws)
  then show ?case by (cases w) (simp add: disk_after_def)
qed simp

lemma disk_after_map:
  assumes "i < n" "inj_on f {..<n}"
  shows "disk_after (map (\<lambda>i. (f i, g i)) [0..<n]) d (f i) = g i"
  using assms
proof (induction n)
  case (Suc n)
  show ?case
  proof (cases "i = n")
    case False
    with Suc.prems(1) have i: "i < n" by simp
    have "f i \<noteq> f n" using inj_on_eq_iff [OF Suc.prems(2), of i n] i by simp
    moreover have "inj_on f {..<n}" by (rule inj_on_subset [OF Suc.prems(2)]) simp
    then have "disk_after (map (\<lambda>i. (f i, g i)) [0..<n]) d (f i) = g i" by (rule Suc.IH [OF i])
    ultimately show ?thesis by (simp add: disk_after_append)
  qed (simp add: disk_after_append)
qed simp

definition at_nat :: "uint \<times> block \<Rightarrow> nat \<times> block" where
  "at_nat w = (unat (fst w), snd w)"

lemma at_nat_pair [simp]: "at_nat (d, v) = (unat d, v)"
  by (simp add: at_nat_def)

definition wrote_list :: "nat \<Rightarrow> (uint \<times> block) list \<Rightarrow> 'a disk_state_scheme \<Rightarrow> 'a disk_state_scheme \<Rightarrow> bool" where
  "wrote_list p ws k k' \<longleftrightarrow> cache_ok p {} k' \<and> cview k' = disk_after ws (cview k) \<and>
     memdisk k' = disk_after (map at_nat ws) (memdisk k) \<and> dirty_blocks k' = dirty_blocks k - fst ` set ws \<and>
     disk_writes k' = disk_writes k @ map at_nat ws \<and> bframe {} k k'"

lemma wrote_list_Nil: "cache_ok p {} k \<Longrightarrow> wrote_list p [] k k"
  by (simp add: wrote_list_def bframe_def)

lemma wrote_listD:
  assumes "wrote_list p ws k k'"
  shows "cache_ok p {} k'" "cview k' = disk_after ws (cview k)" "memdisk k' = disk_after (map at_nat ws) (memdisk k)"
    "dirty_blocks k' = dirty_blocks k - fst ` set ws" "disk_writes k' = disk_writes k @ map at_nat ws" "bframe {} k k'"
  using assms unfolding wrote_list_def by blast+

lemma wrote_list_append:
  assumes "wrote_list p ws k k1" "wrote_list p vs k1 k2"
  shows "wrote_list p (ws @ vs) k k2"
  unfolding wrote_list_def wrote_listD(2-5) [OF assms(2)] wrote_listD(2-5) [OF assms(1)]
proof (intro conjI)
  show "cache_ok p {} k2" by (rule wrote_listD(1) [OF assms(2)])
  show "bframe {} k k2" by (rule bframe_trans [OF wrote_listD(6) [OF assms(1)] wrote_listD(6) [OF assms(2)]])
qed (simp_all add: disk_after_append Diff_Un image_Un Diff_Int_distrib2 Diff_insert2 Diff_eq Int_assoc)

lemma wrote_list_one: "wrote p d v k k' \<Longrightarrow> wrote_list p [(d, v)] k k'"
  by (simp add: wrote_list_def wrote_def at_nat_def)

lemma wrote_list_snoc:
  "wrote_list p ws k k1 \<Longrightarrow> wrote p d v k1 k2 \<Longrightarrow> wrote_list p (ws @ [(d, v)]) k k2"
  by (rule wrote_list_append [OF _ wrote_list_one])

lemma bfor_append: "bfor f (is @ js) es m k = bthen (bfor f is) (bfor f js) es m k"
  by (induction "is" arbitrary: es m k) (simp_all add: km_simps split: sum.split option.split)

lemma bfor_upto:
  assumes "I 0 k" and "\<And>i k. i < n \<Longrightarrow> I i k \<Longrightarrow> \<exists>k'. f i es m k = Inr (Some ((), es), m, k') \<and> I (Suc i) k'"
  shows "\<exists>k'. bfor f [0..<n] es m k = Inr (Some ((), es), m, k') \<and> I n k'"
proof -
  have "j \<le> n \<Longrightarrow> \<exists>k'. bfor f [0..<j] es m k = Inr (Some ((), es), m, k') \<and> I j k'" for j
  proof (induction j)
    case 0
    then show ?case using assms(1) by (simp add: km_simps)
  next
    case (Suc j)
    then obtain k1 where k1: "bfor f [0..<j] es m k = Inr (Some ((), es), m, k1)" "I j k1" by auto
    obtain k2 where "f j es m k1 = Inr (Some ((), es), m, k2)" "I (Suc j) k2"
      using assms(2) [OF _ k1(2)] Suc.prems by auto
    then show ?case using k1(1) by (simp add: bfor_append) (simp add: km_simps)
  qed
  then show ?thesis by blast
qed

section \<open>The layout of a transaction\<close>

text \<open>The log occupies the blocks from \<open>lg_start\<close> on, the header first.\<close>

definition in_log :: "uint \<Rightarrow> uint \<Rightarrow> bool" where
  "in_log s b \<longleftrightarrow> unat s \<le> unat b \<and> unat b \<le> unat s + LOGSIZE"

definition homes_ok :: "uint \<Rightarrow> uint \<Rightarrow> (nat \<Rightarrow> uint) \<Rightarrow> nat \<Rightarrow> bool" where
  "homes_ok s sz bs n \<longleftrightarrow> n \<le> LOGSIZE \<and> inj_on bs {..<n} \<and> (\<forall>i < n. bs i < sz \<and> \<not> in_log s (bs i))"

definition log_ok :: "nat \<Rightarrow> 'a logstate_scheme \<Rightarrow> bool" where
  "log_ok n k \<longleftrightarrow> lg_dev k = 1 \<and> lh_n k = int n \<and> unat (lg_start k) + LOGSIZE < unat (disksize k) \<and>
     homes_ok (lg_start k) (disksize k) (lh_block k) n"

abbreviation log_addr :: "uint \<Rightarrow> nat \<Rightarrow> uint" where
  "log_addr s i \<equiv> s + of_nat i + 1"

lemma unat_log_addr:
  assumes "unat s + LOGSIZE < unat (sz :: uint)" "i < LOGSIZE"
  shows "unat (log_addr s i) = unat s + i + 1" "log_addr s i < sz" "in_log s (log_addr s i)"
proof -
  have sz: "unat sz < 2 ^ 32" by (rule unat32_less)
  have i: "unat (of_nat i :: uint) = i" using assms(2) by (intro unat32_of_nat) (simp add: LOGSIZE_def)
  have "unat (s + of_nat i) = unat s + i" using assms sz i by (subst unat32_add) simp_all
  then show u: "unat (log_addr s i) = unat s + i + 1" using assms sz by (subst unat32_add) simp_all
  show "log_addr s i < sz" "in_log s (log_addr s i)"
    using u assms by (simp_all add: word_less_nat_alt in_log_def)
qed

lemma log_ok_frame:
  assumes "bframe {} k k'" "log_ok n k"
  shows "log_ok n k'"
  using assms(2) unfolding log_ok_def log_more [OF bframeD(2) [OF assms(1)]] bframeD(1) [OF assms(1)] .

section \<open>Commit and recovery\<close>

lemma wrote_room:
  assumes "wrote_list p ws k0 k" "finite (dirty_blocks k0)" "c + card (dirty_blocks k0) < n"
  shows "c + card (dirty_blocks k) < n"
proof -
  have "dirty_blocks k \<subseteq> dirty_blocks k0" using assms(1) by (auto simp: wrote_list_def)
  then have "card (dirty_blocks k) \<le> card (dirty_blocks k0)" by (rule card_mono [OF assms(2)])
  then show ?thesis using assms(3) by linarith
qed

lemma finite_dirty [simp]: "finite (dirty_blocks k)"
  by (simp add: dirty_blocks_def)

lemma install_trans_ok:
  fixes k :: "'a logstate_scheme"
  assumes "runs p m" "cache_ok p {} k" "log_ok n k" "1 + card (dirty_blocks k) < NBUF"
  shows "\<exists>k'. install_trans es m k = Inr (Some ((), es), m, k') \<and>
    wrote_list p (map (\<lambda>i. (lh_block k i, cview k (log_addr (lg_start k) i))) [0..<n]) k k'"
proof -
  let ?w = "\<lambda>i. (lh_block k i, cview k (log_addr (lg_start k) i))"
  have geo: "unat (lg_start k) + LOGSIZE < unat (disksize k)" "homes_ok (lg_start k) (disksize k) (lh_block k) n"
    "lg_dev k = 1" "lh_n k = int n" using assms(3) by (simp_all add: log_ok_def)
  have "\<exists>k'. bfor install_one [0..<n] es m k = Inr (Some ((), es), m, k') \<and> wrote_list p (map ?w [0..<n]) k k'"
  proof (rule bfor_upto)
    show "wrote_list p (map ?w [0..<0]) k k" using wrote_list_Nil [OF assms(2)] by simp
  next
    fix i ki
    assume i: "i < n" and ki: "wrote_list p (map ?w [0..<i]) k ki"
    note fr = wrote_listD(6,1) [OF ki]
    note same = log_more [OF bframeD(2) [OF fr(1)]] bframeD(1) [OF fr(1)]
    let ?a = "log_addr (lg_start k) i" and ?d = "lh_block k i"
    have li: "i < LOGSIZE" using geo(2) i by (simp add: homes_ok_def)
    note addr = unat_log_addr [OF geo(1) li]
    have home: "?d < disksize k" "\<not> in_log (lg_start k) ?d" using geo(2) i by (simp_all add: homes_ok_def)
    have "?a \<notin> fst ` set (map ?w [0..<i])"
      using geo(2) i addr(3) by (auto simp: homes_ok_def)
    then have view: "cview ki ?a = cview k ?a" unfolding wrote_listD(2) [OF ki] by (rule disk_after_notin)
    have "\<exists>k'. install_one i es m ki = Inr (Some ((), es), m, k') \<and> wrote p ?d (cview ki ?a) ki k'"
      by (rule install_one_ok [OF assms(1) fr(2)])
        (use same geo(3) addr home wrote_room [OF ki finite_dirty assms(4)] in auto)
    then show "\<exists>k'. install_one i es m ki = Inr (Some ((), es), m, k') \<and> wrote_list p (map ?w [0..<Suc i]) k k'"
      using wrote_list_snoc [OF ki] by (auto simp: view)
  qed
  then show ?thesis using geo(4) by (simp add: install_trans_def km_simps)
qed

lemma write_log_ok:
  fixes k :: "'a logstate_scheme"
  assumes "runs p m" "cache_ok p {} k" "log_ok n k" "1 + card (dirty_blocks k) < NBUF"
  shows "\<exists>k'. write_log es m k = Inr (Some ((), es), m, k') \<and>
    wrote_list p (map (\<lambda>i. (log_addr (lg_start k) i, cview k (lh_block k i))) [0..<n]) k k'"
proof -
  let ?w = "\<lambda>i. (log_addr (lg_start k) i, cview k (lh_block k i))"
  have geo: "unat (lg_start k) + LOGSIZE < unat (disksize k)" "homes_ok (lg_start k) (disksize k) (lh_block k) n"
    "lg_dev k = 1" "lh_n k = int n" using assms(3) by (simp_all add: log_ok_def)
  have "\<exists>k'. bfor write_log_one [0..<n] es m k = Inr (Some ((), es), m, k') \<and> wrote_list p (map ?w [0..<n]) k k'"
  proof (rule bfor_upto)
    show "wrote_list p (map ?w [0..<0]) k k" using wrote_list_Nil [OF assms(2)] by simp
  next
    fix i ki
    assume i: "i < n" and ki: "wrote_list p (map ?w [0..<i]) k ki"
    note fr = wrote_listD(6,1) [OF ki]
    note same = log_more [OF bframeD(2) [OF fr(1)]] bframeD(1) [OF fr(1)]
    let ?a = "log_addr (lg_start k) i" and ?d = "lh_block k i"
    have li: "j < LOGSIZE" if "j \<le> i" for j using geo(2) i that by (simp add: homes_ok_def)
    note addr = unat_log_addr [OF geo(1) li]
    have home: "?d < disksize k" "\<not> in_log (lg_start k) ?d" using geo(2) i by (simp_all add: homes_ok_def)
    have "?d \<notin> fst ` set (map ?w [0..<i])"
      using home(2) addr(3) by fastforce
    then have view: "cview ki ?d = cview k ?d" unfolding wrote_listD(2) [OF ki] by (rule disk_after_notin)
    have "\<exists>k'. write_log_one i es m ki = Inr (Some ((), es), m, k') \<and> wrote p ?a (cview ki ?d) ki k'"
      by (rule write_log_one_ok [OF assms(1) fr(2)])
        (use same geo(3) addr [OF order_refl] home wrote_room [OF ki finite_dirty assms(4)] in auto)
    then show "\<exists>k'. write_log_one i es m ki = Inr (Some ((), es), m, k') \<and> wrote_list p (map ?w [0..<Suc i]) k k'"
      using wrote_list_snoc [OF ki] by (auto simp: view)
  qed
  then show ?thesis using geo(4) by (simp add: write_log_def km_simps)
qed

lemma put_blocks_low: "le32 (put_blocks bs n d) 0 = le32 d 0"
  by (induction n) (simp_all add: le32_set_other)

lemma header_count: "le32 (header bs n d) 0 = of_nat n"
  by (simp add: header_def put_blocks_low)

lemma put_blocks_nth: "i < n \<Longrightarrow> header_block (put_blocks bs n d) i = bs i"
proof (induction n)
  case (Suc n)
  show ?case
  proof (cases "i = n")
    case True
    then show ?thesis by (simp add: header_block_def)
  next
    case False
    then have "header_block (put_blocks bs n d) i = bs i" "4 + 4 * i + 4 \<le> 4 + 4 * n" using Suc by simp_all
    then show ?thesis by (simp add: header_block_def le32_set_other)
  qed
qed simp

lemma header_nth: "i < n \<Longrightarrow> header_block (header bs n d) i = bs i"
  by (simp add: header_def put_blocks_nth)

lemma cache_cong:
  assumes "bufs k' = bufs k" "memdisk k' = memdisk k" "disksize k' = disksize k" "slk k' = slk k"
    "\<And>i. p_pid (ptab k' i) = p_pid (ptab k i)"
  shows "cache_ok p H k' = cache_ok p H k" "cview k' = cview k" "dirty_blocks k' = dirty_blocks k"
proof -
  show "cview k' = cview k" by (rule ext) (simp add: cview_def assms(1,2) cong: option.case_cong)
qed (simp_all add: assms cache_ok_def buf_ok_def linked_def cached_once_def buf_mine_def dirty_blocks_def)

lemma log_upd [simp]:
  "cache_ok p H (lh_n_update f k) = cache_ok p H k" "cview (lh_n_update f k) = cview k"
  "dirty_blocks (lh_n_update f k) = dirty_blocks k"
  "cache_ok p H (lh_block_update g k) = cache_ok p H k" "cview (lh_block_update g k) = cview k"
  "dirty_blocks (lh_block_update g k) = dirty_blocks k"
  by (rule cache_cong; simp)+

text \<open>The writes of a commit of \<open>n\<close> blocks, in order.\<close>

definition log_writes :: "'a logstate_scheme \<Rightarrow> nat \<Rightarrow> (nat \<times> block) list" where
  "log_writes k n = map (\<lambda>i. (unat (lg_start k) + i + 1, cview k (lh_block k i))) [0..<n]"

definition home_writes :: "'a logstate_scheme \<Rightarrow> nat \<Rightarrow> (nat \<times> block) list" where
  "home_writes k n = map (\<lambda>i. (unat (lh_block k i), cview k (lh_block k i))) [0..<n]"

definition commit_writes :: "'a logstate_scheme \<Rightarrow> nat \<Rightarrow> (nat \<times> block) list" where
  "commit_writes k n =
     (let s = unat (lg_start k); h = header (lh_block k) n (cview k (lg_start k))
      in log_writes k n @ [(s, h)] @ home_writes k n @ [(s, header (lh_block k) 0 h)])"

lemma commit_ok:
  fixes k :: "'a logstate_scheme"
  assumes "runs p m" "cache_ok p {} k" "log_ok n k" "0 < n" "1 + card (dirty_blocks k) < NBUF"
  shows "\<exists>k'. commit es m k = Inr (Some ((), es), m, k') \<and> disk_writes k' = disk_writes k @ commit_writes k n \<and>
    cache_ok p {} k' \<and> lh_n k' = 0 \<and> memdisk k' = disk_after (commit_writes k n) (memdisk k) \<and>
    dirty_blocks k' = dirty_blocks k - {lg_start k} - log_addr (lg_start k) ` {..<n} - lh_block k ` {..<n}"
proof -
  let ?s = "lg_start k" and ?h = "header (lh_block k) n (cview k (lg_start k))"
  have geo: "unat ?s + LOGSIZE < unat (disksize k)" "homes_ok ?s (disksize k) (lh_block k) n"
    "lg_dev k = 1" "lh_n k = int n" using assms(3) by (simp_all add: log_ok_def)
  have li: "i < LOGSIZE" if "i < n" for i using geo(2) that by (simp add: homes_ok_def)
  note addr = unat_log_addr [OF geo(1) li]
  have s: "?s < disksize k" using geo(1) by (simp add: word_less_nat_alt)
  let ?A = "map (\<lambda>i. (log_addr ?s i, cview k (lh_block k i))) [0..<n]"
  obtain k1 where k1: "write_log es m k = Inr (Some ((), es), m, k1)" "wrote_list p ?A k k1"
    using write_log_ok [OF assms(1-3,5)] by blast
  note D1 = wrote_listD [OF k1(2)] note L1 = log_more [OF bframeD(2) [OF D1(6)]] bframeD(1) [OF D1(6)]
  have room1: "1 + card (dirty_blocks k1) < NBUF" by (rule wrote_room [OF k1(2) finite_dirty assms(5)])
  have addr_ne: "log_addr ?s i \<noteq> ?s" if "i < n" for i
    using addr(1) [OF that] arg_cong [of "log_addr ?s i" ?s unat] by linarith
  then have "?s \<notin> fst ` set ?A" by auto
  then have s1: "cview k1 ?s = cview k ?s" unfolding D1(2) by (rule disk_after_notin)
  obtain k2 where k2: "write_head es m k1 = Inr (Some ((), es), m, k2)" "wrote p ?s ?h k1 k2"
    using write_head_ok [OF assms(1) D1(1), of n es] geo(3,4) s room1 by (auto simp: L1 s1)
  have w2: "wrote_list p (?A @ [(?s, ?h)]) k k2" by (rule wrote_list_snoc [OF k1(2) k2(2)])
  note D2 = wrote_listD [OF w2] note L2 = log_more [OF bframeD(2) [OF D2(6)]] bframeD(1) [OF D2(6)]
  have room2: "1 + card (dirty_blocks k2) < NBUF" by (rule wrote_room [OF w2 finite_dirty assms(5)])
  have logd: "cview k2 (log_addr ?s i) = cview k (lh_block k i)" if "i < n" for i
  proof -
    have "inj_on (log_addr ?s) {..<n}" using addr(1) by (intro inj_onI) (metis add_right_cancel add_left_cancel lessThan_iff)
    then have "disk_after ?A (cview k) (log_addr ?s i) = cview k (lh_block k i)" by (rule disk_after_map [OF that])
    then show ?thesis using addr_ne [OF that] by (simp add: D2(2) disk_after_append)
  qed
  let ?B = "map (\<lambda>i. (lh_block k i, cview k (lh_block k i))) [0..<n]"
  have B: "map (\<lambda>i. (lh_block k2 i, cview k2 (log_addr (lg_start k2) i))) [0..<n] = ?B"
    using logd by (simp add: L2)
  obtain k3 where k3: "install_trans es m k2 = Inr (Some ((), es), m, k3)" "wrote_list p ?B k2 k3"
    using install_trans_ok [OF assms(1) D2(1) log_ok_frame [OF D2(6) assms(3)] room2, of es] unfolding B by blast
  have w3: "wrote_list p ((?A @ [(?s, ?h)]) @ ?B) k k3" by (rule wrote_list_append [OF w2 k3(2)])
  note D3 = wrote_listD [OF w3] note L3 = log_more [OF bframeD(2) [OF D3(6)]] bframeD(1) [OF D3(6)]
  have "?s \<notin> fst ` set ?B" using geo(2) by (auto simp: homes_ok_def in_log_def)
  then have s3: "cview k3 ?s = ?h"
    unfolding D3(2) disk_after_append [of "?A @ [(?s, ?h)]"] by (subst disk_after_notin) (simp_all add: disk_after_append)
  let ?k = "k3\<lparr>lh_n := 0\<rparr>" and ?zero = "header (lh_block k) 0 ?h"
  obtain k4 where k4: "write_head es m ?k = Inr (Some ((), es), m, k4)" "wrote p ?s ?zero ?k k4"
    using write_head_ok [OF assms(1), of ?k 0 es] D3(1) geo(3) s wrote_room [OF w3 finite_dirty assms(5)]
    by (auto simp: L3 s3)
  have run: "commit es m k = Inr (Some ((), es), m, k4)"
    using k1(1) k2(1) k3(1) k4(1) geo(4) assms(4) by (simp add: commit_def km_simps)
  have nat: "map at_nat ?A = log_writes k n" "map at_nat ?B = home_writes k n"
    using addr(1) by (simp_all add: log_writes_def home_writes_def at_nat_def)
  have all: "map at_nat ((?A @ [(?s, ?h)]) @ ?B) @ [(unat ?s, ?zero)] = commit_writes k n"
    unfolding commit_writes_def Let_def nat [symmetric] by simp
  have W: "cache_ok p {} k4" "memdisk k4 = disk_after [(unat ?s, ?zero)] (memdisk k3)" "bframe {} ?k k4"
    "dirty_blocks k4 = dirty_blocks k3 - {?s}" "disk_writes k4 = disk_writes k3 @ [(unat ?s, ?zero)]"
    using k4(2) by (simp_all add: wrote_def)
  have "lh_n k4 = 0" using log_more(3) [OF bframeD(2) [OF W(3)]] by simp
  moreover have "disk_writes k4 = disk_writes k @ commit_writes k n"
    unfolding W(5) D3(5) all [symmetric] by (rule append_assoc)
  moreover have "memdisk k4 = disk_after (commit_writes k n) (memdisk k)"
    unfolding W(2) D3(3) all [symmetric] disk_after_append by (rule refl)
  moreover have "dirty_blocks k4 = dirty_blocks k - {?s} - log_addr ?s ` {..<n} - lh_block k ` {..<n}"
    unfolding W(4) D3(4) by (force simp: image_iff)
  ultimately show ?thesis using run W(1) by blast
qed

text \<open>A block is read, looked at and released; the cache may have been clean before.\<close>

lemma peek_ok:
  assumes "runs p m" "cache_ok p {} k" "dirty_blocks k = {}" "bno < disksize k"
  obtains b k1 where "bread 1 bno es m k = Inr (Some (b, es), m, k1)" "b_data (bufs k1 b) = memdisk k (unat bno)"
    "cache_ok p {b} k1" "memdisk k1 = memdisk k" "dirty_blocks k1 = {}" "disk_writes k1 = disk_writes k" "bframe {} k k1"
    "b_blockno (bufs k1 b) = bno"
proof -
  obtain b k1 where r: "bread 1 bno es m k = Inr (Some (b, es), m, k1)" "bread_post p {} bno k b k1"
    by (rule bread_post_room [OF assms(1,2,4), of es]) (use assms(3) in \<open>auto simp: NBUF_def\<close>)
  note P = r(2) [unfolded bread_post_def]
  have "b_data (bufs k1 b) = memdisk k (unat bno)" using P clean_view [OF assms(2), of bno] assms(3) by simp
  then show thesis using that [OF r(1)] P assms(3) by simp
qed

lemma peek_release:
  assumes "runs p m" "cache_ok p {b} k" "b_data (bufs k b) = memdisk k (unat (b_blockno (bufs k b)))"
  shows "brelse b m k = Inr ((), m, released b k)" "cache_ok p {} (released b k)"
    "dirty_blocks (released b k) = dirty_blocks k"
  using brelse_ok [OF assms(1,2)] released_ok [OF assms(2) singletonI] assms(3) by simp_all

lemma released_log [simp]:
  "lg_dev (released b k) = lg_dev k" "lg_start (released b k) = lg_start k" "lh_n (released b k) = lh_n k"
  "lh_block (released b k) = lh_block k"
  by (rule log_more; simp)+

lemma read_head_ok:
  fixes k :: "'a logstate_scheme"
  assumes "runs p m" "cache_ok p {} k" "dirty_blocks k = {}" "lg_dev k = 1" "lg_start k < disksize k"
    and hd: "le32 (memdisk k (unat (lg_start k))) 0 = of_nat n" "n \<le> LOGSIZE"
  shows "\<exists>k'. read_head es m k = Inr (Some ((), es), m, k') \<and> cache_ok p {} k' \<and> dirty_blocks k' = {} \<and>
    memdisk k' = memdisk k \<and> disk_writes k' = disk_writes k \<and> disksize k' = disksize k \<and> lg_dev k' = 1 \<and>
    lg_start k' = lg_start k \<and> lh_n k' = int n \<and> (\<forall>i < n. lh_block k' i = header_block (memdisk k (unat (lg_start k))) i)"
proof -
  let ?s = "lg_start k" and ?d = "memdisk k (unat (lg_start k))"
  obtain b k1 where r: "bread 1 ?s es m k = Inr (Some (b, es), m, k1)" "b_data (bufs k1 b) = ?d"
    "cache_ok p {b} k1" "memdisk k1 = memdisk k" "dirty_blocks k1 = {}" "disk_writes k1 = disk_writes k" "bframe {} k k1"
    "b_blockno (bufs k1 b) = ?s"
    by (rule peek_ok [OF assms(1,2,3,5), of es])
  note L = log_more [OF bframeD(2) [OF r(7)]] bframeD(1) [OF r(7)]
  define k2 where "k2 = k1\<lparr>lh_n := int n, lh_block := (\<lambda>i. if int i < int n then header_block ?d i else lh_block k1 i)\<rparr>"
  have n: "sint (of_nat n :: uint) = int n"
    using hd(2) unat32_of_nat [of n]
    by (simp add: LOGSIZE_def sint_uint uint_nat signed_take_bit_int_eq_self del: unsigned_of_nat of_nat_unat)
  have k2: "cache_ok p {b} k2" "b_data (bufs k2 b) = memdisk k2 (unat (b_blockno (bufs k2 b)))" "dirty_blocks k2 = {}"
    using r(2-5,8) by (simp_all add: k2_def)
  have "read_head es m k = Inr (Some ((), es), m, released b k2)"
    using r(1,2) assms(4) hd n peek_release(1) [OF assms(1) k2(1,2)]
    by (simp add: read_head_def km_simps Let_def k2_def cong: if_cong)
  moreover have "memdisk k2 = memdisk k" "disk_writes k2 = disk_writes k" "disksize k2 = disksize k" "lg_dev k2 = 1"
    "lg_start k2 = ?s" "lh_n k2 = int n" "\<forall>i < n. lh_block k2 i = header_block ?d i"
    using r(4,6) L assms(4) by (simp_all add: k2_def)
  ultimately show ?thesis using peek_release(2,3) [OF assms(1) k2(1,2)] k2(3) by simp
qed

lemma recover_ok:
  fixes k :: "'a logstate_scheme"
  assumes "runs p m" "cache_ok p {} k" "dirty_blocks k = {}" "lg_dev k = 1" "unat (lg_start k) + LOGSIZE < unat (disksize k)"
    and "d = memdisk k" "s = unat (lg_start k)"
    and hd: "le32 (d s) 0 = of_nat n" "\<And>i. i < n \<Longrightarrow> header_block (d s) i = bs i"
    and homes: "homes_ok (lg_start k) (disksize k) bs n"
  shows "\<exists>k' h. recover_from_log es m k = Inr (Some ((), es), m, k') \<and>
    memdisk k' = disk_after (map (\<lambda>i. (unat (bs i), d (s + i + 1))) [0..<n] @ [(s, h)]) d \<and> le32 h 0 = 0 \<and>
    cache_ok p {} k' \<and> lh_n k' = 0"
proof -
  have n: "n \<le> LOGSIZE" using homes by (simp add: homes_ok_def)
  have s: "lg_start k < disksize k" using assms(5) by (simp add: word_less_nat_alt)
  obtain k1 where k1: "read_head es m k = Inr (Some ((), es), m, k1)" "cache_ok p {} k1" "dirty_blocks k1 = {}"
    "memdisk k1 = d" "disksize k1 = disksize k" "lg_dev k1 = 1" "lg_start k1 = lg_start k" "lh_n k1 = int n"
    "\<And>i. i < n \<Longrightarrow> lh_block k1 i = bs i"
    using read_head_ok [OF assms(1-4) s, of n es] hd n unfolding assms(6,7) by auto
  have "homes_ok (lg_start k1) (disksize k1) (lh_block k1) n"
    using homes k1(5,7,9) inj_on_cong [of "{..<n}" "lh_block k1" bs] by (simp add: homes_ok_def)
  then have lo: "log_ok n k1" using k1(5-8) assms(5) by (simp add: log_ok_def)
  let ?w = "map (\<lambda>i. (lh_block k1 i, cview k1 (log_addr (lg_start k1) i))) [0..<n]"
  obtain k2 where k2: "install_trans es m k1 = Inr (Some ((), es), m, k2)" "wrote_list p ?w k1 k2"
    using install_trans_ok [OF assms(1) k1(2) lo, of es] k1(3) by (auto simp: NBUF_def)
  note D = wrote_listD [OF k2(2)] note L = log_more [OF bframeD(2) [OF D(6)]] bframeD(1) [OF D(6)]
  have w: "map at_nat ?w = map (\<lambda>i. (unat (bs i), d (s + i + 1))) [0..<n]"
    using clean_view [OF k1(2)] k1(3,4,7,9) n unat_log_addr(1) [OF assms(5)] by (auto simp: assms(7))
  obtain k3 where k3: "write_head es m (k2\<lparr>lh_n := 0\<rparr>) = Inr (Some ((), es), m, k3)"
    "wrote p (lg_start k) (header (lh_block k1) 0 (cview k2 (lg_start k))) (k2\<lparr>lh_n := 0\<rparr>) k3"
    using write_head_ok [OF assms(1), of "k2\<lparr>lh_n := 0\<rparr>" 0 es] D(1,4) L k1 s by (auto simp: NBUF_def)
  let ?h = "header (lh_block k1) 0 (cview k2 (lg_start k))"
  have W: "cache_ok p {} k3" "memdisk k3 = (memdisk k2)(s := ?h)" "bframe {} (k2\<lparr>lh_n := 0\<rparr>) k3"
    using k3(2) by (simp_all add: wrote_def assms(7))
  have "memdisk k3 = disk_after (map (\<lambda>i. (unat (bs i), d (s + i + 1))) [0..<n] @ [(s, ?h)]) d"
    unfolding W(2) D(3) k1(4) w by (simp add: disk_after_append)
  moreover have "recover_from_log es m k = Inr (Some ((), es), m, k3)"
    using k1(1) k2(1) k3(1) by (simp add: recover_from_log_def km_simps)
  moreover have "lh_n k3 = 0" using log_more(3) [OF bframeD(2) [OF W(3)]] by simp
  moreover have "le32 ?h 0 = 0" using header_count [of _ 0] by simp
  ultimately show ?thesis using W(1) by blast
qed

section \<open>The disk after a crash\<close>

text \<open>
  The disk after the first \<open>j\<close> writes of a commit: \<open>S\<close> is the header block, \<open>hb i\<close> the home of the block
  logged at \<open>S + i + 1\<close>, and \<open>v i\<close> its new contents.
\<close>

lemma crash_before:
  assumes "j \<le> n" "n \<le> L" "x \<le> S \<or> S + L < x"
  shows "disk_after (take j (map (\<lambda>i. (S + i + 1, v i)) [0..<n] @ ws)) d x = d x"
proof -
  have "set (take j (map (\<lambda>i. (S + i + 1, v i)) [0..<n])) \<subseteq> set (map (\<lambda>i. (S + i + 1, v i)) [0..<n])"
    by (rule set_take_subset)
  then have "x \<notin> fst ` set (take j (map (\<lambda>i. (S + i + 1, v i)) [0..<n]))" using assms(2,3) by fastforce
  then show ?thesis using assms(1) by (simp add: disk_after_notin)
qed

lemma crash_after:
  assumes "n < j" "n \<le> L" "\<And>i. i < n \<Longrightarrow> hb i < S \<or> S + L < hb i"
    and "D = disk_after (take j (map (\<lambda>i. (S + i + 1, v i)) [0..<n] @ [(S, h)] @ map (\<lambda>i. (hb i, v i)) [0..<n])) d"
  shows "D S = h" "\<And>i. i < n \<Longrightarrow> D (S + i + 1) = v i" "\<And>x. x < S \<or> S + L < x \<Longrightarrow> x \<notin> hb ` {..<n} \<Longrightarrow> D x = d x"
proof -
  let ?A = "map (\<lambda>i. (S + i + 1, v i)) [0..<n]" and ?B = "take (j - n - 1) (map (\<lambda>i. (hb i, v i)) [0..<n])"
  have D: "D = disk_after ?B ((disk_after ?A d)(S := h))"
    using assms(1) unfolding assms(4) by (simp add: take_Cons' disk_after_append flip: append_Cons)
  have B: "x \<notin> fst ` set ?B" if "x \<notin> hb ` {..<n}" for x
  proof -
    have "fst ` set ?B \<subseteq> fst ` set (map (\<lambda>i. (hb i, v i)) [0..<n])" by (intro image_mono set_take_subset)
    then show ?thesis using that by auto
  qed
  have "S \<notin> hb ` {..<n}" using assms(3) by fastforce
  then have "D S = ((disk_after ?A d)(S := h)) S" unfolding D by (intro disk_after_notin B)
  then show "D S = h" by simp
  show "D (S + i + 1) = v i" if i: "i < n" for i
  proof -
    have "S + i + 1 \<notin> hb ` {..<n}" using assms(2,3) i by fastforce
    then have "D (S + i + 1) = ((disk_after ?A d)(S := h)) (S + i + 1)" unfolding D by (intro disk_after_notin B)
    also have "\<dots> = disk_after ?A d (S + i + 1)" by simp
    also have "\<dots> = v i" by (rule disk_after_map [OF i]) (simp add: inj_on_def)
    finally show ?thesis .
  qed
  show "D x = d x" if x: "x < S \<or> S + L < x" "x \<notin> hb ` {..<n}" for x
  proof -
    have "x \<notin> fst ` set ?A" using assms(2) x(1) by fastforce
    moreover have "x \<noteq> S" using x(1) by auto
    moreover have "D x = ((disk_after ?A d)(S := h)) x" unfolding D by (intro disk_after_notin B x(2))
    ultimately show ?thesis by (simp add: disk_after_notin)
  qed
qed

lemma crash_end:
  assumes "inj_on hb {..<n}" "n \<le> L" "\<And>i. i < n \<Longrightarrow> hb i < S \<or> S + L < hb i"
    and "D = disk_after (map (\<lambda>i. (S + i + 1, v i)) [0..<n] @ [(S, h)] @ map (\<lambda>i. (hb i, v i)) [0..<n] @ [(S, h')]) d"
  shows "D S = h'" "\<And>i. i < n \<Longrightarrow> D (hb i) = v i" "\<And>x. x < S \<or> S + L < x \<Longrightarrow> x \<notin> hb ` {..<n} \<Longrightarrow> D x = d x"
proof -
  let ?A = "map (\<lambda>i. (S + i + 1, v i)) [0..<n]" and ?B = "map (\<lambda>i. (hb i, v i)) [0..<n]"
  have "?A @ [(S, h)] @ ?B @ [(S, h')] = ((?A @ [(S, h)]) @ ?B) @ [(S, h')]" by simp
  then have D: "D = (disk_after ?B ((disk_after ?A d)(S := h)))(S := h')"
    unfolding assms(4) by (simp only: disk_after_append disk_after_simps)
  show "D S = h'" unfolding D by simp
  show "D (hb i) = v i" if i: "i < n" for i
  proof -
    have "hb i \<noteq> S" using assms(3) [OF i] by auto
    then show ?thesis unfolding D using disk_after_map [OF i assms(1), of v "(disk_after ?A d)(S := h)"] by simp
  qed
  show "D x = d x" if x: "x < S \<or> S + L < x" "x \<notin> hb ` {..<n}" for x
  proof -
    have "x \<notin> fst ` set ?A" using assms(2) x(1) by fastforce
    moreover have "x \<notin> fst ` set ?B" using x(2) by auto
    moreover have "x \<noteq> S" using x(1) by auto
    ultimately show ?thesis unfolding D by (simp add: disk_after_notin)
  qed
qed

text \<open>
  \<open>recovers\<close>: the header on the disk \<open>D\<close> announces 0 or \<open>n\<close> blocks, the latter at their homes, and copying
  that many from the log gives, outside of the log, the old disk \<open>d\<close> or the new one.
\<close>

definition recovers :: "nat \<Rightarrow> nat \<Rightarrow> (nat \<Rightarrow> uint) \<Rightarrow> nat \<Rightarrow> (nat \<Rightarrow> block) \<Rightarrow> (nat \<Rightarrow> block) \<Rightarrow> (nat \<Rightarrow> block) \<Rightarrow> bool" where
  "recovers S L bs n d new D \<longleftrightarrow> (\<exists>c \<in> {0, n}. le32 (D S) 0 = of_nat c \<and> (\<forall>i < c. header_block (D S) i = bs i) \<and>
     (let R = disk_after (map (\<lambda>i. (unat (bs i), D (S + i + 1))) [0..<c]) D
      in (\<forall>x. x < S \<or> S + L < x \<longrightarrow> R x = d x) \<or> (\<forall>x. x < S \<or> S + L < x \<longrightarrow> R x = new x)))"

lemma recovers_old:
  assumes "le32 (D S) 0 = 0" "\<And>x. x < S \<or> S + L < x \<Longrightarrow> D x = d x"
  shows "recovers S L bs n d new D"
  using assms by (simp add: recovers_def)

lemma recovers_new:
  assumes "le32 (D S) 0 = 0" "\<And>x. x < S \<or> S + L < x \<Longrightarrow> D x = new x"
  shows "recovers S L bs n d new D"
  using assms by (simp add: recovers_def)

lemma recovers_redo:
  assumes "le32 (D S) 0 = of_nat n" "\<And>i. i < n \<Longrightarrow> header_block (D S) i = bs i"
    and "inj_on (\<lambda>i. unat (bs i)) {..<n}" "\<And>i. i < n \<Longrightarrow> new (unat (bs i)) = D (S + i + 1)"
    and other: "\<And>x. x < S \<or> S + L < x \<Longrightarrow> x \<notin> (\<lambda>i. unat (bs i)) ` {..<n} \<Longrightarrow> D x = new x"
  shows "recovers S L bs n d new D"
proof -
  let ?w = "map (\<lambda>i. (unat (bs i), D (S + i + 1))) [0..<n]"
  have "disk_after ?w D x = new x" if x: "x < S \<or> S + L < x" for x
  proof (cases "x \<in> (\<lambda>i. unat (bs i)) ` {..<n}")
    case True
    then obtain i where i: "i < n" "x = unat (bs i)" by blast
    show ?thesis unfolding i(2) disk_after_map [OF i(1) assms(3)] by (rule assms(4) [OF i(1), symmetric])
  next
    case False
    then have "x \<notin> fst ` set ?w" by auto
    then show ?thesis using other [OF x False] by (simp add: disk_after_notin)
  qed
  then show ?thesis using assms(1,2) by (auto simp: recovers_def Let_def)
qed

lemma crash_recovers:
  assumes "n \<le> L" "inj_on (\<lambda>i. unat (bs i)) {..<n}" "\<And>i. i < n \<Longrightarrow> unat (bs i) < S \<or> S + L < unat (bs i)"
    and new: "\<And>i. i < n \<Longrightarrow> new (unat (bs i)) = v i" "\<And>x. x \<notin> (\<lambda>i. unat (bs i)) ` {..<n} \<Longrightarrow> new x = d x"
    and hd: "le32 (d S) 0 = 0" "h = header bs n c" "h' = header bs 0 c'"
    and W: "W = map (\<lambda>i. (S + i + 1, v i)) [0..<n] @ [(S, h)] @ map (\<lambda>i. (unat (bs i), v i)) [0..<n] @ [(S, h')]"
    and j: "j \<le> length W" and D: "D = disk_after (take j W) d"
  shows "recovers S L bs n d new D"
proof -
  consider "j \<le> n" | "n < j" "j \<le> 2 * n + 1" | "j = 2 * n + 2" using j unfolding W by fastforce
  then show ?thesis
  proof cases
    case 1
    have same: "D x = d x" if "x \<le> S \<or> S + L < x" for x
      unfolding D W by (rule crash_before [OF 1 assms(1) that])
    show ?thesis by (rule recovers_old) (use same hd(1) in auto)
  next
    case 2
    let ?X = "map (\<lambda>i. (S + i + 1, v i)) [0..<n] @ [(S, h)] @ map (\<lambda>i. (unat (bs i), v i)) [0..<n]"
    have "W = ?X @ [(S, h')]" "j \<le> length ?X" unfolding W using 2(2) by simp_all
    then have "D = disk_after (take j ?X) d" unfolding D by (simp only: take_append diff_is_0_eq' take_0 append_Nil2)
    note C = crash_after [OF 2(1) assms(1,3) this, simplified]
    show ?thesis
      by (rule recovers_redo) (use C new hd header_count [of bs n c] header_nth [of _ n bs c] assms(2) in auto)
  next
    case 3
    have "D = disk_after (map (\<lambda>i. (S + i + 1, v i)) [0..<n] @ [(S, h)] @ map (\<lambda>i. (unat (bs i), v i)) [0..<n] @ [(S, h')]) d"
      unfolding D W using 3 by simp
    note C = crash_end [OF assms(2,1,3) this, simplified]
    have "D x = new x" if x: "x < S \<or> S + L < x" for x
    proof (cases "x \<in> (\<lambda>i. unat (bs i)) ` {..<n}")
      case True
      then obtain i where i: "i < n" "x = unat (bs i)" by blast
      then show ?thesis using C(2) [OF i(1)] new(1) [OF i(1)] by simp
    qed (use C(3) [OF x] new(2) in simp)
    then show ?thesis by (intro recovers_new) (use C(1) hd(3) header_count [of bs 0 c'] in auto)
  qed
qed

section \<open>Reboot\<close>

lemma readsb_ok:
  assumes "runs p m" "cache_ok p {} k" "dirty_blocks k = {}" "1 < disksize k"
  shows "\<exists>k' sb. readsb 1 es m k = Inr (Some (sb, es), m, k') \<and> sb_logstart sb = le32 (memdisk k 1) 16 \<and>
    cache_ok p {} k' \<and> dirty_blocks k' = {} \<and> memdisk k' = memdisk k \<and> disksize k' = disksize k"
proof -
  obtain b k1 where r: "bread 1 1 es m k = Inr (Some (b, es), m, k1)" "b_data (bufs k1 b) = memdisk k (unat (1 :: uint))"
    "cache_ok p {b} k1" "memdisk k1 = memdisk k" "dirty_blocks k1 = {}" "bframe {} k k1" "b_blockno (bufs k1 b) = 1"
    by (rule peek_ok [OF assms, of es])
  have d: "b_data (bufs k1 b) = memdisk k1 (unat (b_blockno (bufs k1 b)))" using r(2,4,7) by simp
  note rel = peek_release [OF assms(1) r(3) d]
  show ?thesis
    using r(1,2,4,5) rel bframeD(1) [OF r(6)] by (simp add: readsb_def km_simps)
qed

text \<open>What happens at boot: the cache is set up and the log is recovered.\<close>

definition reboot :: "('a logstate_scheme, unit) bkm" where
  "reboot = bthen (lift binit) (initlog 1)"

lemma log_fields_upd [simp]:
  "cache_ok p H (k\<lparr>lg_start := s, lg_size := z, lg_dev := d\<rparr>) = cache_ok p H k"
  "dirty_blocks (k\<lparr>lg_start := s, lg_size := z, lg_dev := d\<rparr>) = dirty_blocks k"
  by (rule cache_cong; simp)+

lemma reboot_ok:
  fixes r :: "'a logstate_scheme"
  assumes "runs p m" "\<forall>b. blank (bufs r b)" "unat s + LOGSIZE < unat (disksize r)" "D = memdisk r"
    and "le32 (D 1) 16 = s" "le32 (D (unat s)) 0 = of_nat n" "\<And>i. i < n \<Longrightarrow> header_block (D (unat s)) i = bs i"
    and "homes_ok s (disksize r) bs n"
  shows "\<exists>r' h. reboot es m r = Inr (Some ((), es), m, r') \<and>
    memdisk r' = disk_after (map (\<lambda>i. (unat (bs i), D (unat s + i + 1))) [0..<n] @ [(unat s, h)]) D"
proof -
  obtain k1 where k1: "binit m r = Inr ((), m, k1)" "cache_ok p {} k1" "dirty_blocks k1 = {}" "memdisk k1 = D"
    "disksize k1 = disksize r"
    using binit_ok [OF runsD(1) [OF assms(1)] assms(2)] assms(4) by auto
  have "1 < disksize k1" using assms(3) k1(5) by (simp add: word_less_nat_alt LOGSIZE_def)
  then obtain k2 sb where k2: "readsb 1 es m k1 = Inr (Some (sb, es), m, k2)" "sb_logstart sb = s" "cache_ok p {} k2"
    "dirty_blocks k2 = {}" "memdisk k2 = D" "disksize k2 = disksize r"
    using readsb_ok [OF assms(1) k1(2,3), of es] k1(4,5) assms(5) by auto
  let ?k = "k2\<lparr>lg_start := s, lg_size := sint (sb_nlog sb), lg_dev := 1\<rparr>"
  have "\<exists>r' h. recover_from_log es m ?k = Inr (Some ((), es), m, r') \<and>
      memdisk r' = disk_after (map (\<lambda>i. (unat (bs i), D (unat s + i + 1))) [0..<n] @ [(unat s, h)]) D \<and> le32 h 0 = 0 \<and>
      cache_ok p {} r' \<and> lh_n r' = 0"
    by (rule recover_ok [OF assms(1)]) (use k2(3-6) assms(3,6-8) in simp_all)
  then obtain r' h where "recover_from_log es m ?k = Inr (Some ((), es), m, r')"
    "memdisk r' = disk_after (map (\<lambda>i. (unat (bs i), D (unat s + i + 1))) [0..<n] @ [(unat s, h)]) D" by blast
  moreover have "lock_free LogLock m" using runsD(1) [OF assms(1)] by simp
  ultimately show ?thesis
    using k1(1) k2(1,2) by (simp add: reboot_def initlog_def km_simps initlock_free LOGSIZE_def BSIZE_def) blast
qed

lemma reboot_recovers:
  fixes r :: "'a logstate_scheme"
  assumes "runs p m" "\<forall>b. blank (bufs r b)" "unat s + LOGSIZE < unat (disksize r)" "le32 (memdisk r 1) 16 = s"
    and "homes_ok s (disksize r) bs n" "recovers (unat s) LOGSIZE bs n d new (memdisk r)"
  shows "\<exists>r'. reboot es m r = Inr (Some ((), es), m, r') \<and>
    ((\<forall>b. \<not> in_log s b \<longrightarrow> memdisk r' (unat b) = d (unat b)) \<or> (\<forall>b. \<not> in_log s b \<longrightarrow> memdisk r' (unat b) = new (unat b)))"
proof -
  obtain c where c: "c \<in> {0, n}" "le32 (memdisk r (unat s)) 0 = of_nat c" "\<forall>i < c. header_block (memdisk r (unat s)) i = bs i"
    and R: "let R = disk_after (map (\<lambda>i. (unat (bs i), memdisk r (unat s + i + 1))) [0..<c]) (memdisk r)
      in (\<forall>x. x < unat s \<or> unat s + LOGSIZE < x \<longrightarrow> R x = d x) \<or> (\<forall>x. x < unat s \<or> unat s + LOGSIZE < x \<longrightarrow> R x = new x)"
    using assms(6) unfolding recovers_def by blast
  have "homes_ok s (disksize r) bs c" using assms(5) c(1) by (auto simp: homes_ok_def)
  then obtain r' h where r': "reboot es m r = Inr (Some ((), es), m, r')"
    "memdisk r' = disk_after (map (\<lambda>i. (unat (bs i), memdisk r (unat s + i + 1))) [0..<c] @ [(unat s, h)]) (memdisk r)"
    using reboot_ok [OF assms(1-3) refl assms(4) c(2), of bs es] c(3) by blast
  let ?R = "disk_after (map (\<lambda>i. (unat (bs i), memdisk r (unat s + i + 1))) [0..<c]) (memdisk r)"
  have mem: "memdisk r' (unat b) = ?R (unat b)" "unat b < unat s \<or> unat s + LOGSIZE < unat b" if "\<not> in_log s b" for b
  proof -
    show out: "unat b < unat s \<or> unat s + LOGSIZE < unat b" using that by (auto simp: in_log_def)
    then show "memdisk r' (unat b) = ?R (unat b)" unfolding r'(2) by (auto simp: disk_after_append)
  qed
  from R consider (old) "\<forall>x. x < unat s \<or> unat s + LOGSIZE < x \<longrightarrow> ?R x = d x"
    | (new) "\<forall>x. x < unat s \<or> unat s + LOGSIZE < x \<longrightarrow> ?R x = new x" unfolding Let_def by blast
  then show ?thesis
  proof cases
    case old
    have "memdisk r' (unat b) = d (unat b)" if "\<not> in_log s b" for b
      unfolding mem(1) [OF that] by (rule old [rule_format, OF mem(2) [OF that]])
    then show ?thesis using r'(1) by blast
  next
    case new
    have "memdisk r' (unat b) = new (unat b)" if "\<not> in_log s b" for b
      unfolding mem(1) [OF that] by (rule new [rule_format, OF mem(2) [OF that]])
    then show ?thesis using r'(1) by blast
  qed
qed

lemma commit_writes_where:
  assumes "x \<in> fst ` set (take j (commit_writes k n))" "n \<le> LOGSIZE"
  shows "(unat (lg_start k) \<le> x \<and> x \<le> unat (lg_start k) + LOGSIZE) \<or> x \<in> (\<lambda>i. unat (lh_block k i)) ` {..<n}"
proof -
  have "x \<in> fst ` set (commit_writes k n)" using assms(1) set_take_subset by fastforce
  then show ?thesis using assms(2)
    by (auto simp: commit_writes_def log_writes_def home_writes_def Let_def)
qed

section \<open>Filling a transaction\<close>

text \<open>
  \<open>tx_ok p H n k\<close>: process \<open>p\<close>, holding the buffers \<open>H\<close>, is in a transaction that has changed \<open>n\<close> blocks so
  far, and exactly those are pinned in the cache.
\<close>

definition tx_ok :: "nat \<Rightarrow> nat set \<Rightarrow> nat \<Rightarrow> 'a logstate_scheme \<Rightarrow> bool" where
  "tx_ok p H n k \<longleftrightarrow> cache_ok p H k \<and> log_ok n k \<and> dirty_blocks k = lh_block k ` {..<n} \<and> 1 \<le> lg_outstanding k \<and>
     int LOGSIZE < lg_size k"

lemma log_slot_cases:
  assumes "lh_n k = int n"
  obtains (old) i where "log_slot bno k = i" "i < n" "lh_block k i = bno" | (new) "log_slot bno k = n" "bno \<notin> lh_block k ` {..<n}"
proof (cases "find (\<lambda>i. lh_block k i = bno) [0..<n]")
  case None
  then have "log_slot bno k = n" using assms by (simp add: log_slot_def)
  moreover have "bno \<notin> lh_block k ` {..<n}" using None by (auto simp: find_upt_None_iff)
  ultimately show thesis by (rule new)
next
  case (Some i)
  then have "log_slot bno k = i" using assms by (simp add: log_slot_def)
  then show thesis using Some by (intro old [of i]) (auto simp: find_upt_Some_iff)
qed

definition pinned :: "nat \<Rightarrow> 'a disk_state_scheme \<Rightarrow> 'a disk_state_scheme" where
  "pinned b = upd_buf b (\<lambda>x. x\<lparr>b_flags := b_flags x OR B_DIRTY\<rparr>)"

lemma pinned_ok:
  assumes "cache_ok p H k" "b \<in> H"
  shows "cache_ok p H (pinned b k)" "cview (pinned b k) = cview k"
    "dirty_blocks (pinned b k) = insert (b_blockno (bufs k b)) (dirty_blocks k)"
proof -
  note ok = cache_okD [OF assms(1)]
  have b: "b < NBUF" using ok(1) assms(2) by auto
  have once: "cached_once (pinned b k)" by (rule cached_once_cong [OF ok(4)]) (simp add: pinned_def)
  have "buf_ok p H (pinned b k) c" if "c < NBUF" for c
    using ok(3) [OF that] assms(2) by (cases "c = b") (auto simp: buf_ok_def Let_def pinned_def buf_mine_def)
  then show "cache_ok p H (pinned b k)"
    using ok once by (simp add: cache_ok_def) (simp add: pinned_def linked_upd_buf)
  show "cview (pinned b k) = cview k"
    by (rule ext) (rule cview_upd_other [OF ok(4) once], simp_all add: pinned_def)
  have "{c. c < NBUF \<and> dirty (bufs (pinned b k) c)} = insert b {c. c < NBUF \<and> dirty (bufs k c)}"
    using b by (auto simp: pinned_def)
  moreover have "(\<lambda>c. b_blockno (bufs (pinned b k) c)) = (\<lambda>c. b_blockno (bufs k c))"
    by (rule ext) (simp add: pinned_def)
  ultimately show "dirty_blocks (pinned b k) = insert (b_blockno (bufs k b)) (dirty_blocks k)"
    unfolding dirty_blocks_def by (simp only: image_insert)
qed

lemma slot_homes:
  assumes "lh_n k = int n" "homes_ok s sz (lh_block k) n" "n < LOGSIZE" "bno < sz" "\<not> in_log s bno"
  shows "(lh_block k)(log_slot bno k := bno) ` {..<if log_slot bno k = n then Suc n else n} = insert bno (lh_block k ` {..<n})"
    "homes_ok s sz ((lh_block k)(log_slot bno k := bno)) (if log_slot bno k = n then Suc n else n)"
proof (induction rule: log_slot_cases [OF assms(1), of bno])
  case (1 i)
  then have "(lh_block k)(i := bno) = lh_block k" by auto
  moreover have "bno \<in> lh_block k ` {..<n}" using 1 by (metis imageI lessThan_iff)
  ultimately show "(lh_block k)(log_slot bno k := bno) ` {..<if log_slot bno k = n then Suc n else n} = insert bno (lh_block k ` {..<n})"
    "homes_ok s sz ((lh_block k)(log_slot bno k := bno)) (if log_slot bno k = n then Suc n else n)"
    using 1 assms(2) by (simp_all add: insert_absorb)
next
  case 2
  have "(lh_block k)(n := bno) ` {..<n} = lh_block k ` {..<n}" by (rule image_cong) auto
  with 2 show "(lh_block k)(log_slot bno k := bno) ` {..<if log_slot bno k = n then Suc n else n} = insert bno (lh_block k ` {..<n})"
    by (simp add: lessThan_Suc del: fun_upd_apply) (simp add: fun_upd_same)
  have "inj_on ((lh_block k)(n := bno)) {..<Suc n}"
    using 2 assms(2) unfolding inj_on_def homes_ok_def by (auto simp: less_Suc_eq)
  then show "homes_ok s sz ((lh_block k)(log_slot bno k := bno)) (if log_slot bno k = n then Suc n else n)"
    using 2 assms(2-5) by (auto simp: homes_ok_def less_Suc_eq)
qed

text \<open>
  What a reader of a block, and a writer of one through \<open>log_write\<close>, keep of the rest of the state.
\<close>

definition held_same :: "nat set \<Rightarrow> 'a disk_state_scheme \<Rightarrow> 'a disk_state_scheme \<Rightarrow> bool" where
  "held_same H k k' \<longleftrightarrow> (\<forall>c \<in> H. b_data (bufs k' c) = b_data (bufs k c) \<and> b_blockno (bufs k' c) = b_blockno (bufs k c) \<and>
     b_flags (bufs k' c) = b_flags (bufs k c))"

definition tx_frame :: "'a logstate_scheme \<Rightarrow> 'a logstate_scheme \<Rightarrow> bool" where
  "tx_frame k k' \<longleftrightarrow> memdisk k' = memdisk k \<and> disksize k' = disksize k \<and> disk_writes k' = disk_writes k \<and>
     lg_start k' = lg_start k \<and> logstate.more k' = logstate.more k"

lemma log_write_ok:
  assumes "runs p m" "tx_ok p H n k" "b \<in> H" "n < LOGSIZE" "\<not> in_log (lg_start k) (b_blockno (bufs k b))"
  shows "\<exists>k' n'. log_write b m k = Inr ((), m, k') \<and> tx_ok p H n' k' \<and> n' \<le> Suc n \<and> cview k' = cview k \<and>
    tx_frame k k' \<and> bufs k' = bufs (pinned b k) \<and> lh_block k' ` {..<n'} = insert (b_blockno (bufs k b)) (lh_block k ` {..<n})"
proof -
  let ?bno = "b_blockno (bufs k b)" and ?i = "log_slot (b_blockno (bufs k b)) k"
  have tx: "cache_ok p H k" "log_ok n k" "dirty_blocks k = lh_block k ` {..<n}" "1 \<le> lg_outstanding k" "int LOGSIZE < lg_size k"
    using assms(2) by (simp_all add: tx_ok_def)
  have n: "lh_n k = int n" using tx(2) by (simp add: log_ok_def)
  define n' where "n' = (if ?i = n then Suc n else n)"
  define k1 where "k1 = k\<lparr>lh_block := (lh_block k)(?i := ?bno), lh_n := int n'\<rparr>"
  have run: "log_write b m k = Inr ((), m, pinned b k1)"
    using n tx(4,5) assms(4) runsD(1) [OF assms(1)]
    by (simp add: log_write_def km_simps pinned_def k1_def n'_def upd_buf_def)
  have k1: "cache_ok p H k1" "cview k1 = cview k" "dirty_blocks k1 = dirty_blocks k" "bufs k1 = bufs k"
    using tx(1) by (simp_all add: k1_def)
  note pin = pinned_ok [OF k1(1) assms(3)]
  have "b < NBUF" "?bno < disksize k"
    using cache_okD(1) [OF tx(1)] buf_okD(5,9) [OF cache_okD(3) [OF tx(1)], of b] assms(3) by auto
  then have img: "lh_block k1 ` {..<n'} = insert ?bno (lh_block k ` {..<n})" "homes_ok (lg_start k) (disksize k) (lh_block k1) n'"
    using slot_homes [OF n _ assms(4) _ assms(5), of "disksize k"] tx(2) by (simp_all add: n'_def k1_def log_ok_def del: fun_upd_apply)
  have sel: "lg_start (pinned b k1) = lg_start k" "lh_n (pinned b k1) = int n'" "lg_dev (pinned b k1) = lg_dev k"
    "lh_block (pinned b k1) = lh_block k1" "disksize (pinned b k1) = disksize k" "memdisk (pinned b k1) = memdisk k"
    "disk_writes (pinned b k1) = disk_writes k" "lg_outstanding (pinned b k1) = lg_outstanding k" "lg_size (pinned b k1) = lg_size k"
    "bufs (pinned b k1) = bufs (pinned b k)" "logstate.more (pinned b k1) = logstate.more k"
    by (simp_all add: pinned_def k1_def upd_buf_def)
  have "tx_ok p H n' (pinned b k1)"
    using pin tx img k1(3,4) by (simp add: tx_ok_def sel log_ok_def)
  moreover have "tx_frame k (pinned b k1)" by (simp add: tx_frame_def sel)
  ultimately show ?thesis using run pin(2) k1(2) img(1) sel n'_def by (intro exI [of _ "pinned b k1"] exI [of _ n']) auto
qed

lemma tx_okD:
  assumes "tx_ok p H n k"
  shows "cache_ok p H k" "log_ok n k" "dirty_blocks k = lh_block k ` {..<n}" "1 \<le> lg_outstanding k" "card (dirty_blocks k) = n"
proof -
  show "cache_ok p H k" "log_ok n k" "1 \<le> lg_outstanding k" and d: "dirty_blocks k = lh_block k ` {..<n}"
    using assms by (simp_all add: tx_ok_def)
  then have "inj_on (lh_block k) {..<n}" by (simp add: log_ok_def homes_ok_def)
  then show "card (dirty_blocks k) = n" by (simp add: d card_image)
qed

lemma tx_cong:
  assumes "tx_ok p H n k" "cache_ok p H' k'" "dirty_blocks k' = dirty_blocks k" "disk_state.more k' = disk_state.more k"
    "disksize k' = disksize k"
  shows "tx_ok p H' n k'"
  using assms by (simp add: tx_ok_def log_ok_def log_more [OF assms(4)])

lemma tx_room:
  assumes "tx_ok p H n k" "card H + n < NBUF"
  shows "\<exists>b < NBUF. b_refcnt (bufs k b) = 0 \<and> \<not> dirty (bufs k b)"
  using cache_room [OF tx_okD(1) [OF assms(1)]] assms(2) tx_okD(5) [OF assms(1)] by simp

lemma tx_bread:
  assumes "runs p m" "tx_ok p H n k" "bno < disksize k" "\<forall>c \<in> H. b_blockno (bufs k c) \<noteq> bno" "card H + n < NBUF"
  shows "\<exists>b k'. bread 1 bno es m k = Inr (Some (b, es), m, k') \<and> b \<notin> H \<and> tx_ok p (insert b H) n k' \<and>
    b_blockno (bufs k' b) = bno \<and> b_data (bufs k' b) = cview k bno \<and> cview k' = cview k \<and> tx_frame k k' \<and>
    lh_block k' = lh_block k \<and> bframe H k k' \<and> (dirty (bufs k' b) \<or> b_data (bufs k' b) = memdisk k' (unat bno))"
proof -
  obtain b k' where r: "bread 1 bno es m k = Inr (Some (b, es), m, k')" and p: "bread_post p H bno k b k'"
    using bread_ok [OF assms(1) tx_okD(1) [OF assms(2)] assms(3,4) tx_room [OF assms(2,5)], of es] by blast
  from p have more: "disk_state.more k' = disk_state.more k" by (simp add: bread_post_def bframe_def)
  have "dirty (bufs k' b) \<or> b_data (bufs k' b) = memdisk k' (unat bno)"
  proof (cases "bno \<in> dirty_blocks k")
    case True
    then show ?thesis
      using p dirty_iff [of p "insert b H" k' b] buf_okD(5) [OF cache_okD(3), of p "insert b H" k' b] by (simp add: bread_post_def)
  next
    case False
    then show ?thesis
      using clean_view_held [OF tx_okD(1) [OF assms(2)] _ assms(4)] p by (simp add: bread_post_def)
  qed
  moreover from p have "tx_ok p (insert b H) n k'"
    by (intro tx_cong [OF assms(2)]) (simp_all add: bread_post_def bframe_def)
  ultimately show ?thesis
    using r p by (intro exI [of _ b] exI [of _ k']) (simp add: bread_post_def bframe_def tx_frame_def log_more [OF more])
qed

lemma tx_brelse:
  assumes "runs p m" "tx_ok p H n k" "b \<in> H"
    and "dirty (bufs k b) \<or> b_data (bufs k b) = memdisk k (unat (b_blockno (bufs k b)))"
  shows "brelse b m k = Inr ((), m, released b k)" "tx_ok p (H - {b}) n (released b k)" "cview (released b k) = cview k"
    "tx_frame k (released b k)" "lh_block (released b k) = lh_block k" "bframe (H - {b}) k (released b k)"
proof -
  note c = tx_okD(1) [OF assms(2)]
  note rel = released_ok [OF c assms(3,4)]
  have more: "disk_state.more (released b k) = disk_state.more k" by simp
  show "brelse b m k = Inr ((), m, released b k)" by (rule brelse_ok [OF assms(1) c assms(3)])
  show "tx_ok p (H - {b}) n (released b k)" by (rule tx_cong [OF assms(2) rel(1,3)]) simp_all
  show "cview (released b k) = cview k" "bframe (H - {b}) k (released b k)" by (fact rel)+
  show "tx_frame k (released b k)" "lh_block (released b k) = lh_block k"
    by (simp_all add: tx_frame_def log_more [OF more])
qed

text \<open>A block changed in a transaction: read, filled with \<open>d\<close>, logged and released.\<close>

lemma tx_write:
  fixes d :: block
  assumes "runs p m" "tx_ok p H n k" "b \<in> H" "n < LOGSIZE" "\<not> in_log (lg_start k) (b_blockno (bufs k b))"
  shows "\<exists>k' k'' n'. log_write b m (set_data b d k) = Inr ((), m, k') \<and> brelse b m k' = Inr ((), m, k'') \<and>
    tx_ok p (H - {b}) n' k'' \<and> n' \<le> Suc n \<and> cview k'' = (cview k)(b_blockno (bufs k b) := d) \<and> tx_frame k k'' \<and>
    lh_block k'' ` {..<n'} = insert (b_blockno (bufs k b)) (lh_block k ` {..<n}) \<and> held_same (H - {b}) k k''"
proof -
  let ?k = "set_data b d k"
  note sd = set_data_ok [OF tx_okD(1) [OF assms(2)] assms(3), of d]
  have more: "disk_state.more ?k = disk_state.more k" "disksize ?k = disksize k" "memdisk ?k = memdisk k"
    "disk_writes ?k = disk_writes k" "b_blockno (bufs ?k b) = b_blockno (bufs k b)" by (simp_all add: set_data_def)
  have tx: "tx_ok p H n ?k" by (rule tx_cong [OF assms(2) sd(1,3) more(1,2)])
  obtain k' n' where k': "log_write b m ?k = Inr ((), m, k')" "tx_ok p H n' k'" "n' \<le> Suc n" "cview k' = cview ?k"
    "tx_frame ?k k'" "bufs k' = bufs (pinned b ?k)" "lh_block k' ` {..<n'} = insert (b_blockno (bufs k b)) (lh_block k ` {..<n})"
    using log_write_ok [OF assms(1) tx assms(3,4)] assms(5) by (auto simp: tx_frame_def log_more [OF more(1)] more(5))
  have "dirty (bufs k' b)" by (simp add: k'(6) pinned_def)
  note rel = tx_brelse [OF assms(1) k'(2) assms(3) disjI1 [OF this]]
  have "tx_frame k (released b k')"
    using rel(4) k'(5) by (simp add: tx_frame_def log_more [OF more(1)] more)
  moreover have "held_same (H - {b}) k (released b k')"
    by (simp add: held_same_def k'(6) pinned_def set_data_def)
  ultimately show ?thesis using k' rel sd(2) by (intro exI [of _ k'] exI [of _ "released b k'"] exI [of _ n']) simp
qed

lemma tx_modify:
  fixes d :: "block \<Rightarrow> block"
  assumes "runs p m" "tx_ok p H n k" "bno < disksize k" "\<forall>c \<in> H. b_blockno (bufs k c) \<noteq> bno" "card H + n < NBUF"
    and "\<not> in_log (lg_start k) bno"
  shows "\<exists>b k1 k2 k' n'. bread 1 bno es m k = Inr (Some (b, es), m, k1) \<and> b_data (bufs k1 b) = cview k bno \<and>
    logstate.more k1 = logstate.more k \<and>
    log_write b m (set_data b (d (cview k bno)) k1) = Inr ((), m, k2) \<and> brelse b m k2 = Inr ((), m, k') \<and>
    tx_ok p H n' k' \<and> n' \<le> Suc n \<and> cview k' = (cview k)(bno := d (cview k bno)) \<and> tx_frame k k' \<and> held_same H k k'"
proof -
  obtain b k1 where k1: "bread 1 bno es m k = Inr (Some (b, es), m, k1)" "b \<notin> H" "tx_ok p (insert b H) n k1"
    "b_blockno (bufs k1 b) = bno" "b_data (bufs k1 b) = cview k bno" "cview k1 = cview k" "tx_frame k k1" "bframe H k k1"
    using tx_bread [OF assms(1-5), of es] by blast
  have st: "lg_start k1 = lg_start k" "logstate.more k1 = logstate.more k" using k1(7) by (simp_all add: tx_frame_def)
  have "n < LOGSIZE" using assms(5) by (simp add: NBUF_def LOGSIZE_def)
  then obtain k2 k' n' where k': "log_write b m (set_data b (d (cview k bno)) k1) = Inr ((), m, k2)" "brelse b m k2 = Inr ((), m, k')"
    "tx_ok p (insert b H - {b}) n' k'" "n' \<le> Suc n" "cview k' = (cview k1)(bno := d (cview k bno))" "tx_frame k1 k'"
    "held_same (insert b H - {b}) k1 k'"
    using tx_write [OF assms(1) k1(3), of b "d (cview k bno)"] assms(6) st(1) k1(4) by auto
  have "insert b H - {b} = H" using k1(2) by simp
  moreover have "tx_frame k k'" "held_same H k k'"
    using k1(7,8) k'(6,7) calculation by (simp_all add: tx_frame_def held_same_def bframe_def)
  ultimately show ?thesis using k1 k' st(2) by (intro exI [of _ b] exI [of _ k1] exI [of _ k2] exI [of _ k'] exI [of _ n']) simp
qed

text \<open>A block only looked at.\<close>

lemma tx_peek:
  assumes "runs p m" "tx_ok p H n k" "bno < disksize k" "\<forall>c \<in> H. b_blockno (bufs k c) \<noteq> bno" "card H + n < NBUF"
  shows "\<exists>b k1 k'. bread 1 bno es m k = Inr (Some (b, es), m, k1) \<and> b_data (bufs k1 b) = cview k bno \<and>
    logstate.more k1 = logstate.more k \<and> brelse b m k1 = Inr ((), m, k') \<and> tx_ok p H n k' \<and> cview k' = cview k \<and> tx_frame k k' \<and> held_same H k k'"
proof -
  obtain b k1 where k1: "bread 1 bno es m k = Inr (Some (b, es), m, k1)" "b \<notin> H" "tx_ok p (insert b H) n k1"
    "b_blockno (bufs k1 b) = bno" "b_data (bufs k1 b) = cview k bno" "cview k1 = cview k" "tx_frame k k1" "bframe H k k1"
    "dirty (bufs k1 b) \<or> b_data (bufs k1 b) = memdisk k1 (unat bno)"
    using tx_bread [OF assms(1-5), of es] by blast
  have "insert b H - {b} = H" using k1(2) by simp
  note rel = tx_brelse [OF assms(1) k1(3) insertI1 k1(9) [folded k1(4)], unfolded this]
  have "tx_frame k (released b k1)" "held_same H k (released b k1)"
    using rel(4,6) k1(7,8) by (simp_all add: tx_frame_def held_same_def bframe_def)
  then show ?thesis using k1 rel by (intro exI [of _ b] exI [of _ k1] exI [of _ "released b k1"]) (simp add: tx_frame_def)
qed

text \<open>A disk whose log is in the blocks from 2, empty; the superblock says so and all other blocks are zero.\<close>

definition small_disk :: logstate where
  "small_disk = disk_state.extend
     (blank_disk\<lparr>memdisk := \<lambda>b i. if b = 1 \<and> i = 16 then 2 else 0\<rparr>)
     (logstate.fields 2 31 1 False 1 0 (\<lambda>_. 0))"

lemma small_disk_sel [simp]:
  "blank (bufs small_disk b)" "disksize small_disk = 1000" "memdisk small_disk = (\<lambda>b i. if b = 1 \<and> i = 16 then 2 else 0)"
  "lg_start small_disk = 2" "lg_size small_disk = 31" "lg_outstanding small_disk = 1" "lg_dev small_disk = 1" "lh_n small_disk = 0"
  by (simp_all add: small_disk_def disk_state.defs logstate.defs blank_disk_def slstate.defs sysstate.defs blank_def)

lemma small_disk_boot:
  "\<exists>k. binit (idle_mach (Some 0)) small_disk = Inr ((), idle_mach (Some 0), k) \<and> tx_ok 0 {} 0 k \<and>
     cview k = (\<lambda>b. memdisk small_disk (unat b)) \<and> memdisk k = memdisk small_disk \<and> lg_start k = 2 \<and> disksize k = 1000"
proof -
  obtain k where k: "binit (idle_mach (Some 0)) small_disk = Inr ((), idle_mach (Some 0), k)" "cache_ok 0 {} k"
    "cview k = (\<lambda>b. memdisk small_disk (unat b))" "dirty_blocks k = {}" "memdisk k = memdisk small_disk" "disksize k = 1000"
    and more: "disk_state.more k = disk_state.more small_disk"
    using binit_ok [of "idle_mach (Some 0)" small_disk] by auto
  have "tx_ok 0 {} 0 k"
    using k by (simp add: tx_ok_def log_ok_def homes_ok_def log_more [OF more] LOGSIZE_def MAXOPBLOCKS_def)
  then show ?thesis using k log_more(2) [OF more] by (intro exI [of _ k]) simp
qed

text \<open>A transaction on it that fills block 100, up to its commit.\<close>

lemma small_transaction:
  "\<exists>k. bbnd (lift binit) (\<lambda>_. bbnd (bread 1 100) (\<lambda>b. lift (andthen (upd (set_data b (\<lambda>_. 9)))
       (andthen (log_write b) (brelse b))))) [] (idle_mach (Some 0)) small_disk = Inr (Some ((), []), idle_mach (Some 0), k) \<and>
     tx_ok 0 {} 1 k \<and> lh_block k 0 = 100 \<and> cview k = (\<lambda>b. memdisk small_disk (unat b))(100 := (\<lambda>_. 9)) \<and>
     memdisk k = memdisk small_disk \<and> lg_start k = 2 \<and> disksize k = 1000"
proof -
  let ?m = "idle_mach (Some 0)"
  obtain k where k: "binit ?m small_disk = Inr ((), ?m, k)" "tx_ok 0 {} 0 k" "cview k = (\<lambda>b. memdisk small_disk (unat b))"
    "memdisk k = memdisk small_disk" "lg_start k = 2" "disksize k = 1000"
    using small_disk_boot by blast
  obtain b k1 where k1: "bread 1 100 [] ?m k = Inr (Some (b, []), ?m, k1)" "tx_ok 0 {b} 0 k1"
    "b_blockno (bufs k1 b) = 100" "cview k1 = cview k" "tx_frame k k1" "lh_block k1 = lh_block k"
    using tx_bread [OF _ k(2), of ?m 100 "[]"] k(6) by (auto simp: NBUF_def)
  obtain k2 k3 n' where k3: "log_write b ?m (set_data b (\<lambda>_. 9) k1) = Inr ((), ?m, k2)" "brelse b ?m k2 = Inr ((), ?m, k3)"
    "tx_ok 0 {} n' k3" "n' \<le> 1" "cview k3 = (cview k)(100 := (\<lambda>_. 9))" "tx_frame k1 k3" "lh_block k3 ` {..<n'} = {100}"
    using tx_write [OF _ k1(2), of ?m b "\<lambda>_. 9"] k1 k(5) by (auto simp: in_log_def LOGSIZE_def MAXOPBLOCKS_def tx_frame_def)
  have "n' = 1" using k3(4,7) by (cases n') auto
  then have "tx_ok 0 {} 1 k3" "lh_block k3 0 = 100" using k3(3,7) by (auto simp: lessThan_Suc)
  then show ?thesis
    using k k1 k3 by (intro exI [of _ k3]) (simp add: km_simps tx_frame_def)
qed

section \<open>Properties\<close>

text \<open>C1: commit is atomic.  Take any point of the sequence of disk writes of a commit, throw away the
  memory, and boot: \<open>binit\<close> and \<open>initlog\<close> return, and outside of the log the disk has either everything
  it had before the transaction or everything the transaction wrote.\<close>

theorem commit_crash_atomic:
  fixes k :: "'a logstate_scheme"
  assumes "runs p m" "cache_ok p {} k" "log_ok n k" "0 < n" "n + 1 < NBUF" "dirty_blocks k = lh_block k ` {..<n}"
    and "le32 (memdisk k (unat (lg_start k))) 0 = 0"
    and sb: "le32 (memdisk k 1) 16 = lg_start k" "\<not> in_log (lg_start k) 1" "1 \<notin> lh_block k ` {..<n}"
    and boot: "runs p' m'"
  shows "\<exists>k' W. commit es m k = Inr (Some ((), es), m, k') \<and> disk_writes k' = disk_writes k @ W \<and>
    (\<forall>j \<le> length W. \<forall>r :: 'b logstate_scheme.
      (\<forall>b. blank (bufs r b)) \<and> disksize r = disksize k \<and> memdisk r = disk_after (take j W) (memdisk k) \<longrightarrow>
      (\<exists>r'. reboot es' m' r = Inr (Some ((), es'), m', r') \<and>
        ((\<forall>b. \<not> in_log (lg_start k) b \<longrightarrow> memdisk r' (unat b) = memdisk k (unat b)) \<or>
         (\<forall>b. \<not> in_log (lg_start k) b \<longrightarrow> memdisk r' (unat b) = cview k b))))"
proof -
  let ?s = "lg_start k" and ?S = "unat (lg_start k)" and ?hb = "\<lambda>i. unat (lh_block k i)"
  let ?h = "header (lh_block k) n (cview k (lg_start k))"
  let ?new = "\<lambda>x. if x \<in> ?hb ` {..<n} then cview k (of_nat x) else memdisk k x"
  have geo: "?S + LOGSIZE < unat (disksize k)" "homes_ok ?s (disksize k) (lh_block k) n" "n \<le> LOGSIZE"
    using assms(3) by (simp_all add: log_ok_def homes_ok_def)
  have inj: "inj_on (lh_block k) {..<n}" "inj_on ?hb {..<n}"
    using geo(2) by (auto simp: homes_ok_def inj_on_def word_unat_eq_iff)
  have hb: "?hb i < ?S \<or> ?S + LOGSIZE < ?hb i" if "i < n" for i
    using geo(2) that by (auto simp: homes_ok_def in_log_def not_le)
  have "1 + card (dirty_blocks k) < NBUF" using assms(5,6) card_image [OF inj(1)] by simp
  then obtain k' where k': "commit es m k = Inr (Some ((), es), m, k')" "disk_writes k' = disk_writes k @ commit_writes k n"
    using commit_ok [OF assms(1-4), of es] by blast
  show ?thesis
  proof (rule exI [of _ k'], rule exI [of _ "commit_writes k n"], intro conjI allI impI)
    show "commit es m k = Inr (Some ((), es), m, k')" "disk_writes k' = disk_writes k @ commit_writes k n" by (fact k')+
  next
    fix j and r :: "'b logstate_scheme"
    assume j: "j \<le> length (commit_writes k n)"
      and r: "(\<forall>b. blank (bufs r b)) \<and> disksize r = disksize k \<and> memdisk r = disk_after (take j (commit_writes k n)) (memdisk k)"
    have view: "?new (unat b) = cview k b" for b
    proof (cases "unat b \<in> ?hb ` {..<n}")
      case False
      then have "b \<notin> dirty_blocks k" using assms(6) by auto
      then show ?thesis using clean_view [OF assms(2)] False by simp
    qed simp
    have "recovers ?S LOGSIZE (lh_block k) n (memdisk k) ?new (memdisk r)"
    proof (rule crash_recovers [where v = "\<lambda>i. cview k (lh_block k i)" and W = "commit_writes k n" and j = j])
      show "commit_writes k n = map (\<lambda>i. (?S + i + 1, cview k (lh_block k i))) [0..<n] @ [(?S, ?h)] @
          map (\<lambda>i. (?hb i, cview k (lh_block k i))) [0..<n] @ [(?S, header (lh_block k) 0 ?h)]"
        by (simp add: commit_writes_def log_writes_def home_writes_def Let_def)
    qed (use geo(3) inj(2) hb assms(7) j r in simp_all)
    moreover have "1 \<notin> fst ` set (take j (commit_writes k n))"
      using commit_writes_where [OF _ geo(3), of 1 j] sb(2,3) by (auto simp: in_log_def word_unat_eq_iff image_iff)
    then have "le32 (memdisk r 1) 16 = ?s" using r sb(1) by (simp add: disk_after_notin)
    ultimately show "\<exists>r'. reboot es' m' r = Inr (Some ((), es'), m', r') \<and>
        ((\<forall>b. \<not> in_log ?s b \<longrightarrow> memdisk r' (unat b) = memdisk k (unat b)) \<or> (\<forall>b. \<not> in_log ?s b \<longrightarrow> memdisk r' (unat b) = cview k b))"
      using reboot_recovers [OF boot, of r ?s "lh_block k" n "memdisk k" ?new es'] r geo(1,2) unfolding view by simp
  qed
qed

theorem commit_crash_atomic_witness:
  "\<exists>k k' W. bbnd (lift binit) (\<lambda>_. bbnd (bread 1 100) (\<lambda>b. lift (andthen (upd (set_data b (\<lambda>_. 9)))
       (andthen (log_write b) (brelse b))))) [] (idle_mach (Some 0)) small_disk = Inr (Some ((), []), idle_mach (Some 0), k) \<and>
     commit [] (idle_mach (Some 0)) k = Inr (Some ((), []), idle_mach (Some 0), k') \<and> disk_writes k' = disk_writes k @ W \<and>
     (\<forall>j \<le> length W. \<forall>r :: logstate.
       (\<forall>b. blank (bufs r b)) \<and> disksize r = 1000 \<and> memdisk r = disk_after (take j W) (memdisk small_disk) \<longrightarrow>
       (\<exists>r'. reboot [] (idle_mach (Some 0)) r = Inr (Some ((), []), idle_mach (Some 0), r') \<and>
          (memdisk r' 100 = (\<lambda>_. 0) \<or> memdisk r' 100 = (\<lambda>_. 9))))"
proof -
  obtain k :: logstate where k: "bbnd (lift binit) (\<lambda>_. bbnd (bread 1 100) (\<lambda>b. lift (andthen (upd (set_data b (\<lambda>_. 9)))
       (andthen (log_write b) (brelse b))))) [] (idle_mach (Some 0)) small_disk = Inr (Some ((), []), idle_mach (Some 0), k)"
    and tx: "tx_ok 0 {} 1 k" and v: "lh_block k 0 = 100" "cview k = (\<lambda>b. memdisk small_disk (unat b))(100 := (\<lambda>_. 9))"
     "memdisk k = memdisk small_disk" "lg_start k = 2" "disksize k = 1000"
    using small_transaction by blast
  have geo: "\<not> in_log 2 1" "\<not> in_log 2 100" "unat (100 :: uint) = 100" "(1 :: nat) + 1 < NBUF"
    by (simp_all add: in_log_def LOGSIZE_def MAXOPBLOCKS_def NBUF_def)
  have "\<exists>k' W. commit [] (idle_mach (Some 0)) k = Inr (Some ((), []), idle_mach (Some 0), k') \<and> disk_writes k' = disk_writes k @ W \<and>
    (\<forall>j \<le> length W. \<forall>r :: logstate.
      (\<forall>b. blank (bufs r b)) \<and> disksize r = disksize k \<and> memdisk r = disk_after (take j W) (memdisk k) \<longrightarrow>
      (\<exists>r'. reboot [] (idle_mach (Some 0)) r = Inr (Some ((), []), idle_mach (Some 0), r') \<and>
        ((\<forall>b. \<not> in_log (lg_start k) b \<longrightarrow> memdisk r' (unat b) = memdisk k (unat b)) \<or>
         (\<forall>b. \<not> in_log (lg_start k) b \<longrightarrow> memdisk r' (unat b) = cview k b))))"
    by (rule commit_crash_atomic [OF _ tx_okD(1-2) [OF tx] _ geo(4) tx_okD(3) [OF tx], of _ 0])
      (auto simp: v geo le32_def)
  then obtain k' W where c: "commit [] (idle_mach (Some 0)) k = Inr (Some ((), []), idle_mach (Some 0), k')"
      "disk_writes k' = disk_writes k @ W"
    and R: "\<And>j r :: logstate. j \<le> length W \<Longrightarrow> \<forall>b. blank (bufs r b) \<Longrightarrow> disksize r = disksize k \<Longrightarrow>
      memdisk r = disk_after (take j W) (memdisk k) \<Longrightarrow>
      \<exists>r'. reboot [] (idle_mach (Some 0)) r = Inr (Some ((), []), idle_mach (Some 0), r') \<and>
        ((\<forall>b. \<not> in_log (lg_start k) b \<longrightarrow> memdisk r' (unat b) = memdisk k (unat b)) \<or>
         (\<forall>b. \<not> in_log (lg_start k) b \<longrightarrow> memdisk r' (unat b) = cview k b))"
    by blast
  have "\<exists>r'. reboot [] (idle_mach (Some 0)) r = Inr (Some ((), []), idle_mach (Some 0), r') \<and>
      (memdisk r' 100 = (\<lambda>_. 0) \<or> memdisk r' 100 = (\<lambda>_. 9))"
    if "j \<le> length W" "\<forall>b. blank (bufs r b)" "disksize r = 1000" "memdisk r = disk_after (take j W) (memdisk small_disk)"
    for j and r :: logstate
  proof -
    note r = that
    obtain r' where r': "reboot [] (idle_mach (Some 0)) r = Inr (Some ((), []), idle_mach (Some 0), r')"
      "(\<forall>b. \<not> in_log 2 b \<longrightarrow> memdisk r' (unat b) = memdisk k (unat b)) \<or> (\<forall>b. \<not> in_log 2 b \<longrightarrow> memdisk r' (unat b) = cview k b)"
      using R [OF r(1,2)] r(3,4) v by auto
    then have "memdisk r' (unat (100 :: uint)) = memdisk k (unat (100 :: uint)) \<or> memdisk r' (unat (100 :: uint)) = cview k 100"
      using geo(2) by blast
    then show ?thesis using r'(1) v by simp
  qed
  then show ?thesis using k c by (intro exI [of _ k] exI [of _ k'] exI [of _ W]) simp
qed

end
