(* ===== verification/Inode.thy ===== *)
theory Inode
  imports Recovery
begin

text \<open>
  The lower half of the file system (\<^verbatim>\<open>fs.c\<close>): the block allocator, the i-node cache and the map from
  the blocks of a file to the blocks of the disk.  An i-node pointer is an index in the i-node cache,
  a null pointer \<open>None\<close>.  The lemmas show that the copy of an i-node on the disk reads back as it was
  written, and that \<open>balloc\<close> returns a block that the bit map had free, marks it and clears it.
\<close>

section \<open>State\<close>

type_synonym short = "16 word"

definition ROOTDEV :: uint where "ROOTDEV = 1"
definition ROOTINO :: uint where "ROOTINO = 1"
definition NINODE :: nat where "NINODE = 50"
definition NDEV :: int where "NDEV = 10"
definition NDIRECT :: nat where "NDIRECT = 12"
definition NINDIRECT :: nat where "NINDIRECT = 128"
definition MAXFILE :: nat where "MAXFILE = NDIRECT + NINDIRECT"
definition IPB :: nat where "IPB = 8"
definition BPB :: nat where "BPB = 4096"
definition DIRSIZ :: nat where "DIRSIZ = 14"
definition T_DIR :: short where "T_DIR = 1"
definition T_FILE :: short where "T_FILE = 2"
definition T_DEV :: short where "T_DEV = 3"

lemmas fs_consts = BSIZE_def NDIRECT_def NINDIRECT_def IPB_def BPB_def DIRSIZ_def

record inode =
  i_dev :: uint
  i_inum :: uint
  i_ref :: int
  i_valid :: bool
  i_type :: short
  i_major :: short
  i_minor :: short
  i_nlink :: short
  i_size :: uint
  i_addrs :: "nat \<Rightarrow> uint"
  i_container_id :: int

text \<open>
  \<open>devsw\<close> maps the major number of a device to its driver, if one is installed; the console is the
  only driver of the kernel.  \<open>input\<close> is the line buffer of \<^verbatim>\<open>console.c\<close>, a ring indexed modulo \<open>INPUT_BUF\<close>.
\<close>

datatype driver = ConsoleDriver

record line_input =
  in_buf :: "nat \<Rightarrow> uchar"
  in_r :: uint
  in_w :: uint
  in_e :: uint

record fsstate = logstate +
  sb :: superblock
  icache :: "nat \<Rightarrow> inode"
  devsw_read :: "int \<Rightarrow> driver option"
  devsw_write :: "int \<Rightarrow> driver option"
  input :: line_input

definition upd_inode :: "nat \<Rightarrow> (inode \<Rightarrow> inode) \<Rightarrow> 'a fsstate_scheme \<Rightarrow> 'a fsstate_scheme" where
  "upd_inode i f k = k\<lparr>icache := (icache k)(i := f (icache k i))\<rparr>"

abbreviation ifield :: "nat \<Rightarrow> (inode \<Rightarrow> 'b) \<Rightarrow> ('a fsstate_scheme, 'b) km" where
  "ifield i f \<equiv> look (\<lambda>k. f (icache k i))"

text \<open>The number of the sleep lock in i-node \<open>i\<close>.\<close>

definition inode_lock :: "nat \<Rightarrow> nat" where
  "inode_lock i = NBUF + i"

definition IBLOCK :: "uint \<Rightarrow> superblock \<Rightarrow> uint" where
  "IBLOCK i s = i div of_nat IPB + sb_inodestart s"

definition BBLOCK :: "uint \<Rightarrow> superblock \<Rightarrow> uint" where
  "BBLOCK b s = b div of_nat BPB + sb_bmapstart s"

section \<open>I-nodes on the disk\<close>

definition le16 :: "block \<Rightarrow> nat \<Rightarrow> short" where
  "le16 d i = ucast (d i) OR push_bit 8 (ucast (d (i + 1)))"

definition set_le16 :: "nat \<Rightarrow> short \<Rightarrow> block \<Rightarrow> block" where
  "set_le16 i v d = d(i := ucast v, i + 1 := ucast (drop_bit 8 v))"

record dinode =
  d_type :: short
  d_major :: short
  d_minor :: short
  d_nlink :: short
  d_size :: uint
  d_addrs :: "nat \<Rightarrow> uint"

definition dinode_off :: "uint \<Rightarrow> nat" where
  "dinode_off inum = unat inum mod IPB * 64"

definition get_dinode :: "uint \<Rightarrow> block \<Rightarrow> dinode" where
  "get_dinode inum d = (let o' = dinode_off inum in
     \<lparr>d_type = le16 d o', d_major = le16 d (o' + 2), d_minor = le16 d (o' + 4), d_nlink = le16 d (o' + 6),
      d_size = le32 d (o' + 8), d_addrs = (\<lambda>i. le32 d (o' + 12 + 4 * i))\<rparr>)"

primrec put_addrs :: "nat \<Rightarrow> (nat \<Rightarrow> uint) \<Rightarrow> nat \<Rightarrow> block \<Rightarrow> block" where
  "put_addrs o' a 0 d = d"
| "put_addrs o' a (Suc n) d = set_le32 (o' + 4 * n) (a n) (put_addrs o' a n d)"

definition put_dinode :: "uint \<Rightarrow> dinode \<Rightarrow> block \<Rightarrow> block" where
  "put_dinode inum x d = (let o' = dinode_off inum in
     put_addrs (o' + 12) (d_addrs x) (NDIRECT + 1) (
     set_le32 (o' + 8) (d_size x) (
     set_le16 (o' + 6) (d_nlink x) (
     set_le16 (o' + 4) (d_minor x) (
     set_le16 (o' + 2) (d_major x) (
     set_le16 o' (d_type x) d))))))"

section \<open>Blocks\<close>

definition bzero :: "uint \<Rightarrow> uint \<Rightarrow> ('a logstate_scheme, unit) bkm" where
  "bzero dev bno =
     bbnd (bread dev bno) (\<lambda>bp.
     lift (andthen (upd (set_data bp (\<lambda>_. 0))) (
     andthen (log_write bp)
       (brelse bp))))"

definition bit_mask :: "nat \<Rightarrow> uchar" where
  "bit_mask bi = push_bit (bi mod 8) 1"

text \<open>The inner loop of \<open>balloc\<close>: the first clear bit of a block of the bit map.\<close>

definition free_bit :: "block \<Rightarrow> nat \<Rightarrow> nat option" where
  "free_bit d n = find (\<lambda>bi. d (bi div 8) AND bit_mask bi = 0) [0..<n]"

primrec balloc_loop :: "nat \<Rightarrow> uint \<Rightarrow> uint \<Rightarrow> ('a fsstate_scheme, uint) bkm" where
  "balloc_loop 0 dev b = lift (fail (Stuck ''balloc''))"
| "balloc_loop (Suc n) dev b =
     bbnd (lift (look sb)) (\<lambda>s.
     if b < sb_size s then
       bbnd (bread dev (BBLOCK b s)) (\<lambda>bp.
       bbnd (lift (bdata bp)) (\<lambda>d.
       case free_bit d (min BPB (unat (sb_size s - b))) of
         Some bi \<Rightarrow>
           bthen (lift (upd (set_data bp (d(bi div 8 := d (bi div 8) OR bit_mask bi))))) (
           bthen (lift (log_write bp)) (
           bthen (lift (brelse bp)) (
           bthen (bzero dev (b + of_nat bi)) (
           bret (b + of_nat bi)))))
       | None \<Rightarrow>
           bthen (lift (brelse bp))
             (balloc_loop n dev (b + of_nat BPB))))
     else lift (fail (Panic ''balloc: out of blocks'')))"

text \<open>Each turn of the loop looks at \<open>BPB\<close> blocks.\<close>

definition balloc :: "uint \<Rightarrow> ('a fsstate_scheme, uint) bkm" where
  "balloc dev = bbnd (lift (look sb)) (\<lambda>s. balloc_loop (unat (sb_size s) div BPB + 2) dev 0)"

definition bfree :: "uint \<Rightarrow> uint \<Rightarrow> ('a fsstate_scheme, unit) bkm" where
  "bfree dev b =
     bbnd (readsb dev) (\<lambda>s.
     bthen (lift (upd (\<lambda>k. k\<lparr>sb := s\<rparr>))) (
     bbnd (bread dev (BBLOCK b s)) (\<lambda>bp.
     bbnd (lift (bdata bp)) (\<lambda>d.
     let bi = unat b mod BPB in
     if d (bi div 8) AND bit_mask bi = 0 then lift (fail (Panic ''freeing free block''))
     else lift (andthen (upd (set_data bp (d(bi div 8 := d (bi div 8) AND NOT (bit_mask bi))))) (
       andthen (log_write bp)
         (brelse bp)))))))"

section \<open>The i-node cache\<close>

definition iinit :: "uint \<Rightarrow> ('a fsstate_scheme, unit) bkm" where
  "iinit dev =
     bthen (lift (initlock IcacheLock)) (
     bthen (lift (for_each (\<lambda>i. initsleeplock (inode_lock i)) [0..<NINODE])) (
     bbnd (readsb dev) (\<lambda>s.
     bthen (lift (upd (\<lambda>k. k\<lparr>sb := s\<rparr>))) (
     lift (cprintf (''sb: size %d nblocks %d ninodes %d nlog %d logstart %d inodestart %d bmap start %d'' @ [newline])
       [CInt (sb_size s), CInt (sb_nblocks s), CInt (sb_ninodes s), CInt (sb_nlog s), CInt (sb_logstart s),
        CInt (sb_inodestart s), CInt (sb_bmapstart s)])))))"

text \<open>
  The loop of \<open>iget\<close> meets either the entry that caches the i-node or the end of the table; \<open>empty\<close> is
  then the first entry without references.
\<close>

definition iget_hit :: "uint \<Rightarrow> uint \<Rightarrow> 'a fsstate_scheme \<Rightarrow> nat option" where
  "iget_hit dev inum k =
     find (\<lambda>i. i_ref (icache k i) > 0 \<and> i_dev (icache k i) = dev \<and> i_inum (icache k i) = inum) [0..<NINODE]"

definition iget_empty :: "'a fsstate_scheme \<Rightarrow> nat option" where
  "iget_empty k = find (\<lambda>i. i_ref (icache k i) = 0) [0..<NINODE]"

definition iget :: "uint \<Rightarrow> uint \<Rightarrow> ('a fsstate_scheme, nat) km" where
  "iget dev inum =
     andthen (acquire IcacheLock) (
     bnd (look (iget_hit dev inum)) (\<lambda>h. case h of
       Some i \<Rightarrow>
         andthen (upd (upd_inode i (\<lambda>x. x\<lparr>i_ref := i_ref x + 1\<rparr>))) (
         andthen (release IcacheLock) (
         ret i))
     | None \<Rightarrow>
         bnd (look iget_empty) (\<lambda>e. case e of
           None \<Rightarrow> fail (Panic ''iget: no inodes'')
         | Some i \<Rightarrow>
             andthen (upd (upd_inode i (\<lambda>x. x\<lparr>i_dev := dev, i_inum := inum, i_ref := 1, i_valid := False\<rparr>))) (
             andthen (release IcacheLock) (
             ret i)))))"

definition idup :: "nat \<Rightarrow> ('a fsstate_scheme, nat) km" where
  "idup i =
     andthen (acquire IcacheLock) (
     andthen (upd (upd_inode i (\<lambda>x. x\<lparr>i_ref := i_ref x + 1\<rparr>))) (
     andthen (release IcacheLock) (
     ret i)))"

primrec ialloc_loop :: "nat \<Rightarrow> uint \<Rightarrow> uint \<Rightarrow> short \<Rightarrow> ('a fsstate_scheme, nat) bkm" where
  "ialloc_loop 0 inum dev type = lift (fail (Stuck ''ialloc''))"
| "ialloc_loop (Suc n) inum dev type =
     bbnd (lift (look sb)) (\<lambda>s.
     if inum < sb_ninodes s then
       bbnd (bread dev (IBLOCK inum s)) (\<lambda>bp.
       bbnd (lift (bdata bp)) (\<lambda>d.
       if d_type (get_dinode inum d) = 0 then
         bthen (lift (upd (set_data bp (set_le16 (dinode_off inum) type
           (\<lambda>i. if dinode_off inum \<le> i \<and> i < dinode_off inum + 64 then 0 else d i))))) (
         bthen (lift (log_write bp)) (
         bthen (lift (brelse bp)) (
         lift (iget dev inum))))
       else
         bthen (lift (brelse bp))
           (ialloc_loop n (inum + 1) dev type)))
     else lift (fail (Panic ''ialloc: no inodes'')))"

definition ialloc :: "uint \<Rightarrow> short \<Rightarrow> ('a fsstate_scheme, nat) bkm" where
  "ialloc dev type = bbnd (lift (look sb)) (\<lambda>s. ialloc_loop (unat (sb_ninodes s) + 1) 1 dev type)"

definition iupdate :: "nat \<Rightarrow> ('a fsstate_scheme, unit) bkm" where
  "iupdate ip =
     bbnd (lift (look sb)) (\<lambda>s.
     bbnd (lift (ifield ip i_dev)) (\<lambda>dev. bbnd (lift (ifield ip i_inum)) (\<lambda>inum.
     bbnd (bread dev (IBLOCK inum s)) (\<lambda>bp.
     bbnd (lift (bdata bp)) (\<lambda>d.
     bbnd (lift (ifield ip (\<lambda>x. \<lparr>d_type = i_type x, d_major = i_major x, d_minor = i_minor x, d_nlink = i_nlink x,
       d_size = i_size x, d_addrs = i_addrs x\<rparr>))) (\<lambda>dip.
     lift (andthen (upd (set_data bp (put_dinode inum dip d))) (
     andthen (log_write bp)
       (brelse bp)))))))))"

definition ilock :: "nat option \<Rightarrow> ('a fsstate_scheme, unit) bkm" where
  "ilock p = (case p of None \<Rightarrow> lift (fail (Panic ''ilock''))
   | Some ip \<Rightarrow>
     bbnd (lift (ifield ip i_ref)) (\<lambda>r.
     if r < 1 then lift (fail (Panic ''ilock''))
     else
       bthen (acquiresleep (inode_lock ip)) (
       bbnd (lift (ifield ip i_valid)) (\<lambda>v.
       if v then bret ()
       else
         bbnd (lift (look sb)) (\<lambda>s.
         bbnd (lift (ifield ip i_dev)) (\<lambda>dev. bbnd (lift (ifield ip i_inum)) (\<lambda>inum.
         bbnd (bread dev (IBLOCK inum s)) (\<lambda>bp.
         bbnd (lift (bdata bp)) (\<lambda>d.
         let dip = get_dinode inum d in
         bthen (lift (upd (upd_inode ip (\<lambda>x. x\<lparr>i_type := d_type dip, i_major := d_major dip, i_minor := d_minor dip,
           i_nlink := d_nlink dip, i_size := d_size dip, i_addrs := d_addrs dip\<rparr>)))) (
         bthen (lift (brelse bp)) (
         bthen (lift (upd (upd_inode ip (\<lambda>x. x\<lparr>i_valid := True\<rparr>)))) (
         bbnd (lift (ifield ip i_type)) (\<lambda>t.
         if t = 0 then lift (fail (Panic ''ilock: no type'')) else bret ())))))))))))))"

definition iunlock :: "nat option \<Rightarrow> ('a fsstate_scheme, unit) km" where
  "iunlock p = (case p of None \<Rightarrow> fail (Panic ''iunlock'')
   | Some ip \<Rightarrow>
     bnd (holdingsleep (inode_lock ip)) (\<lambda>h.
     bnd (ifield ip i_ref) (\<lambda>r.
     if \<not> h \<or> r < 1 then fail (Panic ''iunlock'') else releasesleep (inode_lock ip))))"

section \<open>The blocks of a file\<close>

definition bmap :: "nat \<Rightarrow> uint \<Rightarrow> ('a fsstate_scheme, uint) bkm" where
  "bmap ip bn =
     (if unat bn < NDIRECT then
        bbnd (lift (ifield ip (\<lambda>x. i_addrs x (unat bn)))) (\<lambda>addr.
        if addr = 0 then
          bbnd (lift (ifield ip i_dev)) (\<lambda>dev. bbnd (balloc dev) (\<lambda>addr.
          bthen (lift (upd (upd_inode ip (\<lambda>x. x\<lparr>i_addrs := (i_addrs x)(unat bn := addr)\<rparr>))))
            (bret addr)))
        else bret addr)
      else let bn' = unat bn - NDIRECT in
        if bn' < NINDIRECT then
          bbnd (lift (ifield ip i_dev)) (\<lambda>dev.
          bbnd (lift (ifield ip (\<lambda>x. i_addrs x NDIRECT))) (\<lambda>addr.
          bbnd (if addr = 0 then
              bbnd (balloc dev) (\<lambda>addr.
              bthen (lift (upd (upd_inode ip (\<lambda>x. x\<lparr>i_addrs := (i_addrs x)(NDIRECT := addr)\<rparr>))))
                (bret addr))
            else bret addr) (\<lambda>addr.
          bbnd (bread dev addr) (\<lambda>bp.
          bbnd (lift (bdata bp)) (\<lambda>d.
          bbnd (if le32 d (4 * bn') = 0 then
              bbnd (balloc dev) (\<lambda>addr.
              bthen (lift (upd (\<lambda>k. set_data bp (set_le32 (4 * bn') addr (b_data (bufs k bp))) k))) (
              bthen (lift (log_write bp))
                (bret addr)))
            else bret (le32 d (4 * bn'))) (\<lambda>addr.
          bthen (lift (brelse bp))
            (bret addr)))))))
        else lift (fail (Panic ''bmap: out of range'')))"

definition itrunc_one :: "nat \<Rightarrow> nat \<Rightarrow> ('a fsstate_scheme, unit) bkm" where
  "itrunc_one ip i =
     bbnd (lift (ifield ip (\<lambda>x. i_addrs x i))) (\<lambda>a.
     if a = 0 then bret ()
     else
       bbnd (lift (ifield ip i_dev)) (\<lambda>dev.
       bthen (bfree dev a)
         (lift (upd (upd_inode ip (\<lambda>x. x\<lparr>i_addrs := (i_addrs x)(i := 0)\<rparr>))))))"

definition itrunc_indirect :: "nat \<Rightarrow> nat \<Rightarrow> nat \<Rightarrow> ('a fsstate_scheme, unit) bkm" where
  "itrunc_indirect ip bp j =
     bbnd (lift (bdata bp)) (\<lambda>d.
     if le32 d (4 * j) = 0 then bret ()
     else bbnd (lift (ifield ip i_dev)) (\<lambda>dev. bfree dev (le32 d (4 * j))))"

definition itrunc :: "nat \<Rightarrow> ('a fsstate_scheme, unit) bkm" where
  "itrunc ip =
     bthen (bfor (itrunc_one ip) [0..<NDIRECT]) (
     bbnd (lift (ifield ip (\<lambda>x. i_addrs x NDIRECT))) (\<lambda>a.
     bthen (if a = 0 then bret ()
       else
         bbnd (lift (ifield ip i_dev)) (\<lambda>dev.
         bbnd (bread dev a) (\<lambda>bp.
         bthen (bfor (itrunc_indirect ip bp) [0..<NINDIRECT]) (
         bthen (lift (brelse bp)) (
         bbnd (lift (ifield ip (\<lambda>x. i_addrs x NDIRECT))) (\<lambda>a'.
         bthen (bfree dev a') (
         lift (upd (upd_inode ip (\<lambda>x. x\<lparr>i_addrs := (i_addrs x)(NDIRECT := 0)\<rparr>))))))))))  (
     bthen (lift (upd (upd_inode ip (\<lambda>x. x\<lparr>i_size := 0\<rparr>))))
       (iupdate ip))))"

definition iput :: "nat \<Rightarrow> ('a fsstate_scheme, unit) bkm" where
  "iput ip =
     bthen (acquiresleep (inode_lock ip)) (
     bbnd (lift (ifield ip (\<lambda>x. i_valid x \<and> i_nlink x = 0))) (\<lambda>dead.
     bthen (if dead then
         bbnd (lift (andthen (acquire IcacheLock) (bnd (ifield ip i_ref) (\<lambda>r. andthen (release IcacheLock) (ret r))))) (\<lambda>r.
         if r = 1 then
           bthen (itrunc ip) (
           bthen (lift (upd (upd_inode ip (\<lambda>x. x\<lparr>i_type := 0\<rparr>)))) (
           bthen (iupdate ip) (
           lift (upd (upd_inode ip (\<lambda>x. x\<lparr>i_valid := False\<rparr>))))))
         else bret ())
       else bret ()) (
     lift (andthen (releasesleep (inode_lock ip)) (
     andthen (acquire IcacheLock) (
     andthen (upd (upd_inode ip (\<lambda>x. x\<lparr>i_ref := i_ref x - 1\<rparr>))) (
     release IcacheLock)))))))"

definition iunlockput :: "nat \<Rightarrow> ('a fsstate_scheme, unit) bkm" where
  "iunlockput ip = bthen (lift (iunlock (Some ip))) (iput ip)"

record stat =
  st_type :: short
  st_dev :: uint
  st_ino :: uint
  st_nlink :: short
  st_size :: uint

definition stati :: "nat \<Rightarrow> ('a fsstate_scheme, stat) km" where
  "stati ip = ifield ip (\<lambda>x. \<lparr>st_type = i_type x, st_dev = i_dev x, st_ino = i_inum x, st_nlink = i_nlink x, st_size = i_size x\<rparr>)"

section \<open>The copy of an i-node on the disk\<close>

lemma le16_set_le16 [simp]: "le16 (set_le16 i v d) i = v"
proof (rule bit_word_eqI)
  fix n
  assume "n < LENGTH(16)"
  then consider "n < 8" | "8 \<le> n" "n < 16" by fastforce
  then show "bit (le16 (set_le16 i v d) i) n \<longleftrightarrow> bit v n"
    by cases (auto simp: le16_def set_le16_def bit_simps)
qed

lemma le_set_other [simp]:
  "i + 2 \<le> j \<or> j + 2 \<le> i \<Longrightarrow> le16 (set_le16 i v d) j = le16 d j"
  "i + 4 \<le> j \<or> j + 2 \<le> i \<Longrightarrow> le16 (set_le32 i w d) j = le16 d j"
  "i + 2 \<le> j \<or> j + 4 \<le> i \<Longrightarrow> le32 (set_le16 i v d) j = le32 d j"
  by (auto simp: le16_def set_le16_def le32_def set_le32_def)

lemma put_addrs_get:
  "le32 (put_addrs o' a n d) (o' + 4 * i) = (if i < n then a i else le32 d (o' + 4 * i))"
proof (induction n)
  case (Suc n)
  show ?case
  proof (cases "i = n")
    case False
    then have "o' + 4 * n + 4 \<le> o' + 4 * i \<or> o' + 4 * i + 4 \<le> o' + 4 * n" by linarith
    then show ?thesis using Suc False by (simp add: le32_set_other)
  qed simp
qed simp

lemma put_addrs_other:
  assumes "j + w \<le> o' \<or> o' + 4 * n \<le> j" "i < w"
  shows "put_addrs o' a n d (j + i) = d (j + i)"
  using assms by (induction n) (auto simp: set_le32_def)

lemma put_addrs_le [simp]:
  "j + 4 \<le> o' \<or> o' + 4 * n \<le> j \<Longrightarrow> le32 (put_addrs o' a n d) j = le32 d j"
  "j + 2 \<le> o' \<or> o' + 4 * n \<le> j \<Longrightarrow> le16 (put_addrs o' a n d) j = le16 d j"
  using put_addrs_other [of j 4 o' n 0 a d] put_addrs_other [of j 4 o' n 1 a d] put_addrs_other [of j 4 o' n 2 a d]
    put_addrs_other [of j 4 o' n 3 a d] put_addrs_other [of j 2 o' n 0 a d] put_addrs_other [of j 2 o' n 1 a d]
  by (auto simp: le32_def le16_def)

lemma get_put_dinode:
  "get_dinode inum (put_dinode inum x d) = x\<lparr>d_addrs := \<lambda>i. if i \<le> NDIRECT then d_addrs x i else le32 d (dinode_off inum + 12 + 4 * i)\<rparr>"
proof -
  have "le32 (set_le32 (dinode_off inum + 8) v e) (dinode_off inum + 12 + 4 * i) = le32 e (dinode_off inum + 12 + 4 * i)" for v e i
    by (rule le32_set_other) simp
  then show ?thesis
    by (cases x) (simp add: get_dinode_def put_dinode_def Let_def put_addrs_get less_Suc_eq_le del: put_addrs.simps cong: if_cong)
qed

text \<open>I-nodes in other slots of the block are not touched.\<close>

lemma put_dinode_out:
  assumes "j < dinode_off inum \<or> dinode_off inum + 64 \<le> j"
  shows "put_dinode inum x d j = d j"
proof -
  have "put_addrs (dinode_off inum + 12) a (NDIRECT + 1) e j = e j" for a e
    using put_addrs_other [of j 1 "dinode_off inum + 12" "NDIRECT + 1" 0 a e] assms by (auto simp: NDIRECT_def)
  moreover have "set_le32 i v e j = e j" if "j < i \<or> i + 4 \<le> j" for i v e using that by (auto simp: set_le32_def)
  moreover have "set_le16 i v e j = e j" if "j < i \<or> i + 2 \<le> j" for i v e using that by (auto simp: set_le16_def)
  ultimately show ?thesis using assms by (elim disjE) (simp_all add: put_dinode_def Let_def del: put_addrs.simps)
qed

section \<open>The block allocator\<close>

lemma fs_more:
  assumes "logstate.more k' = logstate.more (k :: 'a fsstate_scheme)"
  shows "sb k' = sb k" "icache k' = icache k" "devsw_read k' = devsw_read k" "devsw_write k' = devsw_write k"
    "input k' = input k" "fsstate.more k' = fsstate.more k"
  using assms by (cases k; cases k'; simp)+

text \<open>Where the bit of block \<open>b\<close> is, and whether it is clear for a reader of the bit map.\<close>

definition block_free :: "'a fsstate_scheme \<Rightarrow> uint \<Rightarrow> bool" where
  "block_free k b \<longleftrightarrow>
     cview k (BBLOCK b (sb k)) (unat b mod BPB div 8) AND bit_mask (unat b mod BPB) = 0"

text \<open>
  The disk layout \<open>mkfs\<close> produces: bit map blocks on the disk and outside of the log, and every free
  block a data block.
\<close>

definition bitmap_ok :: "'a fsstate_scheme \<Rightarrow> bool" where
  "bitmap_ok k \<longleftrightarrow> sb_size (sb k) \<le> disksize k \<and> unat (sb_size (sb k)) < 2 ^ 31 \<and>
     (\<forall>b < sb_size (sb k). BBLOCK b (sb k) < disksize k \<and> \<not> in_log (lg_start k) (BBLOCK b (sb k))) \<and>
     (\<forall>b < sb_size (sb k). block_free k b \<longrightarrow> \<not> in_log (lg_start k) b \<and>
        (\<forall>b' < sb_size (sb k). b \<noteq> BBLOCK b' (sb k)))"

lemma bzero_ok:
  assumes "runs p m" "tx_ok p H n k" "bno < disksize k" "\<forall>c \<in> H. b_blockno (bufs k c) \<noteq> bno" "card H + n < NBUF"
    and "\<not> in_log (lg_start k) bno"
  shows "\<exists>k' n'. bzero 1 bno es m k = Inr (Some ((), es), m, k') \<and> tx_ok p H n' k' \<and> n' \<le> Suc n \<and>
    cview k' = (cview k)(bno := (\<lambda>_. 0)) \<and> tx_frame k k' \<and> held_same H k k'"
proof -
  obtain b k1 k2 k' n' where "bread 1 bno es m k = Inr (Some (b, es), m, k1)"
    "log_write b m (set_data b (\<lambda>_. 0) k1) = Inr ((), m, k2)" "brelse b m k2 = Inr ((), m, k')"
    "tx_ok p H n' k'" "n' \<le> Suc n" "cview k' = (cview k)(bno := (\<lambda>_. 0))" "tx_frame k k'" "held_same H k k'"
    using tx_modify [OF assms, where d = "\<lambda>_ _. 0" and es = es] by blast
  then show ?thesis by (intro exI [of _ k'] exI [of _ n']) (simp add: bzero_def km_simps)
qed

lemma bitmap_group:
  assumes "j * BPB + bi < 2 ^ 32" "bi < BPB"
  shows "BBLOCK (of_nat (j * BPB + bi)) s = of_nat j + sb_bmapstart s" "unat (of_nat (j * BPB + bi) :: uint) mod BPB = bi"
proof -
  have u: "unat (of_nat (j * BPB + bi) :: uint) = j * BPB + bi" using assms(1) by (rule unat32_of_nat)
  then show "unat (of_nat (j * BPB + bi) :: uint) mod BPB = bi" using assms(2) by simp
  have "(j * BPB + bi) div BPB = j" using assms(2) by simp
  then have "unat ((of_nat (j * BPB + bi) :: uint) div of_nat BPB) = j" using u by (simp add: unat_div BPB_def)
  then have "(of_nat (j * BPB + bi) :: uint) div of_nat BPB = of_nat j" by (metis of_nat_unat ucast_id)
  then show "BBLOCK (of_nat (j * BPB + bi)) s = of_nat j + sb_bmapstart s" by (simp add: BBLOCK_def)
qed

lemma bitmap_cong:
  assumes "cview k' = cview k" "tx_frame k (k' :: 'a fsstate_scheme)"
  shows "block_free k' = block_free k" "bitmap_ok k' = bitmap_ok k"
proof -
  have f: "sb k' = sb k" "disksize k' = disksize k" "lg_start k' = lg_start k"
    using assms(2) fs_more(1) [of k' k] by (simp_all add: tx_frame_def)
  show free: "block_free k' = block_free k" by (rule ext) (simp add: block_free_def f assms(1))
  show "bitmap_ok k' = bitmap_ok k" by (simp add: bitmap_ok_def free f)
qed

lemma free_bit_group:
  fixes k :: "'a fsstate_scheme"
  assumes "j * BPB < unat (sb_size (sb k))" "unat (sb_size (sb k)) < 2 ^ 31"
  defines "d \<equiv> cview k (BBLOCK (of_nat (j * BPB)) (sb k))" and "N \<equiv> min BPB (unat (sb_size (sb k) - of_nat (j * BPB)))"
  shows "bi < N \<Longrightarrow> block_free k (of_nat (j * BPB + bi)) \<longleftrightarrow> d (bi div 8) AND bit_mask bi = 0"
    "bi < N \<Longrightarrow> j * BPB + bi < unat (sb_size (sb k))"
    "x < sb_size (sb k) \<Longrightarrow> j * BPB \<le> unat x \<Longrightarrow> unat x < (j + 1) * BPB \<Longrightarrow> unat x - j * BPB < N"
proof -
  have "unat (of_nat (j * BPB) :: uint) = j * BPB" using assms(1,2) by (intro unat32_of_nat) simp
  then have N: "N = min BPB (unat (sb_size (sb k)) - j * BPB)"
    using assms(1) by (simp add: N_def unat_sub word_le_nat_alt)
  show lt: "j * BPB + bi < unat (sb_size (sb k))" if "bi < N" for bi using that N assms(1) by linarith
  show "unat x - j * BPB < N" if "x < sb_size (sb k)" "j * BPB \<le> unat x" "unat x < (j + 1) * BPB"
    using that N by (simp add: word_less_nat_alt) linarith
  assume bi: "bi < N"
  then have "j * BPB + bi < 2 ^ 32" "bi < BPB" using lt [OF bi] assms(2) N by simp_all
  note g = bitmap_group(1) [OF this, of "sb k"] bitmap_group(2) [OF this]
  have "BBLOCK (of_nat (j * BPB)) (sb k) = of_nat j + sb_bmapstart (sb k)"
    using bitmap_group(1) [of j 0 "sb k"] assms(1,2) by (simp add: BPB_def)
  then show "block_free k (of_nat (j * BPB + bi)) \<longleftrightarrow> d (bi div 8) AND bit_mask bi = 0"
    unfolding block_free_def d_def using g by (simp only:)
qed

text \<open>The state after \<open>balloc\<close> has taken block \<open>b\<close>.\<close>

definition taken_block :: "nat \<Rightarrow> nat set \<Rightarrow> nat \<Rightarrow> uint \<Rightarrow> 'a fsstate_scheme \<Rightarrow> 'a fsstate_scheme \<Rightarrow> bool" where
  "taken_block p H n b k k' \<longleftrightarrow> b < sb_size (sb k) \<and> block_free k b \<and> (\<forall>b' < b. \<not> block_free k b') \<and>
     (\<exists>n' \<le> n + 2. tx_ok p H n' k') \<and> tx_frame k k' \<and> held_same H k k' \<and>
     (let bb = BBLOCK b (sb k); i = unat b mod BPB; d = cview k bb
      in cview k' = (cview k)(bb := d(i div 8 := d (i div 8) OR bit_mask i), b := (\<lambda>_. 0)))"

definition unheld :: "nat set \<Rightarrow> 'a fsstate_scheme \<Rightarrow> bool" where
  "unheld H k \<longleftrightarrow> (\<forall>c \<in> H. \<forall>b < sb_size (sb k). b_blockno (bufs k c) \<noteq> BBLOCK b (sb k) \<and>
     (block_free k b \<longrightarrow> b_blockno (bufs k c) \<noteq> b))"

lemma unheld_cong:
  assumes "cview k' = cview k" "tx_frame k (k' :: 'a fsstate_scheme)" "held_same H k k'"
  shows "unheld H k' = unheld H k"
proof -
  have "sb k' = sb k" using assms(2) fs_more(1) [of k' k] by (simp add: tx_frame_def)
  then show ?thesis using assms(3) by (simp add: unheld_def bitmap_cong(1) [OF assms(1,2)] held_same_def)
qed

lemma taken_cong:
  assumes "cview k' = cview k" "tx_frame k (k' :: 'a fsstate_scheme)" "held_same H k k'"
  shows "taken_block p H n b k = taken_block p H n b k'"
proof -
  have "sb k' = sb k" using assms(2) fs_more(1) [of k' k] by (simp add: tx_frame_def)
  moreover have "tx_frame k x = tx_frame k' x" "held_same H k x = held_same H k' x" for x
    using assms(2,3) by (simp_all add: tx_frame_def held_same_def)
  ultimately show ?thesis by (intro ext) (simp add: taken_block_def bitmap_cong(1) [OF assms(1,2)] assms(1))
qed

lemma balloc_hit:
  fixes k :: "'a fsstate_scheme"
  assumes "runs p m" "tx_ok p H n k" "bitmap_ok k" "card H + n + 1 < NBUF" "unheld H k"
    and j: "j * BPB < unat (sb_size (sb k))" and lower: "\<And>b. b < sb_size (sb k) \<Longrightarrow> unat b < j * BPB \<Longrightarrow> \<not> block_free k b"
    and hit: "free_bit (cview k (BBLOCK (of_nat (j * BPB)) (sb k))) (min BPB (unat (sb_size (sb k) - of_nat (j * BPB)))) = Some bi"
  shows "\<exists>b k'. balloc_loop (Suc f) 1 (of_nat (j * BPB)) es m k = Inr (Some (b, es), m, k') \<and> taken_block p H n b k k'"
proof -
  let ?s = "sb k" and ?b = "of_nat (j * BPB + bi) :: uint" and ?bb = "BBLOCK (of_nat (j * BPB)) (sb k)"
  let ?mark = "\<lambda>d :: block. d(bi div 8 := d (bi div 8) OR bit_mask bi)"
  have geo: "sb_size ?s \<le> disksize k" "unat (sb_size ?s) < 2 ^ 31" using assms(3) by (simp_all add: bitmap_ok_def)
  note grp = free_bit_group [OF j geo(2)]
  have bi: "bi < min BPB (unat (sb_size ?s - of_nat (j * BPB)))" "block_free k ?b"
    and below: "\<And>i. i < bi \<Longrightarrow> \<not> block_free k (of_nat (j * BPB + i))"
    using hit grp(1) by (auto simp: free_bit_def find_upt_Some_iff)
  have lt: "j * BPB + bi < 2 ^ 32" "bi < BPB" using grp(2) [OF bi(1)] geo(2) bi(1) by simp_all
  have u: "unat ?b = j * BPB + bi" using lt(1) by (rule unat32_of_nat)
  have b: "?b < sb_size ?s" using grp(2) [OF bi(1)] u by (simp add: word_less_nat_alt)
  have "of_nat (j * BPB) < sb_size ?s" using j geo(2) unat32_of_nat [of "j * BPB"] by (simp add: word_less_nat_alt del: of_nat_mult)
  then have bb: "?bb < disksize k" "\<not> in_log (lg_start k) ?bb" "\<forall>c \<in> H. b_blockno (bufs k c) \<noteq> ?bb" "?b \<noteq> ?bb"
    and bl: "\<not> in_log (lg_start k) ?b" "\<forall>c \<in> H. b_blockno (bufs k c) \<noteq> ?b" "?b < disksize k"
    using assms(3,5) b bi(2) geo(1) by (auto simp: bitmap_ok_def unheld_def)
  obtain bp k1 k2 k3 n3 where k1: "bread 1 ?bb es m k = Inr (Some (bp, es), m, k1)" "b_data (bufs k1 bp) = cview k ?bb"
    "logstate.more k1 = logstate.more k" "log_write bp m (set_data bp (?mark (cview k ?bb)) k1) = Inr ((), m, k2)"
    "brelse bp m k2 = Inr ((), m, k3)" "tx_ok p H n3 k3" "n3 \<le> Suc n" "cview k3 = (cview k)(?bb := ?mark (cview k ?bb))"
    "tx_frame k k3" "held_same H k k3"
    using tx_modify [OF assms(1,2) bb(1,3) _ bb(2), where d = ?mark and es = es] assms(4) by auto
  have k3: "disksize k3 = disksize k" "lg_start k3 = lg_start k" using k1(9) by (simp_all add: tx_frame_def)
  have "\<forall>c \<in> H. b_blockno (bufs k3 c) \<noteq> ?b" using bl(2) k1(10) by (simp add: held_same_def)
  then obtain k' n' where k': "bzero 1 ?b es m k3 = Inr (Some ((), es), m, k')" "tx_ok p H n' k'" "n' \<le> Suc n3"
    "cview k' = (cview k3)(?b := (\<lambda>_. 0))" "tx_frame k3 k'" "held_same H k3 k'"
    using bzero_ok [OF assms(1) k1(6), of ?b es] bl k3 k1(7) assms(4) by auto
  have "balloc_loop (Suc f) 1 (of_nat (j * BPB)) es m k = Inr (Some (?b, es), m, k')"
    using k1(1,2,4,5) k'(1) hit \<open>of_nat (j * BPB) < sb_size ?s\<close> by (simp add: km_simps)
  moreover have "taken_block p H n ?b k k'"
  proof -
    have g: "BBLOCK ?b ?s = ?bb" "unat ?b mod BPB = bi"
      using bitmap_group(1) [OF lt, of ?s] bitmap_group(2) [OF lt] bitmap_group(1) [of j 0 ?s] lt(1) by (simp_all add: BPB_def)
    have "\<not> block_free k b'" if "b' < ?b" for b'
    proof (cases "unat b' < j * BPB")
      case False
      then have "b' = of_nat (j * BPB + (unat b' - j * BPB))" "unat b' - j * BPB < bi"
        using that u by (simp_all add: word_less_nat_alt)
      then show ?thesis using below [of "unat b' - j * BPB"] by metis
    qed (use that b lower in \<open>meson order.strict_trans\<close>)
    moreover have "tx_frame k k'" "held_same H k k'" using k1(9,10) k'(5,6) by (simp_all add: tx_frame_def held_same_def)
    moreover have "\<exists>n' \<le> n + 2. tx_ok p H n' k'" using k'(2,3) k1(7) by (intro exI [of _ n']) simp
    ultimately show ?thesis
      using b bi(2) k'(4) k1(8) unfolding taken_block_def Let_def g by simp
  qed
  ultimately show ?thesis by blast
qed

lemma balloc_miss:
  fixes k :: "'a fsstate_scheme"
  assumes "unat (sb_size (sb k)) < 2 ^ 31" "j * BPB < unat (sb_size (sb k))" "\<And>b. b < sb_size (sb k) \<Longrightarrow> unat b < j * BPB \<Longrightarrow> \<not> block_free k b"
    and "free_bit (cview k (BBLOCK (of_nat (j * BPB)) (sb k))) (min BPB (unat (sb_size (sb k) - of_nat (j * BPB)))) = None"
    and "b < sb_size (sb k)" "unat b < (j + 1) * BPB"
  shows "\<not> block_free k b"
proof (cases "unat b < j * BPB")
  case False
  note grp = free_bit_group [OF assms(2,1)]
  have "unat b - j * BPB < min BPB (unat (sb_size (sb k) - of_nat (j * BPB)))" using grp(3) [OF assms(5) _ assms(6)] False by (simp del: of_nat_mult)
  moreover from this have "block_free k (of_nat (j * BPB + (unat b - j * BPB))) \<longleftrightarrow>
      cview k (BBLOCK (of_nat (j * BPB)) (sb k)) ((unat b - j * BPB) div 8) AND bit_mask (unat b - j * BPB) = 0"
    by (rule grp(1))
  ultimately have "\<not> block_free k (of_nat (j * BPB + (unat b - j * BPB)))"
    using assms(4) by (simp add: free_bit_def find_upt_None_iff del: of_nat_add of_nat_mult)
  moreover have "j * BPB + (unat b - j * BPB) = unat b" using False by simp
  ultimately show ?thesis by (simp del: of_nat_add of_nat_mult)
qed (rule assms(3) [OF assms(5)])

lemma balloc_turns:
  fixes k :: "'a fsstate_scheme"
  assumes "runs p m" "tx_ok p H n k" "bitmap_ok k" "card H + n + 1 < NBUF" "unheld H k"
    and "\<And>b. b < sb_size (sb k) \<Longrightarrow> unat b < j * BPB \<Longrightarrow> \<not> block_free k b" "b0 < sb_size (sb k)" "block_free k b0"
    and "unat (sb_size (sb k)) div BPB < j + f"
  shows "\<exists>b k'. balloc_loop f 1 (of_nat (j * BPB)) es m k = Inr (Some (b, es), m, k') \<and> taken_block p H n b k k'"
  using assms(2-)
proof (induction f arbitrary: j k)
  case 0
  have "j * BPB \<le> unat b0" using "0.prems"(5,6,7) by (meson not_le)
  then have "j \<le> unat (sb_size (sb k)) div BPB"
    using "0.prems"(6) by (simp add: word_less_nat_alt less_eq_div_iff_mult_less_eq BPB_def)
  then show ?case using "0.prems"(8) by simp
next
  case (Suc f)
  let ?s = "sb k" and ?bb = "BBLOCK (of_nat (j * BPB)) (sb k)"
  have size: "unat (sb_size ?s) < 2 ^ 31" using Suc.prems(2) by (simp add: bitmap_ok_def)
  have "j * BPB \<le> unat b0" using Suc.prems(5,6,7) by (meson not_le)
  then have j: "j * BPB < unat (sb_size ?s)" using Suc.prems(6) by (simp add: word_less_nat_alt)
  then have lt: "of_nat (j * BPB) < sb_size ?s"
    using size unat32_of_nat [of "j * BPB"] by (simp add: word_less_nat_alt del: of_nat_mult)
  show ?case
  proof (cases "free_bit (cview k ?bb) (min BPB (unat (sb_size ?s - of_nat (j * BPB))))")
    case (Some bi)
    from balloc_hit [OF assms(1) Suc.prems(1-4) j _ this, of f es] Suc.prems(5) show ?thesis by blast
  next
    case None
    have bb: "?bb < disksize k" "\<forall>c \<in> H. b_blockno (bufs k c) \<noteq> ?bb"
      using Suc.prems(2,4) lt by (auto simp: bitmap_ok_def unheld_def)
    obtain bp k1 k' where k': "bread 1 ?bb es m k = Inr (Some (bp, es), m, k1)" "b_data (bufs k1 bp) = cview k ?bb"
      "brelse bp m k1 = Inr ((), m, k')" "tx_ok p H n k'" "cview k' = cview k" "tx_frame k k'" "held_same H k k'"
      using tx_peek [OF assms(1) Suc.prems(1) bb, of es] Suc.prems(3) by auto
    note cong = bitmap_cong [OF k'(5,6)] unheld_cong [OF k'(5-7)]
    have sb: "sb k' = ?s" using k'(6) fs_more(1) [of k' k] by (simp add: tx_frame_def)
    have low: "\<not> block_free k' b" if "b < sb_size ?s" "unat b < (j + 1) * BPB" for b
      unfolding cong(1) by (rule balloc_miss [OF size j _ None that]) (rule Suc.prems(5))
    obtain b k'' where "balloc_loop f 1 (of_nat ((j + 1) * BPB)) es m k' = Inr (Some (b, es), m, k'')" "taken_block p H n b k' k''"
      using Suc.IH [of k' "j + 1"] k'(4) Suc.prems(2-8) low by (auto simp: cong sb)
    moreover have "of_nat ((j + 1) * BPB) = (of_nat (j * BPB) + of_nat BPB :: uint)" by simp
    moreover have "taken_block p H n b k = taken_block p H n b k'" by (rule taken_cong [OF k'(5-7)])
    ultimately show ?thesis using k'(1-3) None lt by (intro exI [of _ b] exI [of _ k'']) (simp add: km_simps add.commute)
  qed
qed

lemma balloc_ok:
  fixes k :: "'a fsstate_scheme"
  assumes "runs p m" "tx_ok p H n k" "bitmap_ok k" "card H + n + 1 < NBUF" "unheld H k" "b0 < sb_size (sb k)" "block_free k b0"
  shows "\<exists>b k'. balloc 1 es m k = Inr (Some (b, es), m, k') \<and> taken_block p H n b k k'"
  using balloc_turns [OF assms(1-5), of 0 b0 "unat (sb_size (sb k)) div BPB + 2" es] assms(6,7)
  by (simp add: balloc_def km_simps del: balloc_loop.simps)

text \<open>Setting the bit of one block changes the bit of no other.\<close>

lemma bit_mask_other:
  assumes "i div 8 = i' div 8" "i \<noteq> i'"
  shows "bit_mask i AND bit_mask i' = 0"
proof -
  have "i mod 8 \<noteq> i' mod 8" using assms by (metis div_mod_decomp)
  then show ?thesis by (intro bit_word_eqI) (auto simp: bit_mask_def bit_simps)
qed

lemma mark_other:
  fixes d :: block
  assumes "i \<noteq> i'"
  shows "(d(i div 8 := d (i div 8) OR bit_mask i)) (i' div 8) AND bit_mask i' = d (i' div 8) AND bit_mask i'"
  using assms bit_mask_other [of i i'] by (cases "i div 8 = i' div 8") (simp_all add: bit.conj_disj_distrib2)

lemma mark_self: "(x OR bit_mask i) AND bit_mask i \<noteq> 0"
proof -
  have "bit ((x OR bit_mask i) AND bit_mask i) (i mod 8)" by (simp add: bit_mask_def bit_simps)
  then show ?thesis by (metis bit_0_eq bot_apply bot_bool_def)
qed

lemma bit_where:
  assumes "BBLOCK b s = BBLOCK b' s" "b \<noteq> b'"
  shows "unat b mod BPB \<noteq> unat b' mod BPB"
proof
  assume "unat b mod BPB = unat b' mod BPB"
  moreover have "unat b div BPB = unat b' div BPB"
  proof -
    have "b div 4096 = b' div 4096" using assms(1) by (simp add: BBLOCK_def BPB_def)
    then have "unat (b div 4096) = unat (b' div 4096)" by simp
    then show ?thesis by (simp add: unat_div BPB_def)
  qed
  ultimately have "unat b = unat b'" by (metis div_mod_decomp)
  then show False using assms(2) by (simp add: word_unat_eq_iff)
qed

text \<open>A file system on the small disk: the bit map is block 40 and blocks 0 to 47 are in use.\<close>

definition small_fs :: fsstate where
  "small_fs = logstate.extend
     (small_disk\<lparr>memdisk := (memdisk small_disk)(40 := \<lambda>i. if i < 6 then 255 else 0)\<rparr>)
     (fsstate.fields
       \<lparr>sb_size = 1000, sb_nblocks = 900, sb_ninodes = 40, sb_nlog = 31, sb_logstart = 2, sb_inodestart = 33, sb_bmapstart = 40\<rparr>
       (\<lambda>_. \<lparr>i_dev = 0, i_inum = 0, i_ref = 0, i_valid = False, i_type = 0, i_major = 0, i_minor = 0, i_nlink = 0,
         i_size = 0, i_addrs = (\<lambda>_. 0), i_container_id = 0\<rparr>)
       (\<lambda>_. None) (\<lambda>_. None) \<lparr>in_buf = (\<lambda>_. 0), in_r = 0, in_w = 0, in_e = 0\<rparr>)"

lemma small_fs_sel [simp]:
  "blank (bufs small_fs b)" "disksize small_fs = 1000" "lg_start small_fs = 2" "lg_size small_fs = 31" "lg_outstanding small_fs = 1"
  "lg_dev small_fs = 1" "lh_n small_fs = 0" "sb_size (sb small_fs) = 1000" "sb_bmapstart (sb small_fs) = 40"
  "memdisk small_fs 40 = (\<lambda>i. if i < 6 then 255 else 0)"
  by (simp_all add: small_fs_def logstate.defs fsstate.defs small_disk_def disk_state.defs blank_disk_def slstate.defs sysstate.defs
    blank_def)

lemma small_fs_boot:
  "\<exists>k. binit (idle_mach (Some 0)) small_fs = Inr ((), idle_mach (Some 0), k) \<and> tx_ok 0 {} 0 k \<and> bitmap_ok k \<and>
     sb_size (sb k) = 1000 \<and> (\<forall>b < 1000. block_free k b \<longleftrightarrow> 48 \<le> unat b)"
proof -
  obtain k where k: "binit (idle_mach (Some 0)) small_fs = Inr ((), idle_mach (Some 0), k)" "cache_ok 0 {} k"
    "cview k = (\<lambda>b. memdisk small_fs (unat b))" "dirty_blocks k = {}" "disksize k = 1000"
    and more: "disk_state.more k = disk_state.more small_fs"
    using binit_ok [of "idle_mach (Some 0)" small_fs] by auto
  have sb: "sb k = sb small_fs" using log_more(8) [OF more] by (rule fs_more)
  have tx: "tx_ok 0 {} 0 k"
    using k by (simp add: tx_ok_def log_ok_def homes_ok_def log_more [OF more] LOGSIZE_def)
  have small: "BBLOCK b (sb k) = 40" "unat b mod BPB = unat b" "unat b < 1000" if "b < 1000" for b
  proof -
    show u: "unat b < 1000" using that by (simp add: word_less_nat_alt)
    then have "unat (b div 4096) = 0" by (simp add: unat_div)
    then have "b div 4096 = 0" by (simp only: unat_eq_zero)
    then show "BBLOCK b (sb k) = 40" by (simp add: BBLOCK_def sb BPB_def)
    show "unat b mod BPB = unat b" using u by (simp add: BPB_def)
  qed
  have free: "block_free k b \<longleftrightarrow> 48 \<le> unat b" if "b < 1000" for b
  proof -
    have "bit_mask i \<noteq> 0" for i using mark_self [of 0 i] by auto
    moreover have "255 AND x = x" for x :: uchar
    proof -
      have "(255 :: uchar) = - 1" by simp
      then show ?thesis by (metis and.left_neutral)
    qed
    ultimately show ?thesis using small [OF that] k(3) by (simp add: block_free_def not_less) linarith
  qed
  have "bitmap_ok k"
    using small free sb k(5) by (auto simp: bitmap_ok_def log_more [OF more] in_log_def LOGSIZE_def)
  then show ?thesis using k(1) tx free sb by (intro exI [of _ k]) simp
qed

section \<open>Properties\<close>

text \<open>C12: \<open>balloc\<close> returns, without waiting, the first block whose bit was clear; the bit is then set, the
  block reads as zeros, no other bit of the map and no other block has changed.\<close>

theorem balloc_takes_free:
  fixes k :: "'a fsstate_scheme"
  assumes "runs p m" "tx_ok p {} n k" "bitmap_ok k" "n + 1 < NBUF" "b0 < sb_size (sb k)" "block_free k b0"
  shows "\<exists>b k'. balloc 1 es m k = Inr (Some (b, es), m, k') \<and> b \<le> b0 \<and> block_free k b \<and> (\<forall>b' < b. \<not> block_free k b') \<and>
    (\<forall>b' < sb_size (sb k). block_free k' b' \<longleftrightarrow> block_free k b' \<and> b' \<noteq> b) \<and> cview k' b = (\<lambda>_. 0) \<and>
    (\<forall>x. x \<noteq> b \<and> x \<noteq> BBLOCK b (sb k) \<longrightarrow> cview k' x = cview k x)"
proof -
  obtain b k' where run: "balloc 1 es m k = Inr (Some (b, es), m, k')" and t: "taken_block p {} n b k k'"
    using balloc_ok [OF assms(1-3), of b0 es] assms(4-6) by (auto simp: unheld_def)
  let ?bb = "BBLOCK b (sb k)" and ?i = "unat b mod BPB"
  have b: "b < sb_size (sb k)" "block_free k b" "\<forall>b' < b. \<not> block_free k b'" "tx_frame k k'"
    and view: "cview k' = (cview k)(?bb := (cview k ?bb)(?i div 8 := cview k ?bb (?i div 8) OR bit_mask ?i), b := (\<lambda>_. 0))"
    using t by (simp_all add: taken_block_def Let_def)
  have sb: "sb k' = sb k" using b(4) fs_more(1) [of k' k] by (simp add: tx_frame_def)
  have "block_free k' b' \<longleftrightarrow> block_free k b' \<and> b' \<noteq> b" if "b' < sb_size (sb k)" for b'
  proof -
    have "BBLOCK b' (sb k) \<noteq> b" using assms(3) b(1,2) that by (auto simp: bitmap_ok_def)
    moreover have "?bb \<noteq> b" using assms(3) b(1,2) unfolding bitmap_ok_def by metis
    moreover have "?i \<noteq> unat b' mod BPB" if "BBLOCK b' (sb k) = ?bb" "b' \<noteq> b"
      using bit_where [of b "sb k" b'] that by auto
    ultimately show ?thesis
      using b(2) mark_other [of ?i "unat b' mod BPB" "cview k ?bb"] mark_self [of "cview k ?bb (?i div 8)" ?i]
      by (cases "b' = b"; cases "BBLOCK b' (sb k) = ?bb") (auto simp: block_free_def sb view simp del: fun_upd_apply simp: fun_upd_same fun_upd_other)
  qed
  moreover have "b \<le> b0" using b(3) assms(6) by (meson not_le)
  ultimately show ?thesis using run b view by (intro exI [of _ b] exI [of _ k']) auto
qed

theorem balloc_takes_free_witness:
  "\<exists>k k'. binit (idle_mach (Some 0)) small_fs = Inr ((), idle_mach (Some 0), k) \<and>
     balloc 1 [] (idle_mach (Some 0)) k = Inr (Some (48, []), idle_mach (Some 0), k') \<and>
     \<not> block_free k' 48 \<and> block_free k' 49 \<and> cview k' 48 = (\<lambda>_. 0)"
proof -
  let ?m = "idle_mach (Some 0)"
  obtain k where k: "binit ?m small_fs = Inr ((), ?m, k)" "tx_ok 0 {} 0 k" "bitmap_ok k" "sb_size (sb k) = 1000"
    and free: "\<And>b. b < 1000 \<Longrightarrow> block_free k b \<longleftrightarrow> 48 \<le> unat b"
    using small_fs_boot by blast
  obtain b k' where r: "balloc 1 [] ?m k = Inr (Some (b, []), ?m, k')" "b \<le> 48" "block_free k b" "\<forall>b' < b. \<not> block_free k b'"
    "\<forall>b' < sb_size (sb k). block_free k' b' \<longleftrightarrow> block_free k b' \<and> b' \<noteq> b" "cview k' b = (\<lambda>_. 0)"
    using balloc_takes_free [OF _ k(2,3), of ?m 48 "[]"] k(4) free [of 48] by (auto simp: NBUF_def)
  have "\<not> b < 48" using free [of b] r(2,3) by (auto simp: word_less_nat_alt word_le_nat_alt)
  then have "b = 48" using r(2) by simp
  then show ?thesis using k(1,4) r free [of 49] by (intro exI [of _ k] exI [of _ k']) simp
qed

end
