(* ===== verification/Fs.thy ===== *)
theory Fs
  imports Inode
begin

text \<open>
  The upper half of the file system: reading and writing the contents of an i-node, directories and
  path names (\<^verbatim>\<open>fs.c\<close>), the console as a device (the input half of \<^verbatim>\<open>console.c\<close>) and the loading of a
  program segment (\<open>loaduvm\<close> of \<^verbatim>\<open>vm.c\<close>).

  A destination of \<open>readi\<close> is an address, or \<open>None\<close> for a variable on the kernel stack, whose new
  contents the caller takes from the bytes returned.  A source of \<open>writei\<close> is an address or the bytes
  of such a variable.  A path is the list of the bytes before its null byte, a name a list of at most
  \<open>DIRSIZ\<close> bytes.
\<close>

section \<open>Sources and destinations\<close>

datatype src = Mem uint | Local "uchar list"

definition store :: "uint option \<Rightarrow> uint \<Rightarrow> uchar list \<Rightarrow> ('a vm_state_scheme, unit) km" where
  "store dst tot bs = (case dst of None \<Rightarrow> ret () | Some a \<Rightarrow> put_bytes (a + tot) bs)"

definition fetch :: "src \<Rightarrow> uint \<Rightarrow> nat \<Rightarrow> ('a vm_state_scheme, uchar list) km" where
  "fetch s tot m = (case s of Mem a \<Rightarrow> get_bytes (a + tot) m | Local bs \<Rightarrow> ret (take m (drop (unat tot) bs)))"

section \<open>Console input\<close>

definition INPUT_BUF :: nat where "INPUT_BUF = 128"
definition CONSOLE :: int where "CONSOLE = 1"

definition upd_input :: "(line_input \<Rightarrow> line_input) \<Rightarrow> 'a fsstate_scheme \<Rightarrow> 'a fsstate_scheme" where
  "upd_input f k = k\<lparr>input := f (input k)\<rparr>"

text \<open>Control-U: the line so far is erased; \<open>n\<close> bounds the characters that can be erased.\<close>

primrec kill_line :: "nat \<Rightarrow> ('a fsstate_scheme, unit) km" where
  "kill_line 0 = ret ()"
| "kill_line (Suc n) =
     bnd (look input) (\<lambda>x.
     if in_e x \<noteq> in_w x \<and> in_buf x (unat (in_e x - 1) mod INPUT_BUF) \<noteq> 10 then
       andthen (upd (upd_input (\<lambda>x. x\<lparr>in_e := in_e x - 1\<rparr>))) (
       andthen (consputc BACKSPACE)
         (kill_line n))
     else ret ())"

text \<open>One character of \<open>consoleintr\<close>; the result says whether it was control-P.\<close>

definition consoleintr_char :: "int \<Rightarrow> ('a fsstate_scheme, bool) km" where
  "consoleintr_char c =
     (if c = 0x10 then ret True
      else if c = 0x15 then
        bnd (look input) (\<lambda>x. andthen (kill_line (unat (in_e x - in_w x))) (ret False))
      else if c = 8 \<or> c = 0x7f then
        bnd (look input) (\<lambda>x.
        if in_e x \<noteq> in_w x then
          andthen (upd (upd_input (\<lambda>x. x\<lparr>in_e := in_e x - 1\<rparr>))) (
          andthen (consputc BACKSPACE)
            (ret False))
        else ret False)
      else
        bnd (look input) (\<lambda>x.
        if c \<noteq> 0 \<and> unat (in_e x - in_r x) < INPUT_BUF then
          let c' = (if c = 13 then 10 else c) in
          andthen (upd (upd_input (\<lambda>x. x\<lparr>in_buf := (in_buf x)(unat (in_e x) mod INPUT_BUF := of_int c'), in_e := in_e x + 1\<rparr>))) (
          andthen (consputc c') (
          bnd (look input) (\<lambda>x.
          andthen (if c' = 10 \<or> c' = 4 \<or> in_e x = in_r x + of_nat INPUT_BUF then
              andthen (upd (upd_input (\<lambda>x. x\<lparr>in_w := in_e x\<rparr>)))
                (wakeup ChanInput)
            else ret ())
          (ret False))))
        else ret False))"

primrec consoleintr_chars :: "int list \<Rightarrow> ('a fsstate_scheme, bool) km" where
  "consoleintr_chars [] = ret False"
| "consoleintr_chars (c # cs) =
     bnd (consoleintr_char c) (\<lambda>b. bnd (consoleintr_chars cs) (\<lambda>b'. ret (b \<or> b')))"

text \<open>\<open>cs\<close> are the characters \<open>getc\<close> returns before its first negative result.\<close>

definition consoleintr :: "int list \<Rightarrow> ('a fsstate_scheme, unit) km" where
  "consoleintr cs =
     andthen (acquire ConsLock) (
     bnd (consoleintr_chars cs) (\<lambda>doprocdump.
     andthen (release ConsLock) (
     if doprocdump then procdump else ret ())))"

text \<open>\<open>while(input.r == input.w)\<close>: the result is false if the process was killed while it waited.\<close>

definition console_wait :: "unit \<Rightarrow> ('a fsstate_scheme, bool + unit) bkm" where
  "console_wait _ =
     bbnd (lift (look input)) (\<lambda>x.
     if in_r x = in_w x then
       bbnd (lift (my p_killed)) (\<lambda>kd.
       if kd then bret (Inl False)
       else bthen (sleep ChanInput ConsLock) (bret (Inr ())))
     else bret (Inl True))"

text \<open>The loop of \<open>consoleread\<close>: the count left and the characters, or \<open>None\<close> if the process was killed.\<close>

primrec consoleread_loop :: "nat \<Rightarrow> uint \<Rightarrow> uint option \<Rightarrow> ('a fsstate_scheme, (nat \<times> uchar list) option) bkm" where
  "consoleread_loop 0 target dst = bret (Some (0, []))"
| "consoleread_loop (Suc n) target dst =
     bbnd (bwhile console_wait ()) (\<lambda>ok.
     if \<not> ok then bret None
     else
       bbnd (lift (look (\<lambda>k. in_buf (input k) (unat (in_r (input k)) mod INPUT_BUF)))) (\<lambda>c.
       bthen (lift (upd (upd_input (\<lambda>x. x\<lparr>in_r := in_r x + 1\<rparr>)))) (
       if c = 4 then
         bthen (if of_nat (Suc n) < target then lift (upd (upd_input (\<lambda>x. x\<lparr>in_r := in_r x - 1\<rparr>))) else bret ())
           (bret (Some (Suc n, [])))
       else
         bthen (lift (store dst 0 [c])) (
         if c = 10 then bret (Some (n, [c]))
         else
           bbnd (consoleread_loop n target (map_option (\<lambda>a. a + 1) dst)) (\<lambda>r.
           bret (map_option (\<lambda>(left, cs). (left, c # cs)) r))))))"

definition consoleread :: "nat \<Rightarrow> uint option \<Rightarrow> int \<Rightarrow> ('a fsstate_scheme, int \<times> uchar list) bkm" where
  "consoleread ip dst n =
     bthen (lift (iunlock (Some ip))) (
     bthen (lift (acquire ConsLock)) (
     bbnd (consoleread_loop (nat n) (of_int n) dst) (\<lambda>r.
     bthen (lift (release ConsLock)) (
     bthen (ilock (Some ip)) (
     bret (case r of None \<Rightarrow> (-1, []) | Some (left, cs) \<Rightarrow> (sint (of_int n - of_int (if n > 0 then int left else n) :: uint), cs)))))))"

definition consolewrite :: "nat \<Rightarrow> src \<Rightarrow> int \<Rightarrow> ('a fsstate_scheme, int) bkm" where
  "consolewrite ip buf n =
     bthen (lift (iunlock (Some ip))) (
     bthen (lift (acquire ConsLock)) (
     bthen (lift (for_each (\<lambda>i.
       bnd (fetch buf (of_nat i) 1) (\<lambda>cs. for_each (\<lambda>c. consputc (uint c)) cs)) [0..<nat n])) (
     bthen (lift (release ConsLock)) (
     bthen (ilock (Some ip)) (
     bret n)))))"

definition consoleinit :: "('a fsstate_scheme, unit) km" where
  "consoleinit =
     andthen (initlock ConsLock) (
     andthen (upd (\<lambda>k. k\<lparr>devsw_write := (devsw_write k)(CONSOLE := Some ConsoleDriver),
       devsw_read := (devsw_read k)(CONSOLE := Some ConsoleDriver)\<rparr>))
       (updm (\<lambda>m. m\<lparr>cons_locking := True\<rparr>)))"

section \<open>Contents of an i-node\<close>

text \<open>\<open>memmove(d + o, bs, n)\<close> in a block.\<close>

definition override :: "block \<Rightarrow> nat \<Rightarrow> uchar list \<Rightarrow> block" where
  "override d o' bs i = (if o' \<le> i \<and> i < o' + length bs then bs ! (i - o') else d i)"

abbreviation sz_block :: uint where "sz_block \<equiv> of_nat BSIZE"

definition chunk :: "uint \<Rightarrow> uint \<Rightarrow> uint" where
  "chunk off left = min left (sz_block - off mod sz_block)"

lemma chunk_bounds:
  assumes "0 < left"
  shows "0 < chunk off left" "chunk off left \<le> left" "unat (off mod sz_block) + unat (chunk off left) \<le> BSIZE"
proof -
  have m: "off mod 512 < 512" by (rule word_mod_less_divisor) simp
  then have "unat (512 - off mod 512) = 512 - unat (off mod 512)" "unat (off mod 512) < 512"
    by (simp_all add: unat_sub order_less_imp_le word_less_nat_alt)
  then show "unat (off mod sz_block) + unat (chunk off left) \<le> BSIZE"
    by (auto simp: chunk_def BSIZE_def min_def word_le_nat_alt)
  have "512 - off mod 512 \<noteq> 0" using m by auto
  then have "0 < 512 - off mod 512" by (simp add: word_gt_0)
  then show "0 < chunk off left" using assms by (simp add: chunk_def BSIZE_def)
qed (simp add: chunk_def)

lemma chunk_decreases:
  fixes tot n :: uint
  assumes "tot < n"
  shows "unat (n - (tot + chunk off (n - tot))) < unat (n - tot)"
proof -
  let ?m = "chunk off (n - tot)"
  have "0 < n - tot" using assms by (simp add: word_gt_0)
  note m = chunk_bounds(1,2) [OF this, of off]
  have "unat (n - tot - ?m) = unat (n - tot) - unat ?m" using m(2) by (rule unat_sub)
  then have "unat (n - (tot + ?m)) = unat (n - tot) - unat ?m" by (simp only: diff_diff_eq)
  moreover have "0 < unat ?m" using m(1) by (simp add: word_less_nat_alt)
  moreover have "unat ?m \<le> unat (n - tot)" using m(2) by (simp add: word_le_nat_alt)
  ultimately show ?thesis by linarith
qed

text \<open>
  The loops of \<open>readi\<close> and \<open>writei\<close> end, because a turn moves at least one byte.
\<close>

function readi_loop :: "nat \<Rightarrow> uint option \<Rightarrow> uint \<Rightarrow> uint \<Rightarrow> uint \<Rightarrow> ('a fsstate_scheme, uchar list) bkm" where
  "readi_loop ip dst off tot n =
     (if tot < n then
        bbnd (bmap ip (off div sz_block)) (\<lambda>addr.
        bbnd (lift (ifield ip i_dev)) (\<lambda>dev.
        bbnd (bread dev addr) (\<lambda>bp.
        bbnd (lift (bdata bp)) (\<lambda>d.
        let m = chunk off (n - tot);
            bs = map d [unat (off mod sz_block)..<unat (off mod sz_block) + unat m] in
        bthen (lift (store dst tot bs)) (
        bthen (lift (brelse bp)) (
        bbnd (readi_loop ip dst (off + m) (tot + m) n) (\<lambda>rest.
        bret (bs @ rest))))))))
      else bret [])"
  by auto
termination
  by (relation "measure (\<lambda>(ip, dst, off, tot, n). unat (n - tot))") (use chunk_decreases in auto)

function writei_loop :: "nat \<Rightarrow> src \<Rightarrow> uint \<Rightarrow> uint \<Rightarrow> uint \<Rightarrow> ('a fsstate_scheme, unit) bkm" where
  "writei_loop ip s off tot n =
     (if tot < n then
        bbnd (bmap ip (off div sz_block)) (\<lambda>addr.
        bbnd (lift (ifield ip i_dev)) (\<lambda>dev.
        bbnd (bread dev addr) (\<lambda>bp.
        let m = chunk off (n - tot) in
        bbnd (lift (fetch s tot (unat m))) (\<lambda>bs.
        bbnd (lift (bdata bp)) (\<lambda>d.
        bthen (lift (upd (set_data bp (override d (unat (off mod sz_block)) bs)))) (
        bthen (lift (log_write bp)) (
        bthen (lift (brelse bp))
          (writei_loop ip s (off + m) (tot + m) n))))))))
      else bret ())"
  by auto
termination
  by (relation "measure (\<lambda>(ip, s, off, tot, n). unat (n - tot))") (use chunk_decreases in auto)

declare readi_loop.simps [simp del] writei_loop.simps [simp del]

text \<open>The result is a count or -1, with the bytes read.\<close>

definition readi :: "nat \<Rightarrow> uint option \<Rightarrow> uint \<Rightarrow> uint \<Rightarrow> ('a fsstate_scheme, int \<times> uchar list) bkm" where
  "readi ip dst off n =
     bbnd (lift (ifield ip i_type)) (\<lambda>t.
     if t = T_DEV then
       bbnd (lift (ifield ip (\<lambda>x. sint (i_major x)))) (\<lambda>major.
       bbnd (lift (look (\<lambda>k. devsw_read k major))) (\<lambda>dr.
       if major < 0 \<or> major \<ge> NDEV then bret (-1, [])
       else case dr of None \<Rightarrow> bret (-1, []) | Some ConsoleDriver \<Rightarrow> consoleread ip dst (sint n)))
     else
       bbnd (lift (ifield ip i_size)) (\<lambda>size.
       if off > size \<or> off + n < off then bret (-1, [])
       else
         let n' = (if off + n > size then size - off else n) in
         bbnd (readi_loop ip dst off 0 n') (\<lambda>bs.
         bret (sint n', bs))))"

definition writei :: "nat \<Rightarrow> src \<Rightarrow> uint \<Rightarrow> uint \<Rightarrow> ('a fsstate_scheme, int) bkm" where
  "writei ip s off n =
     bbnd (lift (ifield ip i_type)) (\<lambda>t.
     if t = T_DEV then
       bbnd (lift (ifield ip (\<lambda>x. sint (i_major x)))) (\<lambda>major.
       bbnd (lift (look (\<lambda>k. devsw_write k major))) (\<lambda>dr.
       if major < 0 \<or> major \<ge> NDEV then bret (-1)
       else case dr of None \<Rightarrow> bret (-1) | Some ConsoleDriver \<Rightarrow> consolewrite ip s (sint n)))
     else
       bbnd (lift (ifield ip i_size)) (\<lambda>size.
       if off > size \<or> off + n < off then bret (-1)
       else if off + n > of_nat (MAXFILE * BSIZE) then bret (-1)
       else
         bthen (writei_loop ip s off 0 n) (
         bbnd (lift (ifield ip i_size)) (\<lambda>size'.
         bthen (if n > 0 \<and> off + n > size' then
             bthen (lift (upd (upd_inode ip (\<lambda>x. x\<lparr>i_size := off + n\<rparr>))))
               (iupdate ip)
           else bret ())
         (bret (sint n))))))"

section \<open>Directories\<close>

text \<open>\<open>strncmp\<close> and \<open>strncpy\<close> on names; past its end a name reads as null bytes.\<close>

definition hd0 :: "uchar list \<Rightarrow> uchar" where
  "hd0 s = (case s of [] \<Rightarrow> 0 | c # _ \<Rightarrow> c)"

primrec namecmp_loop :: "nat \<Rightarrow> uchar list \<Rightarrow> uchar list \<Rightarrow> int" where
  "namecmp_loop 0 s t = 0"
| "namecmp_loop (Suc n) s t =
     (if hd0 s \<noteq> 0 \<and> hd0 s = hd0 t then namecmp_loop n (tl s) (tl t) else uint (hd0 s) - uint (hd0 t))"

definition namecmp :: "uchar list \<Rightarrow> uchar list \<Rightarrow> int" where
  "namecmp s t = namecmp_loop DIRSIZ s t"

definition de_inum :: "uchar list \<Rightarrow> short" where
  "de_inum bs = ucast (bs ! 0) OR push_bit 8 (ucast (bs ! 1))"

definition de_name :: "uchar list \<Rightarrow> uchar list" where
  "de_name bs = take DIRSIZ (drop 2 bs)"

definition dirent :: "short \<Rightarrow> uchar list \<Rightarrow> uchar list" where
  "dirent inum name = [ucast inum, ucast (drop_bit 8 inum)] @ take DIRSIZ (takeWhile (\<lambda>c. c \<noteq> 0) name @ replicate DIRSIZ 0)"

primrec dirlookup_loop :: "nat \<Rightarrow> nat \<Rightarrow> uchar list \<Rightarrow> uint \<Rightarrow> ('a fsstate_scheme, (nat \<times> uint) option) bkm" where
  "dirlookup_loop 0 dp name off = lift (fail (Stuck ''dirlookup''))"
| "dirlookup_loop (Suc f) dp name off =
     bbnd (lift (ifield dp i_size)) (\<lambda>size.
     if off < size then
       bbnd (readi dp None off 16) (\<lambda>(r, de).
       if r \<noteq> 16 then lift (fail (Panic ''dirlookup read''))
       else if de_inum de = 0 then dirlookup_loop f dp name (off + 16)
       else if namecmp name (de_name de) = 0 then
         bbnd (lift (ifield dp i_dev)) (\<lambda>dev.
         bbnd (lift (iget dev (ucast (de_inum de)))) (\<lambda>i.
         bret (Some (i, off))))
       else dirlookup_loop f dp name (off + 16))
     else bret None)"

text \<open>The i-node and the offset of the entry; a turn of the loop reads 16 bytes.\<close>

definition dirlookup :: "nat \<Rightarrow> uchar list \<Rightarrow> ('a fsstate_scheme, (nat \<times> uint) option) bkm" where
  "dirlookup dp name =
     bbnd (lift (ifield dp i_type)) (\<lambda>t.
     if t \<noteq> T_DIR then lift (fail (Panic ''dirlookup not DIR''))
     else bbnd (lift (ifield dp i_size)) (\<lambda>size. dirlookup_loop (unat size div 16 + 2) dp name 0))"

primrec dirlink_loop :: "nat \<Rightarrow> nat \<Rightarrow> uint \<Rightarrow> ('a fsstate_scheme, uint) bkm" where
  "dirlink_loop 0 dp off = lift (fail (Stuck ''dirlink''))"
| "dirlink_loop (Suc f) dp off =
     bbnd (lift (ifield dp i_size)) (\<lambda>size.
     if off < size then
       bbnd (readi dp None off 16) (\<lambda>(r, de).
       if r \<noteq> 16 then lift (fail (Panic ''dirlink read''))
       else if de_inum de = 0 then bret off
       else dirlink_loop f dp (off + 16))
     else bret off)"

definition dirlink :: "nat \<Rightarrow> uchar list \<Rightarrow> uint \<Rightarrow> ('a fsstate_scheme, int) bkm" where
  "dirlink dp name inum =
     bbnd (dirlookup dp name) (\<lambda>r. case r of
       Some (ip, _) \<Rightarrow> bthen (iput ip) (bret (-1))
     | None \<Rightarrow>
         bbnd (lift (ifield dp i_size)) (\<lambda>size.
         bbnd (dirlink_loop (unat size div 16 + 2) dp 0) (\<lambda>off.
         bbnd (writei dp (Local (dirent (ucast inum) name)) off 16) (\<lambda>w.
         if w \<noteq> 16 then lift (fail (Panic ''dirlink'')) else bret 0))))"

section \<open>Paths\<close>

abbreviation slash :: uchar where "slash \<equiv> 47"

definition skipelem :: "uchar list \<Rightarrow> (uchar list \<times> uchar list) option" where
  "skipelem pth =
     (let p = dropWhile (\<lambda>c. c = slash) pth in
      if p = [] then None
      else Some (dropWhile (\<lambda>c. c = slash) (dropWhile (\<lambda>c. c \<noteq> slash) p), take DIRSIZ (takeWhile (\<lambda>c. c \<noteq> slash) p)))"

lemma skipelem_shorter:
  assumes "skipelem pth = Some (rest, name)"
  shows "length rest < length pth"
proof -
  let ?p = "dropWhile (\<lambda>c. c = slash) pth"
  from assms have p: "?p \<noteq> []" and rest: "rest = dropWhile (\<lambda>c. c = slash) (dropWhile (\<lambda>c. c \<noteq> slash) ?p)"
    by (auto simp: skipelem_def Let_def split: if_splits)
  have "hd ?p \<noteq> slash" using hd_dropWhile [OF p] by simp
  then have "length (dropWhile (\<lambda>c. c \<noteq> slash) ?p) < length ?p"
    using p length_dropWhile_le [of "\<lambda>c. c \<noteq> slash" "tl ?p"] by (cases ?p) auto
  then show ?thesis
    unfolding rest using length_dropWhile_le [of "\<lambda>c. c = slash" "dropWhile (\<lambda>c. c \<noteq> slash) ?p"] length_dropWhile_le [of "\<lambda>c. c = slash" pth]
    by linarith
qed

function namex_loop :: "uchar list \<Rightarrow> bool \<Rightarrow> nat \<Rightarrow> uchar list \<Rightarrow> ('a fsstate_scheme, nat option \<times> uchar list) bkm" where
  "namex_loop pth parent ip name = (case skipelem pth of
     None \<Rightarrow> if parent then bthen (iput ip) (bret (None, name)) else bret (Some ip, name)
   | Some (pth', name') \<Rightarrow>
       bthen (ilock (Some ip)) (
       bbnd (lift (ifield ip i_type)) (\<lambda>t.
       if t \<noteq> T_DIR then bthen (iunlockput ip) (bret (None, name'))
       else if parent \<and> pth' = [] then bthen (lift (iunlock (Some ip))) (bret (Some ip, name'))
       else bbnd (dirlookup ip name') (\<lambda>nx. case nx of
           None \<Rightarrow> bthen (iunlockput ip) (bret (None, name'))
         | Some (nxt, _) \<Rightarrow> bthen (iunlockput ip) (namex_loop pth' parent nxt name')))))"
  by auto
termination
  by (relation "measure (\<lambda>(pth, parent, ip, name). length pth)") (auto dest: skipelem_shorter)

declare namex_loop.simps [simp del]

definition namex :: "uchar list \<Rightarrow> bool \<Rightarrow> ('a fsstate_scheme, nat option \<times> uchar list) bkm" where
  "namex pth parent =
     bbnd (if pth \<noteq> [] \<and> hd pth = slash then lift (iget ROOTDEV ROOTINO)
       else bbnd (lift (my p_cwd)) (\<lambda>c. case c of None \<Rightarrow> lift (fail (Fault ''cwd'')) | Some i \<Rightarrow> lift (idup i))) (\<lambda>ip.
     namex_loop pth parent ip [])"

definition namei :: "uchar list \<Rightarrow> ('a fsstate_scheme, nat option) bkm" where
  "namei pth = bbnd (namex pth False) (\<lambda>(ip, name). bret ip)"

definition nameiparent :: "uchar list \<Rightarrow> ('a fsstate_scheme, (nat \<times> uchar list) option) bkm" where
  "nameiparent pth = bbnd (namex pth True) (\<lambda>(ip, name). bret (map_option (\<lambda>i. (i, name)) ip))"

section \<open>Loading a program segment\<close>

text \<open>\<open>n\<close> pages are left.\<close>

primrec loaduvm_loop :: "nat \<Rightarrow> uint \<Rightarrow> uint \<Rightarrow> nat \<Rightarrow> uint \<Rightarrow> uint \<Rightarrow> uint \<Rightarrow> ('a fsstate_scheme, int) bkm" where
  "loaduvm_loop 0 pgdir addr ip offset sz i = bret 0"
| "loaduvm_loop (Suc n) pgdir addr ip offset sz i =
     bbnd (lift (walkpgdir pgdir (addr + i) False)) (\<lambda>pte.
     if pte = 0 then lift (fail (Panic ''loaduvm: address should exist''))
     else
       bbnd (lift (look (\<lambda>k. PTE_ADDR (rd32 (ram k) pte)))) (\<lambda>pa.
       let c = (if sz - i < PGSIZE then sz - i else PGSIZE) in
       bbnd (readi ip (Some (P2V pa)) (offset + i) c) (\<lambda>(r, _).
       if r \<noteq> sint c then bret (-1)
       else loaduvm_loop n pgdir addr ip offset sz (i + PGSIZE))))"

definition loaduvm :: "uint \<Rightarrow> uint \<Rightarrow> nat \<Rightarrow> uint \<Rightarrow> uint \<Rightarrow> ('a fsstate_scheme, int) bkm" where
  "loaduvm pgdir addr ip offset sz =
     (if addr mod PGSIZE \<noteq> 0 then lift (fail (Panic ''loaduvm: addr must be page aligned''))
      else loaduvm_loop (size_pages sz) pgdir addr ip offset sz 0)"

end
