(* ===== verification/File.thy ===== *)
theory File
  imports Fs
begin

text \<open>
  Open files (\<^verbatim>\<open>file.c\<close>) and pipes (\<^verbatim>\<open>pipe.c\<close>).  A file is an index in the file table; a pipe is the
  structure at the address of its page.  As in the code, a closed entry of the table keeps its stale
  \<open>ip\<close> and \<open>pipe\<close> fields.  The lemmas show that a pipe is a bounded FIFO queue: the two counters wrap
  around 32 bits, and the bytes between them are what has been written and not yet read.
\<close>

section \<open>State\<close>

datatype fd_type = FD_NONE | FD_PIPE | FD_INODE

record kfile =
  f_type :: fd_type
  f_ref :: int
  f_readable :: bool
  f_writable :: bool
  f_pipe :: uint
  f_ip :: "nat option"
  f_off :: uint

definition PIPESIZE :: nat where "PIPESIZE = 512"

record pipe =
  pdata :: "nat \<Rightarrow> uchar"
  nread :: uint
  nwrite :: uint
  readopen :: bool
  writeopen :: bool

record filestate = fsstate +
  ftab :: "nat \<Rightarrow> kfile"
  pipes :: "uint \<Rightarrow> pipe"

definition upd_file :: "nat \<Rightarrow> (kfile \<Rightarrow> kfile) \<Rightarrow> 'a filestate_scheme \<Rightarrow> 'a filestate_scheme" where
  "upd_file i f k = k\<lparr>ftab := (ftab k)(i := f (ftab k i))\<rparr>"

definition upd_pipe :: "uint \<Rightarrow> (pipe \<Rightarrow> pipe) \<Rightarrow> 'a filestate_scheme \<Rightarrow> 'a filestate_scheme" where
  "upd_pipe p f k = k\<lparr>pipes := (pipes k)(p := f (pipes k p))\<rparr>"

section \<open>The file table\<close>

definition fileinit :: "('a filestate_scheme, unit) km" where
  "fileinit = initlock FtableLock"

definition filealloc :: "('a filestate_scheme, nat option) km" where
  "filealloc =
     andthen (acquire FtableLock) (
     bnd (look (\<lambda>k. find (\<lambda>f. f_ref (ftab k f) = 0) [0..<NFILE])) (\<lambda>r. case r of
       Some f \<Rightarrow>
         andthen (upd (upd_file f (\<lambda>x. x\<lparr>f_ref := 1\<rparr>))) (
         andthen (release FtableLock) (
         ret (Some f)))
     | None \<Rightarrow>
         andthen (release FtableLock) (
         ret None)))"

definition filedup :: "nat \<Rightarrow> ('a filestate_scheme, nat) km" where
  "filedup f =
     andthen (acquire FtableLock) (
     bnd (look (\<lambda>k. f_ref (ftab k f))) (\<lambda>r.
     if r < 1 then fail (Panic ''filedup'')
     else
       andthen (upd (upd_file f (\<lambda>x. x\<lparr>f_ref := f_ref x + 1\<rparr>))) (
       andthen (release FtableLock) (
       ret f))))"

section \<open>Pipes\<close>

definition pipeclose :: "uint \<Rightarrow> bool \<Rightarrow> ('a filestate_scheme, unit) km" where
  "pipeclose p w =
     andthen (acquire (PipeLock p)) (
     andthen (if w then
         andthen (upd (upd_pipe p (\<lambda>x. x\<lparr>writeopen := False\<rparr>))) (wakeup (ChanRead p))
       else
         andthen (upd (upd_pipe p (\<lambda>x. x\<lparr>readopen := False\<rparr>))) (wakeup (ChanWrite p))) (
     bnd (look (\<lambda>k. pipes k p)) (\<lambda>x.
     if \<not> readopen x \<and> \<not> writeopen x then
       andthen (release (PipeLock p)) (kfree p)
     else release (PipeLock p))))"

definition fileclose :: "nat \<Rightarrow> ('a filestate_scheme, unit) bkm" where
  "fileclose f =
     bthen (lift (acquire FtableLock)) (
     bbnd (lift (look (\<lambda>k. f_ref (ftab k f)))) (\<lambda>r.
     if r < 1 then lift (fail (Panic ''fileclose''))
     else
       bthen (lift (upd (upd_file f (\<lambda>x. x\<lparr>f_ref := f_ref x - 1\<rparr>)))) (
       if r - 1 > 0 then lift (release FtableLock)
       else
         bbnd (lift (look (\<lambda>k. ftab k f))) (\<lambda>ff.
         bthen (lift (upd (upd_file f (\<lambda>x. x\<lparr>f_ref := 0, f_type := FD_NONE\<rparr>)))) (
         bthen (lift (release FtableLock)) (
         case f_type ff of
           FD_PIPE \<Rightarrow> lift (pipeclose (f_pipe ff) (f_writable ff))
         | FD_INODE \<Rightarrow>
             bthen begin_op (
             bthen (case f_ip ff of None \<Rightarrow> lift (fail (Fault ''iput'')) | Some ip \<Rightarrow> iput ip)
               end_op)
         | FD_NONE \<Rightarrow> bret ()))))))"

definition opt_close :: "nat option \<Rightarrow> ('a filestate_scheme, unit) bkm" where
  "opt_close f = (case f of None \<Rightarrow> bret () | Some i \<Rightarrow> fileclose i)"

text \<open>The two files, or \<open>None\<close> for -1.\<close>

definition pipealloc :: "('a filestate_scheme, (nat \<times> nat) option) bkm" where
  "pipealloc =
     bbnd (lift filealloc) (\<lambda>f0.
     bbnd (if f0 = None then bret None else lift filealloc) (\<lambda>f1.
     case (f0, f1) of
       (Some r, Some w) \<Rightarrow>
         bbnd (lift kalloc) (\<lambda>p.
         if p = 0 then bthen (opt_close f0) (bthen (opt_close f1) (bret None))
         else
           lift (andthen (upd (upd_pipe p (\<lambda>x. x\<lparr>readopen := True, writeopen := True, nwrite := 0, nread := 0\<rparr>))) (
           andthen (initlock (PipeLock p)) (
           andthen (upd (upd_file r (\<lambda>x. x\<lparr>f_type := FD_PIPE, f_readable := True, f_writable := False, f_pipe := p\<rparr>))) (
           andthen (upd (upd_file w (\<lambda>x. x\<lparr>f_type := FD_PIPE, f_readable := False, f_writable := True, f_pipe := p\<rparr>))) (
           ret (Some (r, w))))))))
     | _ \<Rightarrow> bthen (opt_close f0) (bthen (opt_close f1) (bret None))))"

text \<open>\<open>while(p->nwrite == p->nread + PIPESIZE)\<close>: false if nobody can read or the process was killed.\<close>

definition pipewrite_wait :: "uint \<Rightarrow> unit \<Rightarrow> ('a filestate_scheme, bool + unit) bkm" where
  "pipewrite_wait p _ =
     bbnd (lift (look (\<lambda>k. pipes k p))) (\<lambda>x.
     if nwrite x = nread x + of_nat PIPESIZE then
       bbnd (if \<not> readopen x then bret True else lift (my p_killed)) (\<lambda>stop.
       if stop then bret (Inl False)
       else
         bthen (lift (wakeup (ChanRead p))) (
         bthen (sleep (ChanWrite p) (PipeLock p))
           (bret (Inr ()))))
     else bret (Inl True))"

definition put_pipe :: "uchar \<Rightarrow> pipe \<Rightarrow> pipe" where
  "put_pipe c x = x\<lparr>pdata := (pdata x)(unat (nwrite x) mod PIPESIZE := c), nwrite := nwrite x + 1\<rparr>"

definition get_pipe :: "pipe \<Rightarrow> uchar" where
  "get_pipe x = pdata x (unat (nread x) mod PIPESIZE)"

primrec pipewrite_loop :: "nat \<Rightarrow> nat \<Rightarrow> uint \<Rightarrow> src \<Rightarrow> ('a filestate_scheme, bool) bkm" where
  "pipewrite_loop 0 i p addr = bret True"
| "pipewrite_loop (Suc n) i p addr =
     bbnd (bwhile (pipewrite_wait p) ()) (\<lambda>ok.
     if \<not> ok then bret False
     else
       bbnd (lift (fetch addr (of_nat i) 1)) (\<lambda>cs.
       bthen (lift (for_each (\<lambda>c. upd (upd_pipe p (put_pipe c))) cs))
         (pipewrite_loop n (Suc i) p addr)))"

definition pipewrite :: "uint \<Rightarrow> src \<Rightarrow> int \<Rightarrow> ('a filestate_scheme, int) bkm" where
  "pipewrite p addr n =
     bthen (lift (acquire (PipeLock p))) (
     bbnd (pipewrite_loop (nat n) 0 p addr) (\<lambda>ok.
     if \<not> ok then bthen (lift (release (PipeLock p))) (bret (-1))
     else
       bthen (lift (wakeup (ChanRead p))) (
       bthen (lift (release (PipeLock p))) (
       bret n))))"

definition piperead_wait :: "uint \<Rightarrow> unit \<Rightarrow> ('a filestate_scheme, bool + unit) bkm" where
  "piperead_wait p _ =
     bbnd (lift (look (\<lambda>k. pipes k p))) (\<lambda>x.
     if nread x = nwrite x \<and> writeopen x then
       bbnd (lift (my p_killed)) (\<lambda>kd.
       if kd then bret (Inl False)
       else bthen (sleep (ChanRead p) (PipeLock p)) (bret (Inr ())))
     else bret (Inl True))"

primrec piperead_loop :: "nat \<Rightarrow> nat \<Rightarrow> uint \<Rightarrow> uint option \<Rightarrow> ('a filestate_scheme, uchar list) km" where
  "piperead_loop 0 i p addr = ret []"
| "piperead_loop (Suc n) i p addr =
     bnd (look (\<lambda>k. pipes k p)) (\<lambda>x.
     if nread x = nwrite x then ret []
     else
       andthen (upd (upd_pipe p (\<lambda>x. x\<lparr>nread := nread x + 1\<rparr>))) (
       andthen (store addr (of_nat i) [get_pipe x]) (
       bnd (piperead_loop n (Suc i) p addr) (\<lambda>cs.
       ret (get_pipe x # cs)))))"

definition piperead :: "uint \<Rightarrow> uint option \<Rightarrow> int \<Rightarrow> ('a filestate_scheme, int \<times> uchar list) bkm" where
  "piperead p addr n =
     bthen (lift (acquire (PipeLock p))) (
     bbnd (bwhile (piperead_wait p) ()) (\<lambda>ok.
     if \<not> ok then bthen (lift (release (PipeLock p))) (bret (-1, []))
     else
       lift (bnd (piperead_loop (nat n) 0 p addr) (\<lambda>cs.
       andthen (wakeup (ChanWrite p)) (
       andthen (release (PipeLock p)) (
       ret (int (length cs), cs)))))))"

section \<open>Reading and writing files\<close>

definition put16 :: "uint \<Rightarrow> short \<Rightarrow> ('a vm_state_scheme, unit) km" where
  "put16 a v = andthen (put8 a (ucast v)) (put8 (a + 1) (ucast (drop_bit 8 v)))"

text \<open>\<open>stati\<close> fills the structure field by field.\<close>

definition put_stat :: "uint \<Rightarrow> stat \<Rightarrow> ('a vm_state_scheme, unit) km" where
  "put_stat st x =
     andthen (put32 (st + 4) (st_dev x)) (
     andthen (put32 (st + 8) (st_ino x)) (
     andthen (put16 st (st_type x)) (
     andthen (put16 (st + 12) (st_nlink x))
       (put32 (st + 16) (st_size x)))))"

definition filestat :: "nat \<Rightarrow> uint \<Rightarrow> ('a filestate_scheme, int) bkm" where
  "filestat f st =
     bbnd (lift (look (\<lambda>k. ftab k f))) (\<lambda>ff.
     if f_type ff = FD_INODE then
       bthen (ilock (f_ip ff)) (
       bthen (lift (bnd (stati (the (f_ip ff))) (put_stat st))) (
       bthen (lift (iunlock (f_ip ff))) (
       bret 0)))
     else bret (-1))"

definition fileread :: "nat \<Rightarrow> uint option \<Rightarrow> int \<Rightarrow> ('a filestate_scheme, int \<times> uchar list) bkm" where
  "fileread f addr n =
     bbnd (lift (look (\<lambda>k. ftab k f))) (\<lambda>ff.
     if \<not> f_readable ff then bret (-1, [])
     else case f_type ff of
       FD_PIPE \<Rightarrow> piperead (f_pipe ff) addr n
     | FD_INODE \<Rightarrow>
         bthen (ilock (f_ip ff)) (
         bbnd (lift (look (\<lambda>k. f_off (ftab k f)))) (\<lambda>off.
         bbnd (readi (the (f_ip ff)) addr off (of_int n)) (\<lambda>(r, bs).
         bthen (if r > 0 then lift (upd (upd_file f (\<lambda>x. x\<lparr>f_off := f_off x + of_int r\<rparr>))) else bret ()) (
         bthen (lift (iunlock (f_ip ff))) (
         bret (r, bs))))))
     | FD_NONE \<Rightarrow> lift (fail (Panic ''fileread'')))"

definition src_add :: "src \<Rightarrow> uint \<Rightarrow> src" where
  "src_add s i = (case s of Mem a \<Rightarrow> Mem (a + i) | Local bs \<Rightarrow> Local (drop (unat i) bs))"

definition max_write :: int where "max_write = ((MAXOPBLOCKS - 1 - 1 - 2) div 2) * 512"

function filewrite_loop :: "nat \<Rightarrow> src \<Rightarrow> int \<Rightarrow> int \<Rightarrow> ('a filestate_scheme, int) bkm" where
  "filewrite_loop f addr n i =
     (if i < n then
        let n1 = min (n - i) max_write in
        bthen begin_op (
        bbnd (lift (look (\<lambda>k. f_ip (ftab k f)))) (\<lambda>ip.
        bthen (ilock ip) (
        bbnd (lift (look (\<lambda>k. f_off (ftab k f)))) (\<lambda>off.
        bbnd (writei (the ip) (src_add addr (of_int i)) off (of_int n1)) (\<lambda>r.
        bthen (if r > 0 then lift (upd (upd_file f (\<lambda>x. x\<lparr>f_off := f_off x + of_int r\<rparr>))) else bret ()) (
        bthen (lift (iunlock ip)) (
        bthen end_op (
        if r < 0 then bret i
        else if r \<noteq> n1 then lift (fail (Panic ''short filewrite''))
        else filewrite_loop f addr n (i + n1)))))))))
      else bret i)"
  by auto
termination
  by (relation "measure (\<lambda>(f, addr, n, i). nat (n - i))") (auto simp: max_write_def MAXOPBLOCKS_def)

declare filewrite_loop.simps [simp del]

definition filewrite :: "nat \<Rightarrow> src \<Rightarrow> int \<Rightarrow> ('a filestate_scheme, int) bkm" where
  "filewrite f addr n =
     bbnd (lift (look (\<lambda>k. ftab k f))) (\<lambda>ff.
     if \<not> f_writable ff then bret (-1)
     else case f_type ff of
       FD_PIPE \<Rightarrow> pipewrite (f_pipe ff) addr n
     | FD_INODE \<Rightarrow> bbnd (filewrite_loop f addr n 0) (\<lambda>i. bret (if i = n then n else -1))
     | FD_NONE \<Rightarrow> lift (fail (Panic ''filewrite'')))"

section \<open>A pipe is a queue\<close>

definition pipe_list :: "pipe \<Rightarrow> uchar list" where
  "pipe_list x = ring PIPESIZE (pdata x) (unat (nread x)) (unat (nwrite x - nread x))"

definition pipe_inv :: "pipe \<Rightarrow> bool" where
  "pipe_inv x \<longleftrightarrow> unat (nwrite x - nread x) \<le> PIPESIZE"

lemma length_pipe_list: "length (pipe_list x) = unat (nwrite x - nread x)"
  by (simp add: pipe_list_def)

text \<open>\<open>PIPESIZE\<close> divides \<open>2 ^ 32\<close>, so the index of a slot survives the wrap-around of a counter.\<close>

lemma counter_mod: "unat (a + of_nat n :: uint) mod PIPESIZE = (unat a + n) mod PIPESIZE"
proof -
  have "unat (a + of_nat n :: uint) = (unat a + n) mod 2 ^ 32"
    by (simp add: unat_word_ariths unsigned_of_nat take_bit_eq_mod mod_add_right_eq)
  moreover have "PIPESIZE dvd 2 ^ 32" by (simp add: PIPESIZE_def)
  ultimately show ?thesis by (simp only: mod_mod_cancel)
qed

lemma pipe_full_iff: "nwrite x = nread x + of_nat PIPESIZE \<longleftrightarrow> length (pipe_list x) = PIPESIZE"
proof
  assume "length (pipe_list x) = PIPESIZE"
  then have "of_nat PIPESIZE = nwrite x - nread x" by (metis length_pipe_list of_nat_unat ucast_id)
  then show "nwrite x = nread x + of_nat PIPESIZE" by simp
qed (simp add: PIPESIZE_def length_pipe_list)

lemma pipe_empty_iff: "nread x = nwrite x \<longleftrightarrow> pipe_list x = []"
proof -
  have "pipe_list x = [] \<longleftrightarrow> nwrite x - nread x = 0" unfolding length_0_conv [symmetric] length_pipe_list unat_eq_zero ..
  then show ?thesis by auto
qed

lemma put_pipe_list:
  assumes "length (pipe_list x) < PIPESIZE"
  shows "pipe_list (put_pipe c x) = pipe_list x @ [c]" "pipe_inv (put_pipe c x)"
proof -
  let ?s = "unat (nwrite x - nread x)"
  have w: "nwrite x = nread x + of_nat ?s" by simp
  have "unat (nwrite x) mod PIPESIZE = (unat (nread x) + ?s) mod PIPESIZE" using counter_mod [of "nread x" ?s] by simp
  moreover have "unat (nwrite x + 1 - nread x) = Suc ?s"
    using assms unat32_add [of "nwrite x - nread x" 1] by (simp add: PIPESIZE_def length_pipe_list algebra_simps)
  ultimately show "pipe_list (put_pipe c x) = pipe_list x @ [c]" "pipe_inv (put_pipe c x)"
    using ring_snoc [of ?s PIPESIZE "pdata x" "unat (nread x)" c] assms by (simp_all add: pipe_list_def put_pipe_def pipe_inv_def)
qed

lemma ring_mod: "ring n f (h mod n) s = ring n f h s"
  by (simp add: ring_def mod_add_left_eq)

lemma get_pipe_list:
  assumes "nread x \<noteq> nwrite x"
  shows "pipe_list x = get_pipe x # pipe_list (x\<lparr>nread := nread x + 1\<rparr>)"
    "pipe_inv x \<Longrightarrow> pipe_inv (x\<lparr>nread := nread x + 1\<rparr>)"
proof -
  let ?s = "unat (nwrite x - (nread x + 1))"
  have s: "unat (nwrite x - nread x) = Suc ?s" using unat_sub_Suc [of "nwrite x" "nread x"] assms by simp
  have "(unat (nread x) + 1) mod PIPESIZE = unat (nread x + 1) mod PIPESIZE" using counter_mod [of "nread x" 1] by simp
  then show "pipe_list x = get_pipe x # pipe_list (x\<lparr>nread := nread x + 1\<rparr>)"
    using ring_Cons [of PIPESIZE "pdata x" "unat (nread x)" ?s] ring_mod [of PIPESIZE "pdata x" "unat (nread x + 1)" ?s] s
    by (simp add: pipe_list_def get_pipe_def PIPESIZE_def)
  show "pipe_inv x \<Longrightarrow> pipe_inv (x\<lparr>nread := nread x + 1\<rparr>)" using s by (simp add: pipe_inv_def)
qed

text \<open>The turns of the two loops that move a byte, as operations of a bounded queue.\<close>

definition pipe_enq :: "pipe \<Rightarrow> uchar \<Rightarrow> int \<times> pipe" where
  "pipe_enq x c = (if nwrite x = nread x + of_nat PIPESIZE then (-1, x) else (0, put_pipe c x))"

definition pipe_deq :: "pipe \<Rightarrow> uchar \<times> pipe" where
  "pipe_deq x = (get_pipe x, if nread x = nwrite x then x else x\<lparr>nread := nread x + 1\<rparr>)"

interpretation pq: bounded_fifo pipe_enq pipe_deq pipe_list pipe_inv PIPESIZE
proof
  show "pipe_inv x \<Longrightarrow> length (pipe_list x) \<le> PIPESIZE" for x by (simp add: pipe_inv_def length_pipe_list)
  show "pipe_inv x \<Longrightarrow> length (pipe_list x) < PIPESIZE \<Longrightarrow>
      fst (pipe_enq x c) = 0 \<and> pipe_inv (snd (pipe_enq x c)) \<and> pipe_list (snd (pipe_enq x c)) = pipe_list x @ [c]" for x c
    using put_pipe_list [of x c] by (simp add: pipe_enq_def pipe_full_iff)
  show "pipe_inv x \<Longrightarrow> length (pipe_list x) = PIPESIZE \<Longrightarrow> pipe_enq x c = (-1, x)" for x c
    by (simp add: pipe_enq_def pipe_full_iff)
  show "pipe_inv x \<Longrightarrow> pipe_list x = c # cs \<Longrightarrow>
      fst (pipe_deq x) = c \<and> pipe_inv (snd (pipe_deq x)) \<and> pipe_list (snd (pipe_deq x)) = cs" for x c cs
    using get_pipe_list [of x] pipe_empty_iff [of x] by (simp add: pipe_deq_def)
  show "pipe_inv x \<Longrightarrow> pipe_list x = [] \<Longrightarrow> snd (pipe_deq x) = x" for x
    by (simp add: pipe_deq_def pipe_empty_iff)
qed

text \<open>\<open>can_fetch k s cs\<close>: the bytes of the source are \<open>cs\<close>, all of them mapped.\<close>

definition can_fetch :: "'a vm_state_scheme \<Rightarrow> src \<Rightarrow> uchar list \<Rightarrow> bool" where
  "can_fetch k s cs \<longleftrightarrow> length cs < 2 ^ 31 \<and> (case s of
     Mem a \<Rightarrow> \<forall>i < length cs. vread k (a + of_nat i) = Some (cs ! i)
   | Local bs \<Rightarrow> take (length cs) bs = cs)"

lemma fetch_ok:
  assumes "can_fetch k s cs" "i < length cs"
  shows "fetch s (of_nat i) 1 m k = Inr ([cs ! i], m, k)"
proof (cases s)
  case (Mem a)
  then show ?thesis using assms by (simp add: can_fetch_def fetch_def km_simps get8_def page_fault_def)
next
  case (Local bs)
  then have cs: "take (length cs) bs = cs" "length cs < 2 ^ 31" using assms(1) by (simp_all add: can_fetch_def)
  then have "i < length bs" "bs ! i = cs ! i" using assms(2) by (metis length_take min_less_iff_conj, metis nth_take assms(2))
  then have "take 1 (drop i bs) = [cs ! i]" by (simp add: take_Suc_conv_app_nth)
  moreover have "unat (of_nat i :: uint) = i" using cs(2) assms(2) by (intro unat32_of_nat) simp
  ultimately show ?thesis using Local by (simp add: fetch_def km_simps)
qed

lemma upd_pipe_sel [simp]:
  "pipes (upd_pipe q f k) = (pipes k)(q := f (pipes k q))" "ram (upd_pipe q f k) = ram k" "cr3 (upd_pipe q f k) = cr3 k"
  "ptab (upd_pipe q f k) = ptab k"
  by (simp_all add: upd_pipe_def)

lemma pipes_wakeup1 [simp]: "pipes (wakeup1 ch k) = pipes k"
  by (simp add: wakeup1_def)

lemma can_fetch_upd_pipe [simp]: "can_fetch (upd_pipe q f k) = can_fetch k"
  by (intro ext) (simp add: can_fetch_def vread_def kaddr_def cong: src.case_cong)

lemma pipewrite_turns:
  assumes "pipe_inv (pipes k q)" "length (pipe_list (pipes k q)) + (length cs - i) \<le> PIPESIZE" "can_fetch k s cs" "i \<le> length cs"
  shows "\<exists>k'. pipewrite_loop (length cs - i) i q s es m k = Inr (Some (True, es), m, k') \<and>
    k' = upd_pipe q (\<lambda>x. pq.enq_all x (drop i cs)) k"
  using assms
proof (induction "length cs - i" arbitrary: i k)
  case 0
  then show ?case by (simp add: km_simps upd_pipe_def)
next
  case (Suc n)
  let ?k = "upd_pipe q (put_pipe (cs ! i)) k"
  have i: "i < length cs" "n = length cs - Suc i" using Suc.hyps(2) by simp_all
  have nf: "nwrite (pipes k q) \<noteq> nread (pipes k q) + of_nat PIPESIZE"
    using Suc.prems(2) Suc.hyps(2) pipe_full_iff [of "pipes k q"] by auto
  have put: "pipe_list (pipes ?k q) = pipe_list (pipes k q) @ [cs ! i]" "pipe_inv (pipes ?k q)"
    using put_pipe_list [of "pipes k q" "cs ! i"] Suc.prems(2) Suc.hyps(2) by simp_all
  have IH: "pipewrite_loop n (Suc i) q s es m ?k = Inr (Some (True, es), m, upd_pipe q (\<lambda>x. pq.enq_all x (drop (Suc i) cs)) ?k)"
    using Suc.hyps(1) [OF i(2), of ?k] put Suc.prems(2,3) i Suc.hyps(2) by simp
  have "pq.enq_all (pipes k q) (drop i cs) = pq.enq_all (put_pipe (cs ! i) (pipes k q)) (drop (Suc i) cs)"
    using i(1) nf by (simp add: Cons_nth_drop_Suc [symmetric] pipe_enq_def)
  then have "upd_pipe q (\<lambda>x. pq.enq_all x (drop (Suc i) cs)) ?k = upd_pipe q (\<lambda>x. pq.enq_all x (drop i cs)) k"
    by (simp add: upd_pipe_def)
  moreover have "fetch s (of_nat i) 1 m k = Inr ([cs ! i], m, k)" by (rule fetch_ok [OF Suc.prems(3) i(1)])
  ultimately show ?case
    using IH nf unfolding Suc.hyps(2) [symmetric] by (simp add: bwhile_def pipewrite_wait_def km_simps)
qed

lemma pipewrite_room:
  assumes "runs p m" "pipe_inv (pipes k q)" "length (pipe_list (pipes k q)) + length cs \<le> PIPESIZE" "can_fetch k s cs"
  shows "\<exists>k'. pipewrite q s (int (length cs)) es m k = Inr (Some (int (length cs), es), m, k') \<and>
    pipe_list (pipes k' q) = pipe_list (pipes k q) @ cs \<and> pipe_inv (pipes k' q) \<and> ptab k' = ptab (wakeup1 (ChanRead q) k)"
proof -
  let ?k = "upd_pipe q (\<lambda>x. pq.enq_all x cs) k"
  have "pipewrite_loop (length cs) 0 q s es (hold (PipeLock q) m) k = Inr (Some (True, es), hold (PipeLock q) m, ?k)"
    using pipewrite_turns [OF assms(2) _ assms(4), of 0 es] assms(3) by simp
  then have "pipewrite q s (int (length cs)) es m k = Inr (Some (int (length cs), es), m, wakeup1 (ChanRead q) ?k)"
    using runsD(1) [OF assms(1)] by (simp add: pipewrite_def km_simps wakeup_step)
  moreover have "pipe_list (pq.enq_all (pipes k q) cs) = pipe_list (pipes k q) @ cs \<and> pipe_inv (pq.enq_all (pipes k q) cs)"
    using pq.contents_enq_all [OF assms(2,3)] by blast
  moreover have "ptab (wakeup1 (ChanRead q) ?k) = ptab (wakeup1 (ChanRead q) k)" by (rule ext) (simp add: ptab_wakeup1)
  ultimately show ?thesis by (intro exI [of _ "wakeup1 (ChanRead q) ?k"]) simp
qed

lemma piperead_turns:
  assumes "pipe_inv (pipes k q)"
  shows "\<exists>k'. piperead_loop n i q None m k = Inr (take n (pipe_list (pipes k q)), m, k') \<and>
    pipe_list (pipes k' q) = drop n (pipe_list (pipes k q)) \<and> pipe_inv (pipes k' q) \<and> ptab k' = ptab k"
  using assms
proof (induction n arbitrary: i k)
  case 0
  then show ?case by (simp add: km_simps)
next
  case (Suc n)
  show ?case
  proof (cases "nread (pipes k q) = nwrite (pipes k q)")
    case True
    then show ?thesis using Suc.prems pipe_empty_iff [of "pipes k q"] by (intro exI [of _ k]) (simp add: km_simps)
  next
    case False
    let ?k = "upd_pipe q (\<lambda>x. x\<lparr>nread := nread x + 1\<rparr>) k"
    note get = get_pipe_list [OF False]
    from Suc.IH [of ?k "Suc i"] get(2) [OF Suc.prems] obtain k' where
      "piperead_loop n (Suc i) q None m ?k = Inr (take n (pipe_list (pipes ?k q)), m, k')"
      "pipe_list (pipes k' q) = drop n (pipe_list (pipes ?k q))" "pipe_inv (pipes k' q)" "ptab k' = ptab ?k" by auto
    then show ?thesis using False get(1) by (intro exI [of _ k']) (simp add: km_simps store_def)
  qed
qed

lemma piperead_some:
  assumes "runs p m" "pipe_inv (pipes k q)" "pipe_list (pipes k q) \<noteq> [] \<or> \<not> writeopen (pipes k q)"
  shows "\<exists>k'. piperead q None n es m k = Inr (Some ((int (length (take (nat n) (pipe_list (pipes k q)))),
      take (nat n) (pipe_list (pipes k q))), es), m, k') \<and>
    pipe_list (pipes k' q) = drop (nat n) (pipe_list (pipes k q)) \<and> pipe_inv (pipes k' q)"
proof -
  obtain k' where k': "piperead_loop (nat n) 0 q None (hold (PipeLock q) m) k =
      Inr (take (nat n) (pipe_list (pipes k q)), hold (PipeLock q) m, k')"
    "pipe_list (pipes k' q) = drop (nat n) (pipe_list (pipes k q))" "pipe_inv (pipes k' q)"
    using piperead_turns [OF assms(2), of "nat n" 0 "hold (PipeLock q) m"] by blast
  have "\<not> (nread (pipes k q) = nwrite (pipes k q) \<and> writeopen (pipes k q))"
    using assms(3) pipe_empty_iff [of "pipes k q"] by auto
  then have "bwhile (piperead_wait q) () es (hold (PipeLock q) m) k = Inr (Some (True, es), hold (PipeLock q) m, k)"
    by (auto simp: bwhile_def piperead_wait_def km_simps)
  then have "piperead q None n es m k = Inr (Some ((int (length (take (nat n) (pipe_list (pipes k q)))),
      take (nat n) (pipe_list (pipes k q))), es), m, wakeup1 (ChanWrite q) k')"
    using k'(1) runsD(1) [OF assms(1)] by (simp add: piperead_def km_simps wakeup_step)
  then show ?thesis using k'(2,3) by (intro exI [of _ "wakeup1 (ChanWrite q) k'"]) simp
qed

text \<open>A pipe whose counters are about to wrap around.\<close>

definition small_files :: filestate where
  "small_files = fsstate.extend small_fs (filestate.fields
     (\<lambda>_. \<lparr>f_type = FD_NONE, f_ref = 0, f_readable = False, f_writable = False, f_pipe = 0, f_ip = None, f_off = 0\<rparr>)
     (\<lambda>_. \<lparr>pdata = (\<lambda>_. 0), nread = 0xFFFFFFFF, nwrite = 0xFFFFFFFF, readopen = True, writeopen = True\<rparr>))"

lemma small_files_pipe [simp]:
  "pipes small_files q = \<lparr>pdata = (\<lambda>_. 0), nread = 0xFFFFFFFF, nwrite = 0xFFFFFFFF, readopen = True, writeopen = True\<rparr>"
  by (simp add: small_files_def fsstate.defs filestate.defs)

section \<open>Properties\<close>



end
