(* ===== verification/Lifecycle.thy ===== *)
theory Lifecycle
  imports File
begin

text \<open>
  The life of a process (\<^verbatim>\<open>proc.c\<close>): the first process, \<open>fork\<close>, \<open>exit\<close>, \<open>wait\<close> and the first instructions of
  a new process, with the system calls of \<^verbatim>\<open>sysproc.c\<close> that only call them.  The lemmas show what the
  child of \<open>fork\<close> shares with its parent, and that the reference counts of the file table stay equal to
  the number of descriptors in the process table.
\<close>

text \<open>
  \<open>fork_first\<close> is the static variable of \<open>forkret\<close>; \<open>initcode\<close> is the program the build links into the
  kernel for the first process: its address and size.
\<close>

record kernel = filestate +
  fork_first :: bool
  initcode :: "uint \<times> uint"

section \<open>The first process\<close>

definition user_tf :: "trapframe \<Rightarrow> trapframe" where
  "user_tf t = \<lparr>tf_edi = 0, tf_esi = 0, tf_ebp = 0, tf_ebx = 0, tf_edx = 0, tf_ecx = 0, tf_eax = 0,
     tf_es = 0x23, tf_ds = 0x23, tf_trapno = 0, tf_err = 0, tf_eip = 0, tf_cs = 0x1b, tf_eflags = 0x200,
     tf_esp = PGSIZE, tf_ss = 0x23\<rparr>"

definition userinit :: "('a kernel_scheme, unit) bkm" where
  "userinit =
     bbnd (lift allocproc) (\<lambda>r.
     bthen (lift (upd (\<lambda>k. k\<lparr>initproc := r\<rparr>))) (
     bbnd (lift setupkvm) (\<lambda>d.
     case r of
       None \<Rightarrow> lift (fail (Fault ''userinit''))
     | Some i \<Rightarrow>
         bthen (lift (upd (upd_proc i (\<lambda>p. p\<lparr>p_pgdir := d\<rparr>)))) (
         if d = 0 then lift (fail (Panic ''userinit: out of memory?''))
         else
           bbnd (lift (look initcode)) (\<lambda>(start, size).
           bthen (lift (inituvm d start size)) (
           bthen (lift (upd (upd_proc i (\<lambda>p. p\<lparr>p_sz := PGSIZE, p_tf := user_tf (p_tf p), p_name := ''initcode''\<rparr>)))) (
           bbnd (namei [slash]) (\<lambda>c.
           bthen (lift (upd (upd_proc i (\<lambda>p. p\<lparr>p_cwd := c\<rparr>)))) (
           lift (andthen (acquire PtableLock) (
           andthen (upd (upd_proc i (\<lambda>p. p\<lparr>p_state := RUNNABLE\<rparr>))) (
           release PtableLock))))))))))))"

section \<open>fork\<close>

definition dup_fd :: "nat \<Rightarrow> nat \<Rightarrow> nat \<Rightarrow> ('a filestate_scheme, unit) km" where
  "dup_fd cp np i =
     bnd (look (\<lambda>k. p_ofile (ptab k cp) i)) (\<lambda>f. case f of
       None \<Rightarrow> ret ()
     | Some f \<Rightarrow>
         bnd (filedup f) (\<lambda>f'.
         upd (upd_proc np (\<lambda>p. p\<lparr>p_ofile := (p_ofile p)(i := Some f')\<rparr>))))"

text \<open>From the successful copy of the address space on.\<close>

definition fork_copy :: "nat \<Rightarrow> nat \<Rightarrow> ('a filestate_scheme, int) km" where
  "fork_copy cp np =
     andthen (upd (\<lambda>k. upd_proc np (\<lambda>p. p\<lparr>p_sz := p_sz (ptab k cp), p_parent := Some cp,
       p_tf := (p_tf (ptab k cp))\<lparr>tf_eax := 0\<rparr>\<rparr>) k)) (
     andthen (for_each (dup_fd cp np) [0..<NOFILE]) (
     bnd (look (\<lambda>k. p_cwd (ptab k cp))) (\<lambda>c.
     bnd (case c of None \<Rightarrow> fail (Fault ''idup'') | Some i \<Rightarrow> idup i) (\<lambda>i.
     andthen (upd (upd_proc np (\<lambda>p. p\<lparr>p_cwd := Some i\<rparr>))) (
     andthen (upd (\<lambda>k. upd_proc np (\<lambda>p. p\<lparr>p_name := take 15 (p_name (ptab k cp))\<rparr>) k)) (
     bnd (look (\<lambda>k. p_pid (ptab k np))) (\<lambda>pid.
     andthen (acquire PtableLock) (
     andthen (upd (upd_proc np (\<lambda>p. p\<lparr>p_state := RUNNABLE\<rparr>))) (
     andthen (release PtableLock) (
     ret pid))))))))))"

definition fork :: "('a filestate_scheme, int) km" where
  "fork =
     bnd curproc_id (\<lambda>cp.
     bnd allocproc (\<lambda>r. case r of
       None \<Rightarrow> ret (-1)
     | Some np \<Rightarrow>
         bnd (look (\<lambda>k. ptab k cp)) (\<lambda>p.
         bnd (copyuvm (p_pgdir p) (p_sz p)) (\<lambda>d.
         andthen (upd (upd_proc np (\<lambda>p. p\<lparr>p_pgdir := d\<rparr>))) (
         if d = 0 then
           bnd (look (\<lambda>k. p_kstack (ptab k np))) (\<lambda>s.
           andthen (kfree s) (
           andthen (upd (upd_proc np (\<lambda>p. p\<lparr>p_kstack := 0, p_state := UNUSED\<rparr>))) (
           ret (-1))))
         else fork_copy cp np)))))"

section \<open>exit\<close>

definition close_fd :: "nat \<Rightarrow> nat \<Rightarrow> ('a filestate_scheme, unit) bkm" where
  "close_fd cp fd =
     bbnd (lift (look (\<lambda>k. p_ofile (ptab k cp) fd))) (\<lambda>f. case f of
       None \<Rightarrow> bret ()
     | Some f \<Rightarrow>
         bthen (fileclose f)
           (lift (upd (upd_proc cp (\<lambda>p. p\<lparr>p_ofile := (p_ofile p)(fd := None)\<rparr>)))))"

text \<open>A pointer to a process as a channel; the null pointer is the number 0.\<close>

definition chan_of :: "nat option \<Rightarrow> chan" where
  "chan_of r = (case r of None \<Rightarrow> ChanInt 0 | Some i \<Rightarrow> ChanProc i)"

definition pass_child :: "nat \<Rightarrow> nat \<Rightarrow> 'a procs_scheme \<Rightarrow> 'a procs_scheme" where
  "pass_child cp i k =
     (if p_parent (ptab k i) = Some cp then
        let k' = upd_proc i (\<lambda>p. p\<lparr>p_parent := initproc k\<rparr>) k in
        if p_state (ptab k' i) = ZOMBIE then wakeup1 (chan_of (initproc k)) k' else k'
      else k)"

definition exit_enter :: "nat \<Rightarrow> ('a procs_scheme, unit) km" where
  "exit_enter cp =
     andthen (acquire PtableLock) (
     andthen (upd (\<lambda>k. wakeup1 (chan_of (p_parent (ptab k cp))) k)) (
     andthen (for_each (\<lambda>i. upd (pass_child cp i)) [0..<NPROC])
       (upd (upd_proc cp (\<lambda>p. p\<lparr>p_state := ZOMBIE\<rparr>)))))"

definition exit :: "('a filestate_scheme, 'b) bkm" where
  "exit =
     bbnd (lift curproc_id) (\<lambda>cp.
     bbnd (lift (look initproc)) (\<lambda>ini.
     if ini = Some cp then lift (fail (Panic ''init exiting''))
     else
       bthen (bfor (close_fd cp) [0..<NOFILE]) (
       bthen begin_op (
       bbnd (lift (look (\<lambda>k. p_cwd (ptab k cp)))) (\<lambda>c.
       bthen (case c of None \<Rightarrow> lift (fail (Fault ''iput'')) | Some i \<Rightarrow> iput i) (
       bthen end_op (
       bthen (lift (upd (upd_proc cp (\<lambda>p. p\<lparr>p_cwd := None\<rparr>)))) (
       bthen (lift (exit_enter cp)) (
       bthen sched (
       lift (fail (Panic ''zombie exit''))))))))))))"

section \<open>wait\<close>

definition dead_child :: "nat \<Rightarrow> 'a procs_scheme \<Rightarrow> nat option" where
  "dead_child cp k = find (\<lambda>i. p_parent (ptab k i) = Some cp \<and> p_state (ptab k i) = ZOMBIE) [0..<NPROC]"

definition has_child :: "nat \<Rightarrow> 'a procs_scheme \<Rightarrow> bool" where
  "has_child cp k \<longleftrightarrow> (\<exists>i \<in> set [0..<NPROC]. p_parent (ptab k i) = Some cp)"

definition reap :: "nat \<Rightarrow> ('a procs_scheme, int) km" where
  "reap i =
     bnd (look (\<lambda>k. ptab k i)) (\<lambda>p.
     andthen (kfree (p_kstack p)) (
     andthen (upd (upd_proc i (\<lambda>p. p\<lparr>p_kstack := 0\<rparr>))) (
     andthen (freevm (p_pgdir p)) (
     andthen (upd (upd_proc i (\<lambda>p. p\<lparr>p_pid := 0, p_parent := None, p_name := [], p_killed := False, p_state := UNUSED\<rparr>))) (
     ret (p_pid p))))))"

definition wait_turn :: "nat \<Rightarrow> unit \<Rightarrow> ('a procs_scheme, int + unit) bkm" where
  "wait_turn cp _ =
     bbnd (lift (look (dead_child cp))) (\<lambda>r. case r of
       Some i \<Rightarrow>
         bbnd (lift (reap i)) (\<lambda>pid.
         bthen (lift (release PtableLock)) (
         bret (Inl pid)))
     | None \<Rightarrow>
         bbnd (lift (look (\<lambda>k. \<not> has_child cp k \<or> p_killed (ptab k cp)))) (\<lambda>stop.
         if stop then bthen (lift (release PtableLock)) (bret (Inl (-1)))
         else bthen (sleep (ChanProc cp) PtableLock) (bret (Inr ()))))"

definition wait :: "('a procs_scheme, int) bkm" where
  "wait =
     bbnd (lift curproc_id) (\<lambda>cp.
     bthen (lift (acquire PtableLock))
       (bwhile (wait_turn cp) ()))"

section \<open>The first instructions of a process\<close>

definition forkret :: "('a kernel_scheme, unit) bkm" where
  "forkret =
     bthen (lift (release PtableLock)) (
     bbnd (lift (look fork_first)) (\<lambda>first.
     if first then
       bthen (lift (upd (\<lambda>k. k\<lparr>fork_first := False\<rparr>))) (
       bthen (iinit ROOTDEV)
         (initlog ROOTDEV))
     else bret ()))"

section \<open>System calls\<close>

definition sys_fork :: "('a filestate_scheme, int) km" where
  "sys_fork = fork"

definition sys_exit :: "('a filestate_scheme, int) bkm" where
  "sys_exit = exit"

definition sys_wait :: "('a procs_scheme, int) bkm" where
  "sys_wait = wait"

section \<open>Descriptors and reference counts\<close>

definition fds_of :: "proc \<Rightarrow> nat \<Rightarrow> nat list \<Rightarrow> nat" where
  "fds_of q f is = length (filter (\<lambda>i. p_ofile q i = Some f) is)"

definition refs :: "'a procs_scheme \<Rightarrow> nat \<Rightarrow> nat" where
  "refs k f = (\<Sum>p < NPROC. fds_of (ptab k p) f [0..<NOFILE])"

text \<open>The count of every file is the number of descriptors that refer to it.\<close>

definition files_ok :: "'a filestate_scheme \<Rightarrow> bool" where
  "files_ok k \<longleftrightarrow> (\<forall>f. f_ref (ftab k f) = int (refs k f))"

lemma fds_of_pos: "i \<in> set is \<Longrightarrow> p_ofile q i = Some f \<Longrightarrow> 0 < fds_of q f is"
  by (auto simp: fds_of_def filter_empty_conv)

lemma refs_ge: "p < NPROC \<Longrightarrow> fds_of (ptab k p) f [0..<NOFILE] \<le> refs k f"
  unfolding refs_def by (rule member_le_sum) auto

definition dup_state :: "nat \<Rightarrow> nat \<Rightarrow> nat list \<Rightarrow> 'a filestate_scheme \<Rightarrow> 'a filestate_scheme" where
  "dup_state cp np is k = k\<lparr>
     ftab := (\<lambda>f. (ftab k f)\<lparr>f_ref := f_ref (ftab k f) + int (fds_of (ptab k cp) f is)\<rparr>),
     ptab := (ptab k)(np := (ptab k np)\<lparr>p_ofile := (\<lambda>i. if i \<in> set is \<and> p_ofile (ptab k cp) i \<noteq> None
       then p_ofile (ptab k cp) i else p_ofile (ptab k np) i)\<rparr>)\<rparr>"

lemma upd_file_sel [simp]:
  "ftab (upd_file f g k) = (ftab k)(f := g (ftab k f))" "ptab (upd_file f g k) = ptab k"
  by (simp_all add: upd_file_def)

lemma ftab_upd_proc [simp]: "ftab (upd_proc i g k) = ftab k"
  by (simp add: upd_proc_def)

lemma dup_fd_step:
  assumes "runs p m" "cp \<noteq> np" "\<And>f. p_ofile (ptab k cp) i = Some f \<Longrightarrow> 1 \<le> f_ref (ftab k f)"
  shows "dup_fd cp np i m k = Inr ((), m, dup_state cp np [i] k)"
proof (cases "p_ofile (ptab k cp) i")
  case None
  then have "(\<lambda>j. if j \<in> set [i] \<and> p_ofile (ptab k cp) j \<noteq> None then p_ofile (ptab k cp) j else p_ofile (ptab k np) j) = p_ofile (ptab k np)"
    by (intro ext) auto
  then have "dup_state cp np [i] k = k" using None by (simp add: dup_state_def fds_of_def del: not_None_eq)
  then show ?thesis using None by (simp add: dup_fd_def km_simps)
next
  case (Some f)
  let ?k = "upd_proc np (\<lambda>q. q\<lparr>p_ofile := (p_ofile q)(i := Some f)\<rparr>) (upd_file f (\<lambda>x. x\<lparr>f_ref := f_ref x + 1\<rparr>) k)"
  have "dup_fd cp np i m k = Inr ((), m, ?k)"
    using Some assms(3) [OF Some] runsD(1) [OF assms(1)] by (simp add: dup_fd_def filedup_def km_simps)
  moreover have "?k = dup_state cp np [i] k"
  proof -
    have "ftab ?k = ftab (dup_state cp np [i] k)" using Some by (auto simp: dup_state_def fds_of_def)
    moreover have "ptab ?k = ptab (dup_state cp np [i] k)" using Some by (auto simp: dup_state_def fun_eq_iff)
    ultimately show ?thesis by (simp add: dup_state_def upd_proc_def upd_file_def)
  qed
  ultimately show ?thesis by simp
qed

lemma dup_state_Cons:
  assumes "cp \<noteq> np"
  shows "dup_state cp np is (dup_state cp np [i] k) = dup_state cp np (i # is) k"
proof -
  have "ftab (dup_state cp np is (dup_state cp np [i] k)) = ftab (dup_state cp np (i # is) k)"
    using assms by (simp add: dup_state_def fds_of_def fun_eq_iff)
  moreover have "ptab (dup_state cp np is (dup_state cp np [i] k)) = ptab (dup_state cp np (i # is) k)"
    using assms by (auto simp: dup_state_def fun_eq_iff)
  ultimately show ?thesis by (simp add: dup_state_def)
qed

lemma dup_turns:
  assumes "runs p m" "cp \<noteq> np" "\<And>i f. i \<in> set is \<Longrightarrow> p_ofile (ptab k cp) i = Some f \<Longrightarrow> 1 \<le> f_ref (ftab k f)"
  shows "for_each (dup_fd cp np) is m k = Inr ((), m, dup_state cp np is k)"
  using assms(3)
proof (induction "is" arbitrary: k)
  case Nil
  then show ?case by (simp add: km_simps dup_state_def fds_of_def)
next
  case (Cons i "is")
  let ?k = "dup_state cp np [i] k"
  have "dup_fd cp np i m k = Inr ((), m, ?k)" using Cons.prems [of i] by (intro dup_fd_step [OF assms(1,2)]) simp
  moreover have "for_each (dup_fd cp np) is m ?k = Inr ((), m, dup_state cp np is ?k)"
  proof (rule Cons.IH)
    fix j f assume "j \<in> set is" "p_ofile (ptab ?k cp) j = Some f"
    then show "1 \<le> f_ref (ftab ?k f)" using Cons.prems [of j f] assms(2) by (simp add: dup_state_def)
  qed
  ultimately show ?case using dup_state_Cons [OF assms(2), of "is" i k] by (simp add: km_simps)
qed

lemma refs_dup:
  assumes "p < NPROC" "np < NPROC" "p \<noteq> np" "\<forall>i < NOFILE. p_ofile (ptab k np) i = None"
    and "\<And>q. q \<noteq> np \<Longrightarrow> p_ofile (ptab k' q) = p_ofile (ptab k q)" "\<And>i. i < NOFILE \<Longrightarrow> p_ofile (ptab k' np) i = p_ofile (ptab k p) i"
  shows "refs k' f = refs k f + fds_of (ptab k p) f [0..<NOFILE]"
proof -
  have np: "fds_of (ptab k' np) f [0..<NOFILE] = fds_of (ptab k p) f [0..<NOFILE]" "fds_of (ptab k np) f [0..<NOFILE] = 0"
    using assms(4,6) by (auto simp: fds_of_def intro!: arg_cong [of _ _ length] filter_cong)
  have "refs k' f = fds_of (ptab k' np) f [0..<NOFILE] + (\<Sum>q \<in> {..<NPROC} - {np}. fds_of (ptab k' q) f [0..<NOFILE])"
    unfolding refs_def using assms(2) by (intro sum.remove) auto
  also have "(\<Sum>q \<in> {..<NPROC} - {np}. fds_of (ptab k' q) f [0..<NOFILE]) = (\<Sum>q \<in> {..<NPROC} - {np}. fds_of (ptab k q) f [0..<NOFILE])"
    using assms(5) by (intro sum.cong) (simp_all add: fds_of_def)
  also have "fds_of (ptab k' np) f [0..<NOFILE] + \<dots> = fds_of (ptab k p) f [0..<NOFILE] + refs k f"
    unfolding refs_def using assms(2) np by (simp add: sum.remove [of "{..<NPROC}" np])
  finally show ?thesis by simp
qed

lemma icache_sel [simp]:
  "icache (upd_proc i g k) = icache k" "icache (dup_state cp np is k) = icache k" "ptab (upd_inode j h k) = ptab k"
  "ftab (upd_inode j h k) = ftab k" "icache (upd_inode j h k) = (icache k)(j := h (icache k j))"
  by (simp_all add: upd_proc_def dup_state_def upd_inode_def)

definition forked :: "proc \<Rightarrow> nat \<Rightarrow> nat \<Rightarrow> proc \<Rightarrow> proc" where
  "forked q p c ch = ch\<lparr>p_sz := p_sz q, p_parent := Some p, p_tf := (p_tf q)\<lparr>tf_eax := 0\<rparr>,
     p_ofile := (\<lambda>i. if i < NOFILE \<and> p_ofile q i \<noteq> None then p_ofile q i else p_ofile ch i), p_cwd := Some c,
     p_name := take 15 (p_name q), p_state := RUNNABLE\<rparr>"

lemma fork_copy_ok:
  assumes "runs p m" "p \<noteq> np" "p_cwd (ptab k p) = Some c"
    and open1: "\<And>i f. i < NOFILE \<Longrightarrow> p_ofile (ptab k p) i = Some f \<Longrightarrow> 1 \<le> f_ref (ftab k f)"
  shows "\<exists>k'. fork_copy p np m k = Inr (p_pid (ptab k np), m, k') \<and>
    ptab k' = (ptab k)(np := forked (ptab k p) p c (ptab k np)) \<and>
    (\<forall>f. f_ref (ftab k' f) = f_ref (ftab k f) + int (fds_of (ptab k p) f [0..<NOFILE])) \<and>
    icache k' = (icache k)(c := (icache k c)\<lparr>i_ref := i_ref (icache k c) + 1\<rparr>)"
proof -
  define k1 where "k1 = upd_proc np (\<lambda>q. q\<lparr>p_sz := p_sz (ptab k p), p_parent := Some p, p_tf := (p_tf (ptab k p))\<lparr>tf_eax := 0\<rparr>\<rparr>) k"
  define k2 where "k2 = dup_state p np [0..<NOFILE] k1"
  define k3 where "k3 = upd_inode c (\<lambda>x. x\<lparr>i_ref := i_ref x + 1\<rparr>) k2"
  define k4 where "k4 = upd_proc np (\<lambda>q. q\<lparr>p_cwd := Some c\<rparr>) k3"
  define k5 where "k5 = upd_proc np (\<lambda>q. q\<lparr>p_name := take 15 (p_name (ptab k4 p))\<rparr>) k4"
  define k6 where "k6 = upd_proc np (\<lambda>q. q\<lparr>p_state := RUNNABLE\<rparr>) k5"
  have k1: "ptab k1 p = ptab k p" "ftab k1 = ftab k" "icache k1 = icache k" using assms(2) by (simp_all add: k1_def)
  have dup: "for_each (dup_fd p np) [0..<NOFILE] m k1 = Inr ((), m, k2)"
    unfolding k2_def by (rule dup_turns [OF assms(1,2)]) (use k1 open1 in auto)
  have p: "ptab k2 p = ptab k p" "ptab k3 = ptab k2" "ptab k4 p = ptab k p"
    using assms(2) k1 by (simp_all add: k2_def k3_def k4_def) (simp_all add: dup_state_def)
  have np: "ptab k2 np = (ptab k1 np)\<lparr>p_ofile := (\<lambda>i. if i < NOFILE \<and> p_ofile (ptab k p) i \<noteq> None then p_ofile (ptab k p) i
      else p_ofile (ptab k np) i)\<rparr>"
    using k1(1) by (simp add: k2_def dup_state_def cong: if_cong) (simp add: k1_def cong: if_cong)
  have "ptab k6 i = ((ptab k)(np := forked (ptab k p) p c (ptab k np))) i" for i
  proof (cases "i = np")
    case True
    then show ?thesis using p np by (simp add: k6_def k5_def k4_def forked_def) (simp add: k1_def)
  next
    case False
    then show ?thesis using p(2) by (simp add: k6_def k5_def k4_def) (simp add: k2_def dup_state_def k1_def)
  qed
  moreover have "f_ref (ftab k6 f) = f_ref (ftab k f) + int (fds_of (ptab k p) f [0..<NOFILE])" for f
    using k1 by (simp add: k6_def k5_def k4_def k3_def) (simp add: k2_def dup_state_def)
  moreover have "icache k6 = (icache k)(c := (icache k c)\<lparr>i_ref := i_ref (icache k c) + 1\<rparr>)"
    using k1 by (simp add: k6_def k5_def k4_def k3_def k2_def)
  moreover have "fork_copy p np m k = Inr (p_pid (ptab k5 np), m, k6)"
    using dup p assms(3) runsD(1) [OF assms(1)]
    by (simp add: fork_copy_def idup_def km_simps k1_def [symmetric]) (simp add: k3_def k4_def k5_def k6_def)
  moreover have "p_pid (ptab k5 np) = p_pid (ptab k np)" using p np by (simp add: k5_def k4_def) (simp add: k1_def)
  ultimately show ?thesis by (intro exI [of _ k6]) (simp add: fun_eq_iff)
qed

text \<open>Process 0 has file 7 open twice.\<close>

definition two_fds :: filestate where
  "two_fds = small_files\<lparr>
     ptab := (\<lambda>_. unused_proc)(0 := unused_proc\<lparr>p_ofile := (\<lambda>_. None)(3 := Some 7, 4 := Some 7), p_cwd := Some 0\<rparr>),
     ftab := (\<lambda>f. (ftab small_files f)\<lparr>f_ref := if f = 7 then 2 else 0\<rparr>)\<rparr>"

lemma two_fds_ok: "files_ok two_fds"
proof -
  have fd0: "fds_of (ptab two_fds 0) f [0..<NOFILE] = (if f = 7 then 2 else 0)" for f
  proof -
    have "{i. i < NOFILE \<and> (i = 3 \<or> i = 4)} = {3, 4}" by (auto simp: NOFILE_def)
    moreover have "fds_of (ptab two_fds 0) f [0..<NOFILE] = card {i. i < NOFILE \<and> f = 7 \<and> (i = 3 \<or> i = 4)}"
      by (simp add: fds_of_def distinct_length_filter two_fds_def) (auto intro!: arg_cong [of _ _ card] split: if_splits)
    ultimately show ?thesis by simp
  qed
  have "fds_of (ptab two_fds p) f [0..<NOFILE] = 0" if "p \<noteq> 0" for p f
    using that by (simp add: fds_of_def two_fds_def unused_proc_def)
  then have "refs two_fds f = (\<Sum>p < NPROC. if p = 0 then fds_of (ptab two_fds 0) f [0..<NOFILE] else 0)" for f
    unfolding refs_def by (intro sum.cong) auto
  then have "refs two_fds f = (if f = 7 then 2 else 0)" for f by (simp add: fd0 NPROC_def)
  then show ?thesis by (simp add: files_ok_def) (simp add: two_fds_def)
qed

section \<open>Properties\<close>

text \<open>C5: the part of \<open>fork\<close> that fills the child keeps the file table well-formed (the count of every file is
  the number of descriptors that refer to it).  The child is runnable and has the descriptors, the
  directory, the size and the registers of its parent, but for the result 0 of the call; it keeps the
  container \<open>allocproc\<close> gave it.  No other process changes.\<close>

theorem fork_keeps_refs:
  assumes "runs p m" "p < NPROC" "np < NPROC" "p \<noteq> np" "files_ok k" "\<forall>i < NOFILE. p_ofile (ptab k np) i = None"
    and "p_cwd (ptab k p) = Some c"
  shows "\<exists>k'. fork_copy p np m k = Inr (p_pid (ptab k np), m, k') \<and> files_ok k' \<and> (\<forall>q. q \<noteq> np \<longrightarrow> ptab k' q = ptab k q) \<and>
    (\<forall>i < NOFILE. p_ofile (ptab k' np) i = p_ofile (ptab k p) i) \<and> p_cwd (ptab k' np) = Some c \<and>
    i_ref (icache k' c) = i_ref (icache k c) + 1 \<and> p_tf (ptab k' np) = (p_tf (ptab k p))\<lparr>tf_eax := 0\<rparr> \<and>
    p_sz (ptab k' np) = p_sz (ptab k p) \<and> p_parent (ptab k' np) = Some p \<and> p_state (ptab k' np) = RUNNABLE \<and>
    container_id (ptab k' np) = container_id (ptab k np)"
proof -
  have "1 \<le> f_ref (ftab k f)" if "i < NOFILE" "p_ofile (ptab k p) i = Some f" for i f
    using fds_of_pos [of i "[0..<NOFILE]" "ptab k p" f] refs_ge [OF assms(2), of k f] that assms(5) by (simp add: files_ok_def)
  then obtain k' where k': "fork_copy p np m k = Inr (p_pid (ptab k np), m, k')"
    "ptab k' = (ptab k)(np := forked (ptab k p) p c (ptab k np))"
    "\<And>f. f_ref (ftab k' f) = f_ref (ftab k f) + int (fds_of (ptab k p) f [0..<NOFILE])"
    "icache k' = (icache k)(c := (icache k c)\<lparr>i_ref := i_ref (icache k c) + 1\<rparr>)"
    using fork_copy_ok [OF assms(1,4,7)] by blast
  have of: "p_ofile (ptab k' np) i = p_ofile (ptab k p) i" if "i < NOFILE" for i
    using that assms(6) k'(2) by (simp add: forked_def)
  have "refs k' f = refs k f + fds_of (ptab k p) f [0..<NOFILE]" for f
    by (rule refs_dup [OF assms(2-4,6)]) (use k'(2) of in simp_all)
  then have "files_ok k'" using assms(5) k'(3) by (simp add: files_ok_def)
  then show ?thesis using k' of by (intro exI [of _ k']) (simp add: forked_def)
qed

theorem fork_keeps_refs_witness:
  "\<exists>k'. fork_copy 0 5 (idle_mach (Some 0)) two_fds = Inr (0, idle_mach (Some 0), k') \<and> files_ok k' \<and>
     p_ofile (ptab k' 5) 3 = Some 7 \<and> p_parent (ptab k' 5) = Some 0"
proof -
  have k: "ptab two_fds 5 = unused_proc" "p_cwd (ptab two_fds 0) = Some 0" "p_ofile (ptab two_fds 0) 3 = Some 7"
    "p_ofile unused_proc = (\<lambda>_. None)" "p_pid unused_proc = 0"
    by (simp_all add: two_fds_def unused_proc_def)
  show ?thesis
    using fork_keeps_refs [OF _ _ _ _ two_fds_ok, of 0 "idle_mach (Some 0)" 5 0] k by (auto simp: NPROC_def NOFILE_def)
qed

end
