(* ===== verification/Exec.thy ===== *)
theory Exec
  imports Lifecycle
begin

text \<open>
  Replacing the image of a process (\<^verbatim>\<open>exec.c\<close>).  The path is given by its bytes and the argument vector
  by the addresses before its null pointer; the strings they point to are read through the page
  table of the old image, as in the code.  The new image is built beside the old one (\<open>load_segments\<close>,
  \<open>build_stack\<close>) and takes its place in \<open>exec_commit\<close>; every failure before goes through \<open>exec_bad\<close>, which frees it.
\<close>

definition MAXARG :: nat where "MAXARG = 32"
definition ELF_MAGIC :: uint where "ELF_MAGIC = 0x464C457F"
definition ELF_PROG_LOAD :: uint where "ELF_PROG_LOAD = 1"

record elfhdr =
  e_magic :: uint
  e_entry :: uint
  e_phoff :: uint
  e_phnum :: short

text \<open>The fields of the ELF header and of a program header that the kernel reads.\<close>

definition elfhdr_of :: "uchar list \<Rightarrow> elfhdr" where
  "elfhdr_of bs = \<lparr>e_magic = le32 (nth bs) 0, e_entry = le32 (nth bs) 24, e_phoff = le32 (nth bs) 28, e_phnum = le16 (nth bs) 44\<rparr>"

record proghdr =
  ph_type :: uint
  ph_off :: uint
  ph_vaddr :: uint
  ph_filesz :: uint
  ph_memsz :: uint

definition proghdr_of :: "uchar list \<Rightarrow> proghdr" where
  "proghdr_of bs = \<lparr>ph_type = le32 (nth bs) 0, ph_off = le32 (nth bs) 4, ph_vaddr = le32 (nth bs) 8, ph_filesz = le32 (nth bs) 16,
     ph_memsz = le32 (nth bs) 20\<rparr>"

text \<open>The program headers; \<open>None\<close> is a jump to \<open>bad\<close>.\<close>

primrec load_segments :: "nat \<Rightarrow> nat \<Rightarrow> uint \<Rightarrow> uint \<Rightarrow> uint \<Rightarrow> ('a fsstate_scheme, uint option) bkm" where
  "load_segments 0 ip pgdir off sz = bret (Some sz)"
| "load_segments (Suc n) ip pgdir off sz =
     bbnd (readi ip None off 32) (\<lambda>(r, bs).
     if r \<noteq> 32 then bret None
     else let ph = proghdr_of bs in
       if ph_type ph \<noteq> ELF_PROG_LOAD then load_segments n ip pgdir (off + 32) sz
       else if ph_memsz ph < ph_filesz ph then bret None
       else if ph_vaddr ph + ph_memsz ph < ph_vaddr ph then bret None
       else
         bbnd (lift (allocuvm pgdir sz (ph_vaddr ph + ph_memsz ph))) (\<lambda>sz'.
         if sz' = 0 then bret None
         else if ph_vaddr ph mod PGSIZE \<noteq> 0 then bret None
         else
           bbnd (loaduvm pgdir (ph_vaddr ph) ip (ph_off ph) (ph_filesz ph)) (\<lambda>l.
           if l < 0 then bret None else load_segments n ip pgdir (off + 32) sz')))"

text \<open>The strings of the arguments: their addresses on the new stack, and the stack pointer.\<close>

primrec push_args :: "uint list \<Rightarrow> nat \<Rightarrow> uint \<Rightarrow> uint \<Rightarrow> ('a vm_state_scheme, (uint list \<times> uint) option) km" where
  "push_args [] argc pgdir sp = ret (Some ([], sp))"
| "push_args (a # argv) argc pgdir sp =
     (if argc \<ge> MAXARG then ret None
      else
        bnd (get_cstr a) (\<lambda>s.
        let sp' = (sp - of_nat (length s + 1)) AND NOT 3 in
        bnd (copyout pgdir sp' (s @ [0])) (\<lambda>r.
        if r < 0 then ret None
        else bnd (push_args argv (Suc argc) pgdir sp') (\<lambda>rest.
          ret (map_option (\<lambda>(ps, q). (sp' # ps, q)) rest)))))"

definition word_bytes :: "uint \<Rightarrow> uchar list" where
  "word_bytes v = [ucast v, ucast (drop_bit 8 v), ucast (drop_bit 16 v), ucast (drop_bit 24 v)]"

text \<open>The two pages of the stack and what is on it; the result is the new size and stack pointer.\<close>

definition build_stack :: "uint list \<Rightarrow> uint \<Rightarrow> uint \<Rightarrow> ('a vm_state_scheme, (uint \<times> uint) option) km" where
  "build_stack argv pgdir sz0 =
     (let sz1 = PGROUNDUP sz0 in
      bnd (allocuvm pgdir sz1 (sz1 + 2 * PGSIZE)) (\<lambda>sz.
      if sz = 0 then ret None
      else
        andthen (clearpteu pgdir (sz - 2 * PGSIZE)) (
        bnd (push_args argv 0 pgdir sz) (\<lambda>r. case r of
          None \<Rightarrow> ret None
        | Some (ps, sp) \<Rightarrow>
            let argc = length ps;
                ustack = [0xffffffff, of_nat argc, sp - of_nat (argc + 1) * 4] @ ps @ [0];
                sp' = sp - of_nat (3 + argc + 1) * 4 in
            bnd (copyout pgdir sp' (concat (map word_bytes ustack))) (\<lambda>c.
            if c < 0 then ret None else ret (Some (sz, sp')))))))"

definition exec_name :: "uchar list \<Rightarrow> string" where
  "exec_name pth = map (\<lambda>c. char_of (unat c)) (take 15 (rev (takeWhile (\<lambda>c. c \<noteq> slash) (rev pth))))"

definition exec_bad :: "uint \<Rightarrow> nat option \<Rightarrow> ('a fsstate_scheme, int) bkm" where
  "exec_bad pgdir ip =
     bthen (if pgdir \<noteq> 0 then lift (freevm pgdir) else bret ()) (
     bthen (case ip of None \<Rightarrow> bret () | Some i \<Rightarrow> bthen (iunlockput i) end_op) (
     bret (-1)))"

text \<open>The commit to the new image.\<close>

definition exec_commit :: "nat \<Rightarrow> uchar list \<Rightarrow> uint \<Rightarrow> uint \<Rightarrow> uint \<Rightarrow> uint \<Rightarrow> ('a procs_scheme, int) km" where
  "exec_commit cp pth pgdir sz entry sp =
     andthen (upd (upd_proc cp (\<lambda>p. p\<lparr>p_name := exec_name pth\<rparr>))) (
     bnd (look (\<lambda>k. p_pgdir (ptab k cp))) (\<lambda>oldpgdir.
     andthen (upd (upd_proc cp (\<lambda>p. p\<lparr>p_pgdir := pgdir, p_sz := sz, p_tf := (p_tf p)\<lparr>tf_eip := entry, tf_esp := sp\<rparr>\<rparr>))) (
     andthen (switchuvm (Some cp)) (
     andthen (freevm oldpgdir) (
     ret 0)))))"

definition exec :: "uchar list \<Rightarrow> uint list \<Rightarrow> ('a fsstate_scheme, int) bkm" where
  "exec pth argv =
     bbnd (lift curproc_id) (\<lambda>cp.
     bthen begin_op (
     bbnd (namei pth) (\<lambda>r. case r of
       None \<Rightarrow>
         bthen end_op (
         bthen (lift (cprintf (''exec: fail'' @ [newline]) [])) (
         bret (-1)))
     | Some ip \<Rightarrow>
         bthen (ilock (Some ip)) (
         bbnd (readi ip None 0 52) (\<lambda>(n, bs).
         if n \<noteq> 52 then exec_bad 0 (Some ip)
         else if e_magic (elfhdr_of bs) \<noteq> ELF_MAGIC then exec_bad 0 (Some ip)
         else
           bbnd (lift setupkvm) (\<lambda>pgdir.
           if pgdir = 0 then exec_bad 0 (Some ip)
           else
             bbnd (load_segments (unat (e_phnum (elfhdr_of bs))) ip pgdir (e_phoff (elfhdr_of bs)) 0) (\<lambda>l. case l of
               None \<Rightarrow> exec_bad pgdir (Some ip)
             | Some sz0 \<Rightarrow>
                 bthen (iunlockput ip) (
                 bthen end_op (
                 bbnd (lift (build_stack argv pgdir sz0)) (\<lambda>b. case b of
                   None \<Rightarrow> exec_bad pgdir None
                 | Some (sz, sp) \<Rightarrow> lift (exec_commit cp pth pgdir sz (e_entry (elfhdr_of bs)) sp)))))))))))"

end
