(* ===== verification/Sysfile.thy ===== *)
theory Sysfile
  imports Exec
begin

text \<open>
  The file-system calls (\<^verbatim>\<open>sysfile.c\<close>), with the rules that give every container its own view of the
  files: \<open>open\<close> renames the files a container creates or writes to, and \<open>read\<close>, \<open>write\<close> and \<open>close\<close> compare the container
  of the file with that of the process.  A path is read from user memory each time the code looks at
  it, because \<open>sys_open\<close> changes it there.
\<close>

section \<open>Names\<close>

definition name_bytes :: "string \<Rightarrow> uchar list" where
  "name_bytes s = map of_char s"

definition initial_files :: "string list" where
  "initial_files = [''.'', ''..'', ''init'', ''console'', ''shutdown'', ''arr'', ''cat'', ''README'', ''assig2a.inp'', ''assig2b.inp'',
     ''echo'', ''forktest'', ''grep'', ''kill'', ''ln'', ''ls'', ''mkdir'', ''rm'', ''sh'', ''stressfs'', ''usertests'', ''wc'', ''zombie'',
     ''user_toggle'', ''user_add'', ''user_my'', ''print_count'', ''jacob'', ''maekawa'']"

definition initial_files_with_dot :: "string list" where
  "initial_files_with_dot = map (\<lambda>s. ''./'' @ s) initial_files"

text \<open>\<open>strncmp(path, f, strlen(path)) == 0\<close>; \<open>namecmp_loop n\<close> is \<open>strncmp\<close> with the bound \<open>n\<close>.\<close>

definition in_initial_files :: "uchar list \<Rightarrow> bool" where
  "in_initial_files pth \<longleftrightarrow>
     (\<exists>f \<in> set initial_files. namecmp_loop (length pth) pth (name_bytes f) = 0) \<or>
     (\<exists>f \<in> set initial_files_with_dot. namecmp_loop (length pth) pth (name_bytes f) = 0)"

section \<open>Descriptors\<close>

definition argfd :: "nat \<Rightarrow> ('a procs_scheme, (nat \<times> nat) option) km" where
  "argfd n =
     bnd (argint n) (\<lambda>r. case r of
       None \<Rightarrow> ret None
     | Some fd \<Rightarrow>
         if sint fd < 0 \<or> sint fd \<ge> int NOFILE then ret None
         else bnd (my (\<lambda>p. p_ofile p (unat fd))) (\<lambda>f. ret (map_option (\<lambda>f. (unat fd, f)) f)))"

definition fdalloc :: "nat \<Rightarrow> ('a procs_scheme, nat option) km" where
  "fdalloc f =
     bnd (my (\<lambda>p. find (\<lambda>fd. p_ofile p fd = None) [0..<NOFILE])) (\<lambda>r. case r of
       None \<Rightarrow> ret None
     | Some fd \<Rightarrow> andthen (upd_my (\<lambda>p. p\<lparr>p_ofile := (p_ofile p)(fd := Some f)\<rparr>)) (ret (Some fd)))"

definition sys_dup :: "('a filestate_scheme, int) km" where
  "sys_dup =
     bnd (argfd 0) (\<lambda>r. case r of
       None \<Rightarrow> ret (-1)
     | Some (_, f) \<Rightarrow>
         bnd (fdalloc f) (\<lambda>r'. case r' of
           None \<Rightarrow> ret (-1)
         | Some fd \<Rightarrow> bnd (filedup f) (\<lambda>_. ret (int fd))))"

text \<open>
  \<open>f->ip->container_id\<close>.  A pipe that was given a fresh entry of the file table has a null \<open>ip\<close>: the
  kernel then reads the field at offset 144 of the user's address space.
\<close>

definition file_container :: "nat \<Rightarrow> ('a filestate_scheme, int) km" where
  "file_container f =
     bnd (look (\<lambda>k. f_ip (ftab k f))) (\<lambda>ip. case ip of
       Some i \<Rightarrow> look (\<lambda>k. i_container_id (icache k i))
     | None \<Rightarrow> bnd (get32 144) (\<lambda>w. ret (sint w)))"

text \<open>The arguments of \<open>read\<close> and \<open>write\<close>: file, address and count.\<close>

definition rw_args :: "('a procs_scheme, (nat \<times> uint \<times> int) option) km" where
  "rw_args =
     bnd (argfd 0) (\<lambda>r. case r of
       None \<Rightarrow> ret None
     | Some (_, f) \<Rightarrow>
         bnd (argint 2) (\<lambda>r. case r of
           None \<Rightarrow> ret None
         | Some n \<Rightarrow>
             bnd (argptr 1 (sint n)) (\<lambda>r. case r of
               None \<Rightarrow> ret None
             | Some p \<Rightarrow> ret (Some (f, p, sint n)))))"

definition sys_read :: "('a filestate_scheme, int) bkm" where
  "sys_read =
     bbnd (lift rw_args) (\<lambda>r. case r of
       None \<Rightarrow> bret (-1)
     | Some (f, p, n) \<Rightarrow>
         bbnd (lift (file_container f)) (\<lambda>fc.
         bbnd (lift (my container_id)) (\<lambda>cid.
         if fc = cid \<or> fc = 0 then bbnd (fileread f (Some p) n) (\<lambda>(r, bs). bret r) else bret (-1))))"

definition sys_write :: "('a filestate_scheme, int) bkm" where
  "sys_write =
     bbnd (lift rw_args) (\<lambda>r. case r of
       None \<Rightarrow> bret (-1)
     | Some (f, p, n) \<Rightarrow>
         bbnd (lift (file_container f)) (\<lambda>fc.
         if fc = 0 then filewrite f (Mem p) n
         else
           bbnd (lift (my container_id)) (\<lambda>cid.
           if fc = cid then filewrite f (Mem p) n else bret (-1))))"

definition sys_close :: "('a filestate_scheme, int) bkm" where
  "sys_close =
     bbnd (lift (argfd 0)) (\<lambda>r. case r of
       None \<Rightarrow> bret (-1)
     | Some (fd, f) \<Rightarrow>
         bthen (lift (upd_my (\<lambda>p. p\<lparr>p_ofile := (p_ofile p)(fd := None)\<rparr>))) (
         bbnd (lift (file_container f)) (\<lambda>fc.
         bbnd (lift (my container_id)) (\<lambda>cid.
         if fc = cid then bthen (fileclose f) (bret 0) else bret (-1)))))"

definition sys_fstat :: "('a filestate_scheme, int) bkm" where
  "sys_fstat =
     bbnd (lift (argfd 0)) (\<lambda>r. case r of
       None \<Rightarrow> bret (-1)
     | Some (_, f) \<Rightarrow>
         bbnd (lift (argptr 1 20)) (\<lambda>r. case r of
           None \<Rightarrow> bret (-1)
         | Some st \<Rightarrow> filestat f st))"

section \<open>Links\<close>

definition add_nlink :: "nat \<Rightarrow> short \<Rightarrow> 'a fsstate_scheme \<Rightarrow> 'a fsstate_scheme" where
  "add_nlink ip d = upd_inode ip (\<lambda>x. x\<lparr>i_nlink := i_nlink x + d\<rparr>)"

definition link_bad :: "nat \<Rightarrow> ('a fsstate_scheme, int) bkm" where
  "link_bad ip =
     bthen (ilock (Some ip)) (
     bthen (lift (upd (add_nlink ip (-1)))) (
     bthen (iupdate ip) (
     bthen (iunlockput ip) (
     bthen end_op (
     bret (-1))))))"

definition sys_link :: "('a fsstate_scheme, int) bkm" where
  "sys_link =
     bbnd (lift (argstr 0)) (\<lambda>r. case r of
       None \<Rightarrow> bret (-1)
     | Some (_, old) \<Rightarrow>
         bbnd (lift (argstr 1)) (\<lambda>r. case r of
           None \<Rightarrow> bret (-1)
         | Some (_, new) \<Rightarrow>
             bthen begin_op (
             bbnd (lift (get_cstr old)) (\<lambda>old'. bbnd (namei old') (\<lambda>r. case r of
               None \<Rightarrow> bthen end_op (bret (-1))
             | Some ip \<Rightarrow>
                 bthen (ilock (Some ip)) (
                 bbnd (lift (ifield ip i_type)) (\<lambda>t.
                 if t = T_DIR then bthen (iunlockput ip) (bthen end_op (bret (-1)))
                 else
                   bthen (lift (upd (add_nlink ip 1))) (
                   bthen (iupdate ip) (
                   bthen (lift (iunlock (Some ip))) (
                   bbnd (lift (get_cstr new)) (\<lambda>new'. bbnd (nameiparent new') (\<lambda>r. case r of
                     None \<Rightarrow> link_bad ip
                   | Some (dp, name) \<Rightarrow>
                       bthen (ilock (Some dp)) (
                       bbnd (lift (look (\<lambda>k. i_dev (icache k dp) \<noteq> i_dev (icache k ip)))) (\<lambda>other.
                       bbnd (lift (ifield ip i_inum)) (\<lambda>inum.
                       bbnd (if other then bret (-1) else dirlink dp name inum) (\<lambda>l.
                       if l < 0 then bthen (iunlockput dp) (link_bad ip)
                       else
                         bthen (iunlockput dp) (
                         bthen (iput ip) (
                         bthen end_op (
                         bret 0)))))))))))))))))))"

primrec isdirempty_loop :: "nat \<Rightarrow> nat \<Rightarrow> uint \<Rightarrow> ('a fsstate_scheme, bool) bkm" where
  "isdirempty_loop 0 dp off = lift (fail (Stuck ''isdirempty''))"
| "isdirempty_loop (Suc n) dp off =
     bbnd (lift (ifield dp i_size)) (\<lambda>size.
     if off < size then
       bbnd (readi dp None off 16) (\<lambda>(r, de).
       if r \<noteq> 16 then lift (fail (Panic ''isdirempty: readi''))
       else if de_inum de \<noteq> 0 then bret False
       else isdirempty_loop n dp (off + 16))
     else bret True)"

definition isdirempty :: "nat \<Rightarrow> ('a fsstate_scheme, bool) bkm" where
  "isdirempty dp = bbnd (lift (ifield dp i_size)) (\<lambda>size. isdirempty_loop (unat size div 16 + 2) dp 32)"

definition unlink_bad :: "nat \<Rightarrow> ('a fsstate_scheme, int) bkm" where
  "unlink_bad dp = bthen (iunlockput dp) (bthen end_op (bret (-1)))"

text \<open>From the locked entry \<open>ip\<close> at offset \<open>off\<close> of the locked directory \<open>dp\<close> on.\<close>

definition unlink_entry :: "nat \<Rightarrow> nat \<Rightarrow> uint \<Rightarrow> ('a fsstate_scheme, int) bkm" where
  "unlink_entry dp ip off =
     bbnd (lift (ifield ip i_nlink)) (\<lambda>nl.
     if sint nl < 1 then lift (fail (Panic ''unlink: nlink < 1''))
     else
       bbnd (lift (ifield ip i_type)) (\<lambda>t.
       bbnd (if t = T_DIR then isdirempty ip else bret True) (\<lambda>e.
       if \<not> e then bthen (iunlockput ip) (unlink_bad dp)
       else
         bbnd (writei dp (Local (replicate 16 0)) off 16) (\<lambda>w.
         if w \<noteq> 16 then lift (fail (Panic ''unlink: writei''))
         else
           bthen (if t = T_DIR then bthen (lift (upd (add_nlink dp (-1)))) (iupdate dp) else bret ()) (
           bthen (iunlockput dp) (
           bthen (lift (upd (add_nlink ip (-1)))) (
           bthen (iupdate ip) (
           bthen (iunlockput ip) (
           bthen end_op (
           bret 0))))))))))"

definition sys_unlink :: "('a fsstate_scheme, int) bkm" where
  "sys_unlink =
     bbnd (lift (argstr 0)) (\<lambda>r. case r of
       None \<Rightarrow> bret (-1)
     | Some (_, p) \<Rightarrow>
         bthen begin_op (
         bbnd (lift (get_cstr p)) (\<lambda>pth. bbnd (nameiparent pth) (\<lambda>r. case r of
           None \<Rightarrow> bthen end_op (bret (-1))
         | Some (dp, name) \<Rightarrow>
             bthen (ilock (Some dp)) (
             if namecmp name (name_bytes ''.'') = 0 \<or> namecmp name (name_bytes ''..'') = 0 then unlink_bad dp
             else
               bbnd (dirlookup dp name) (\<lambda>r. case r of
                 None \<Rightarrow> unlink_bad dp
               | Some (ip, off) \<Rightarrow> bthen (ilock (Some ip)) (unlink_entry dp ip off)))))))"

section \<open>Creating files\<close>

text \<open>The new directory gets its two entries.\<close>

definition create_dots :: "nat \<Rightarrow> nat \<Rightarrow> ('a fsstate_scheme, unit) bkm" where
  "create_dots dp ip =
     bthen (lift (upd (add_nlink dp 1))) (
     bthen (iupdate dp) (
     bbnd (lift (ifield ip i_inum)) (\<lambda>inum.
     bbnd (dirlink ip (name_bytes ''.'') inum) (\<lambda>l.
     if l < 0 then lift (fail (Panic ''create dots''))
     else
       bbnd (lift (ifield dp i_inum)) (\<lambda>pnum.
       bbnd (dirlink ip (name_bytes ''..'') pnum) (\<lambda>l'.
       if l' < 0 then lift (fail (Panic ''create dots'')) else bret ()))))))"

text \<open>The name is new in the locked directory \<open>dp\<close>.  \<open>ialloc\<close> panics rather than return a null pointer.\<close>

definition create_new :: "nat \<Rightarrow> uchar list \<Rightarrow> short \<Rightarrow> short \<Rightarrow> short \<Rightarrow> ('a fsstate_scheme, nat option) bkm" where
  "create_new dp name type major minor =
     bbnd (lift (ifield dp i_dev)) (\<lambda>dev.
     bbnd (ialloc dev type) (\<lambda>ip.
     bthen (ilock (Some ip)) (
     bthen (lift (upd (upd_inode ip (\<lambda>x. x\<lparr>i_major := major, i_minor := minor, i_nlink := 1\<rparr>)))) (
     bthen (iupdate ip) (
     bthen (if type = T_DIR then create_dots dp ip else bret ()) (
     bbnd (lift (ifield ip i_inum)) (\<lambda>inum.
     bbnd (dirlink dp name inum) (\<lambda>l.
     if l < 0 then lift (fail (Panic ''create: dirlink''))
     else
       bthen (iunlockput dp) (
       bret (Some ip))))))))))"

definition create :: "uchar list \<Rightarrow> short \<Rightarrow> short \<Rightarrow> short \<Rightarrow> ('a fsstate_scheme, nat option) bkm" where
  "create pth type major minor =
     bbnd (nameiparent pth) (\<lambda>r. case r of
       None \<Rightarrow> bret None
     | Some (dp, name) \<Rightarrow>
         bthen (ilock (Some dp)) (
         bbnd (dirlookup dp name) (\<lambda>r. case r of
           Some (ip, _) \<Rightarrow>
             bthen (iunlockput dp) (
             bthen (ilock (Some ip)) (
             bbnd (lift (ifield ip i_type)) (\<lambda>t.
             if type = T_FILE \<and> t = T_FILE then bret (Some ip)
             else bthen (iunlockput ip) (bret None))))
         | None \<Rightarrow> create_new dp name type major minor)))"

section \<open>open\<close>

definition O_WRONLY :: uint where "O_WRONLY = 1"
definition O_RDWR :: uint where "O_RDWR = 2"
definition O_CREATE :: uint where "O_CREATE = 0x200"

text \<open>A file and a descriptor for the locked i-node \<open>ip\<close>; the transaction ends here.\<close>

definition file_and_fd :: "nat \<Rightarrow> ('a filestate_scheme, (nat \<times> nat) option) bkm" where
  "file_and_fd ip =
     bbnd (lift filealloc) (\<lambda>r.
     bbnd (case r of None \<Rightarrow> bret None | Some f \<Rightarrow> lift (fdalloc f)) (\<lambda>fd.
     case (r, fd) of
       (Some f, Some d) \<Rightarrow>
         bthen (lift (iunlock (Some ip))) (
         bthen end_op (
         bret (Some (f, d))))
     | _ \<Rightarrow>
         bthen (opt_close r) (
         bthen (iunlockput ip) (
         bthen end_op (
         bthen (lift (cprintf (''8'' @ [newline]) [])) (
         bret None))))))"

text \<open>
  The loop that copies four bytes (\<open>sizeof(buf)\<close>, the size of a pointer) at a time.  Every turn but the
  last moves at least one byte, so for a file on the disk \<open>MAXFILE * BSIZE + 1\<close> turns are enough.
\<close>

primrec copy_loop :: "nat \<Rightarrow> nat \<Rightarrow> nat \<Rightarrow> ('a filestate_scheme, unit) bkm" where
  "copy_loop 0 f g = lift (fail (Stuck ''copy''))"
| "copy_loop (Suc t) f g =
     bbnd (fileread f None 4) (\<lambda>(n, bs).
     if n > 0 then
       bbnd (filewrite g (Local bs) n) (\<lambda>w.
       if w \<noteq> n then lift (cprintf (''write error while copying'' @ [newline]) [])
       else copy_loop t f g)
     else bret ())"

definition copy_helper_COW :: "uint \<Rightarrow> nat \<Rightarrow> ('a filestate_scheme, int) bkm" where
  "copy_helper_COW p g =
     bbnd (lift kalloc) (\<lambda>buf.
     bbnd (lift (get_cstr p)) (\<lambda>s.
     bbnd (lift (get8 (p + of_nat (length s) - 2))) (\<lambda>c.
     bthen (if c = 36 then
         lift (andthen (put_bytes buf (s @ [0])) (put8 (buf + of_nat (length s) - 2) 0))
       else bret ()) (
     bthen begin_op (
     bbnd (lift (get_cstr buf)) (\<lambda>orig. bbnd (namei orig) (\<lambda>r. case r of
       None \<Rightarrow>
         bthen end_op (
         bthen (lift (cprintf (''5'' @ [newline]) [])) (
         bret (-1)))
     | Some ip \<Rightarrow>
         bthen (ilock (Some ip)) (
         bbnd (file_and_fd ip) (\<lambda>r. case r of
           None \<Rightarrow> bret (-1)
         | Some (f, fd) \<Rightarrow>
             bthen (lift (upd (upd_file f (\<lambda>x. x\<lparr>f_type := FD_INODE, f_ip := Some ip, f_off := 0, f_readable := True,
               f_writable := False\<rparr>)))) (
             bthen (copy_loop (MAXFILE * BSIZE + 1) f g) (
             bret 1)))))))))))"

text \<open>
  What \<open>sys_open\<close> does to the path: a process in a container gets names with the suffix \<open>$c\<close>.  The
  result is \<open>make_copy\<close>.
\<close>

definition open_name :: "uint \<Rightarrow> uint \<Rightarrow> ('a procs_scheme, bool) km" where
  "open_name p omode =
     bnd (get_cstr p) (\<lambda>s.
     bnd (if in_initial_files s then ret True else bnd (file_in_container p 0) (\<lambda>r. ret (r = 1))) (\<lambda>known.
     bnd (my container_id) (\<lambda>cid.
     if known then
       if cid \<noteq> 0 then
         andthen (if omode = 0 then
             bnd (file_in_container p cid) (\<lambda>ic.
             if ic = 0 then ret ()
             else bnd (get_cstr p) (\<lambda>s'. suffix_name p (length s') cid))
           else ret ()) (
         if omode AND O_WRONLY \<noteq> 0 \<or> omode AND O_RDWR \<noteq> 0 then
           bnd (get_cstr p) (\<lambda>s'.
           bnd (file_in_container p cid) (\<lambda>ic.
           andthen (suffix_name p (length s') cid) (
           if ic = 0 then andthen (set_file_in_container p cid) (ret True) else ret False)))
         else ret False)
       else ret False
     else
       bnd (get_cstr p) (\<lambda>s'.
       if omode AND O_CREATE \<noteq> 0 then
         andthen (if cid \<noteq> 0 then suffix_name p (length s') cid else ret ()) (
         andthen (set_file_in_container p cid) (
         ret False))
       else
         bnd (get8 (p + of_nat (length s') - 2)) (\<lambda>c.
         if c \<noteq> 36 \<and> cid \<noteq> 0 then andthen (suffix_name p (length s') cid) (ret False) else ret False)))))"

text \<open>The locked i-node to open, or \<open>None\<close> after an error.\<close>

definition open_inode :: "uchar list \<Rightarrow> uint \<Rightarrow> bool \<Rightarrow> ('a fsstate_scheme, nat option) bkm" where
  "open_inode pth omode make_copy =
     (if omode AND O_CREATE \<noteq> 0 \<or> make_copy then
        bbnd (create pth T_FILE 0 0) (\<lambda>r. case r of
          None \<Rightarrow> bthen end_op (bret None)
        | Some ip \<Rightarrow>
            bbnd (lift (my container_id)) (\<lambda>cid.
            bthen (lift (upd (upd_inode ip (\<lambda>x. x\<lparr>i_container_id := cid\<rparr>)))) (
            bret (Some ip))))
      else
        bbnd (namei pth) (\<lambda>r. case r of
          None \<Rightarrow> bthen end_op (bthen (lift (cprintf (''5'' @ [newline]) [])) (bret None))
        | Some ip \<Rightarrow>
            bthen (ilock (Some ip)) (
            bbnd (lift (ifield ip i_type)) (\<lambda>t.
            if t = T_DIR \<and> omode \<noteq> 0 then
              bthen (iunlockput ip) (
              bthen end_op (
              bthen (lift (cprintf (''6'' @ [newline]) [])) (
              bret None)))
            else bret (Some ip)))))"

definition sys_open :: "('a filestate_scheme, int) bkm" where
  "sys_open =
     bbnd (lift (argstr 0)) (\<lambda>r. case r of
       None \<Rightarrow> bret (-1)
     | Some (_, p) \<Rightarrow>
         bbnd (lift (argint 1)) (\<lambda>r. case r of
           None \<Rightarrow> bret (-1)
         | Some omode \<Rightarrow>
             bthen begin_op (
             bbnd (lift (open_name p omode)) (\<lambda>make_copy.
             bbnd (lift (get_cstr p)) (\<lambda>pth.
             bbnd (open_inode pth omode make_copy) (\<lambda>r. case r of
               None \<Rightarrow> bret (-1)
             | Some ip \<Rightarrow>
                 bbnd (file_and_fd ip) (\<lambda>r. case r of
                   None \<Rightarrow> bret (-1)
                 | Some (f, fd) \<Rightarrow>
                     bbnd (lift (ifield ip i_container_id)) (\<lambda>fc.
                     bbnd (lift (my container_id)) (\<lambda>cid.
                     if fc = cid \<or> fc = 0 then
                       bthen (lift (upd (upd_file f (\<lambda>x. x\<lparr>f_type := FD_INODE, f_ip := Some ip, f_off := 0,
                         f_readable := (omode AND O_WRONLY = 0),
                         f_writable := (omode AND O_WRONLY \<noteq> 0 \<or> omode AND O_RDWR \<noteq> 0)\<rparr>)))) (
                       bbnd (if make_copy then copy_helper_COW p f else bret 0) (\<lambda>_.
                       bret (int fd)))
                     else bret (-1))))))))))"

section \<open>The other calls\<close>

definition make_node :: "short \<Rightarrow> uint \<Rightarrow> short \<Rightarrow> short \<Rightarrow> ('a fsstate_scheme, int) bkm" where
  "make_node type p major minor =
     bbnd (lift (get_cstr p)) (\<lambda>pth. bbnd (create pth type major minor) (\<lambda>r. case r of
       None \<Rightarrow> bthen end_op (bret (-1))
     | Some ip \<Rightarrow> bthen (iunlockput ip) (bthen end_op (bret 0))))"

definition sys_mkdir :: "('a fsstate_scheme, int) bkm" where
  "sys_mkdir =
     bthen begin_op (
     bbnd (lift (argstr 0)) (\<lambda>r. case r of
       None \<Rightarrow> bthen end_op (bret (-1))
     | Some (_, p) \<Rightarrow> make_node T_DIR p 0 0))"

definition sys_mknod :: "('a fsstate_scheme, int) bkm" where
  "sys_mknod =
     bthen begin_op (
     bbnd (lift (argstr 0)) (\<lambda>r. case r of
       None \<Rightarrow> bthen end_op (bret (-1))
     | Some (_, p) \<Rightarrow>
         bbnd (lift (argint 1)) (\<lambda>r. case r of
           None \<Rightarrow> bthen end_op (bret (-1))
         | Some major \<Rightarrow>
             bbnd (lift (argint 2)) (\<lambda>r. case r of
               None \<Rightarrow> bthen end_op (bret (-1))
             | Some minor \<Rightarrow> make_node T_DEV p (ucast major) (ucast minor)))))"

definition sys_chdir :: "('a fsstate_scheme, int) bkm" where
  "sys_chdir =
     bthen begin_op (
     bbnd (lift (argstr 0)) (\<lambda>r. case r of
       None \<Rightarrow> bthen end_op (bret (-1))
     | Some (_, p) \<Rightarrow>
         bbnd (lift (get_cstr p)) (\<lambda>pth. bbnd (namei pth) (\<lambda>r. case r of
           None \<Rightarrow> bthen end_op (bret (-1))
         | Some ip \<Rightarrow>
             bthen (ilock (Some ip)) (
             bbnd (lift (ifield ip i_type)) (\<lambda>t.
             if t \<noteq> T_DIR then bthen (iunlockput ip) (bthen end_op (bret (-1)))
             else
               bthen (lift (iunlock (Some ip))) (
               bbnd (lift (my p_cwd)) (\<lambda>c.
               bthen (case c of None \<Rightarrow> lift (fail (Fault ''iput'')) | Some i \<Rightarrow> iput i) (
               bthen end_op (
               bthen (lift (upd_my (\<lambda>q. q\<lparr>p_cwd := Some ip\<rparr>))) (
               bret 0)))))))))))"

text \<open>The addresses before the null pointer; at most \<open>MAXARG\<close> entries are looked at.\<close>

primrec exec_args :: "nat \<Rightarrow> uint \<Rightarrow> ('a procs_scheme, uint list option) km" where
  "exec_args 0 uargv = ret None"
| "exec_args (Suc n) uargv =
     bnd (fetchint uargv) (\<lambda>r. case r of
       None \<Rightarrow> ret None
     | Some uarg \<Rightarrow>
         if uarg = 0 then ret (Some [])
         else
           bnd (fetchstr uarg) (\<lambda>r. case r of
             None \<Rightarrow> ret None
           | Some (_, a) \<Rightarrow> bnd (exec_args n (uargv + 4)) (\<lambda>rest. ret (map_option (Cons a) rest))))"

definition sys_exec :: "('a fsstate_scheme, int) bkm" where
  "sys_exec =
     bbnd (lift (argstr 0)) (\<lambda>r. case r of
       None \<Rightarrow> bret (-1)
     | Some (_, p) \<Rightarrow>
         bbnd (lift (argint 1)) (\<lambda>r. case r of
           None \<Rightarrow> bret (-1)
         | Some uargv \<Rightarrow>
             bbnd (lift (exec_args MAXARG uargv)) (\<lambda>r. case r of
               None \<Rightarrow> bret (-1)
             | Some argv \<Rightarrow> bbnd (lift (get_cstr p)) (\<lambda>pth. exec pth argv))))"

definition sys_pipe :: "('a filestate_scheme, int) bkm" where
  "sys_pipe =
     bbnd (lift (argptr 0 8)) (\<lambda>r. case r of
       None \<Rightarrow> bret (-1)
     | Some fd \<Rightarrow>
         bbnd pipealloc (\<lambda>r. case r of
           None \<Rightarrow> bret (-1)
         | Some (rfile, wfile) \<Rightarrow>
             bbnd (lift (fdalloc rfile)) (\<lambda>fd0.
             bbnd (if fd0 = None then bret None else lift (fdalloc wfile)) (\<lambda>fd1.
             case (fd0, fd1) of
               (Some a, Some b) \<Rightarrow>
                 bthen (lift (put32 fd (of_nat a))) (
                 bthen (lift (put32 (fd + 4) (of_nat b))) (
                 bret 0))
             | _ \<Rightarrow>
                 bthen (case fd0 of None \<Rightarrow> bret ()
                   | Some a \<Rightarrow> lift (upd_my (\<lambda>p. p\<lparr>p_ofile := (p_ofile p)(a := None)\<rparr>))) (
                 bthen (fileclose rfile) (
                 bthen (fileclose wfile) (
                 bret (-1))))))))"

text \<open>The copy without its last two characters is made, but the search uses the original.\<close>

definition sys_get_file_container_id :: "('a procs_scheme, int) km" where
  "sys_get_file_container_id =
     bnd (argstr 0) (\<lambda>r. case r of
       None \<Rightarrow> ret (-1)
     | Some (_, p) \<Rightarrow>
         bnd kalloc (\<lambda>buf.
         bnd (get_cstr p) (\<lambda>s.
         andthen (put_bytes buf (s @ [0])) (
         andthen (put8 (buf + of_nat (length s) - 2) 0) (
         bnd (get_cstr p) (\<lambda>s'.
         bnd (if in_initial_files s' then ret True else bnd (file_in_container p 0) (\<lambda>r. ret (r = 1))) (\<lambda>b.
         ret (if b then 0 else -1))))))))"

end
