(* ===== verification/Kbd.thy ===== *)
theory Kbd
  imports Sysfile
begin

text \<open>
  The keyboard driver (\<^verbatim>\<open>kbd.c\<close> and the tables of \<^verbatim>\<open>kbd.h\<close>): a state machine over scan codes whose state is
  the set of modifier keys, and the interrupt handlers of keyboard and serial port (\<^verbatim>\<open>uart.c\<close>), which
  feed the line discipline of the console.  The lemmas show that the state never has a bit other than the
  seven modifier bits, and that a modifier key that is pressed and released leaves no trace.
\<close>

section \<open>Tables\<close>

definition SHIFT :: uint where "SHIFT = 1"
definition CTL :: uint where "CTL = 2"
definition ALT :: uint where "ALT = 4"
definition CAPSLOCK :: uint where "CAPSLOCK = 8"
definition NUMLOCK :: uint where "NUMLOCK = 16"
definition SCROLLLOCK :: uint where "SCROLLLOCK = 32"
definition E0ESC :: uint where "E0ESC = 64"

lemmas kbd_bits = SHIFT_def CTL_def ALT_def CAPSLOCK_def NUMLOCK_def SCROLLLOCK_def E0ESC_def

definition shiftcode :: "nat \<Rightarrow> uint" where
  "shiftcode d = (if d = 0x1D then CTL else if d = 0x2A then SHIFT else if d = 0x36 then SHIFT else if d = 0x38 then ALT
     else if d = 0x9D then CTL else if d = 0xB8 then ALT else 0)"

definition togglecode :: "nat \<Rightarrow> uint" where
  "togglecode d = (if d = 0x3A then CAPSLOCK else if d = 0x45 then NUMLOCK else if d = 0x46 then SCROLLLOCK else 0)"

text \<open>The entries of a map that its initialiser names by their index.\<close>

definition keypad :: "uchar \<Rightarrow> uchar \<Rightarrow> nat \<Rightarrow> uchar" where
  "keypad enter slsh d = (if d = 0x9C then enter else if d = 0xB5 then slsh
     else if d = 0xC8 then 0xE2 else if d = 0xD0 then 0xE3 else if d = 0xC9 then 0xE6 else if d = 0xD1 then 0xE7
     else if d = 0xCB then 0xE4 else if d = 0xCD then 0xE5 else if d = 0x97 then 0xE0 else if d = 0xCF then 0xE1
     else if d = 0xD2 then 0xE8 else if d = 0xD3 then 0xE9 else 0)"

definition key_table :: "uchar list \<Rightarrow> (nat \<Rightarrow> uchar) \<Rightarrow> nat \<Rightarrow> uchar" where
  "key_table row rest d = (if d < length row then row ! d else rest d)"

definition normalmap :: "nat \<Rightarrow> uchar" where
  "normalmap = key_table
     ([0, 0x1B] @ name_bytes ''1234567890-='' @ [8, 9] @ name_bytes ''qwertyuiop[]'' @ [10, 0] @ name_bytes ''asdfghjkl;'' @
      [39, 96, 0, 92] @ name_bytes ''zxcvbnm,./'' @ [0, 42, 0, 32] @ replicate 13 0 @ name_bytes ''789-456+1230.'' @ replicate 4 0)
     (keypad 10 47)"

definition shiftmap :: "nat \<Rightarrow> uchar" where
  "shiftmap = key_table
     ([0, 0x1B] @ name_bytes ''!@#$%^&*()_+'' @ [8, 9] @ name_bytes ''QWERTYUIOP{}'' @ [10, 0] @ name_bytes ''ASDFGHJKL:'' @
      [34, 126, 0, 124] @ name_bytes ''ZXCVBNM<>?'' @ [0, 42, 0, 32] @ replicate 13 0 @ name_bytes ''789-456+1230.'' @ replicate 4 0)
     (keypad 10 47)"

definition ctl_bytes :: "string \<Rightarrow> uchar list" where
  "ctl_bytes s = map (\<lambda>c. of_char c - 64) s"

definition ctlmap :: "nat \<Rightarrow> uchar" where
  "ctlmap = key_table
     (replicate 16 0 @ ctl_bytes ''QWERTYUIOP'' @ [0, 0, 13, 0] @ ctl_bytes ''ASDFGHJKL'' @ replicate 4 0 @ [28] @
      ctl_bytes ''ZXCVBNM'' @ [0, 0, 47 - 64, 0, 0])
     (keypad 13 (47 - 64))"

definition charcode :: "uint \<Rightarrow> nat \<Rightarrow> uchar" where
  "charcode s = (if s = 0 then normalmap else if s = SHIFT then shiftmap else ctlmap)"

section \<open>kbdgetc\<close>

definition caps :: "uchar \<Rightarrow> uint" where
  "caps c = (if 97 \<le> c \<and> c \<le> 122 then ucast c - 32 else if 65 \<le> c \<and> c \<le> 90 then ucast c + 32 else ucast c)"

text \<open>What \<open>kbdgetc\<close> returns for a scan code, and the new value of its static variable \<open>shift\<close>.\<close>

definition kbdgetc :: "uint \<Rightarrow> uchar \<Rightarrow> uint \<times> uint" where
  "kbdgetc shift data =
     (if data = 0xE0 then (0, shift OR E0ESC)
      else if data AND 0x80 \<noteq> 0 then
        let d = (if shift AND E0ESC \<noteq> 0 then data else data AND 0x7F)
        in (0, shift AND NOT (shiftcode (unat d) OR E0ESC))
      else
        let (d, s) = (if shift AND E0ESC \<noteq> 0 then (data OR 0x80, shift AND NOT E0ESC) else (data, shift));
            s' = (s OR shiftcode (unat d)) XOR togglecode (unat d);
            c = charcode (s' AND (CTL OR SHIFT)) (unat d)
        in (if s' AND CAPSLOCK \<noteq> 0 then caps c else ucast c, s'))"

primrec kbd_chars :: "uint \<Rightarrow> uchar list \<Rightarrow> int list \<times> uint" where
  "kbd_chars s [] = ([], s)"
| "kbd_chars s (d # ds) = (let (c, s') = kbdgetc s d; (cs, s'') = kbd_chars s' ds in (uint c # cs, s''))"

text \<open>
  \<open>kbd_shift\<close> is the static variable of \<open>kbdgetc\<close> and \<open>uart\<close> that of \<^verbatim>\<open>uart.c\<close>.  The handlers get the bytes that
  the controller has ready.
\<close>

record devstate = kernel +
  kbd_shift :: uint
  uart :: bool

definition kbdintr :: "uchar list \<Rightarrow> ('a devstate_scheme, unit) km" where
  "kbdintr codes =
     bnd (look kbd_shift) (\<lambda>s.
     andthen (upd (\<lambda>k. k\<lparr>kbd_shift := snd (kbd_chars s codes)\<rparr>))
       (consoleintr (fst (kbd_chars s codes))))"

definition uartintr :: "uchar list \<Rightarrow> ('a devstate_scheme, unit) km" where
  "uartintr bs = bnd (look uart) (\<lambda>u. consoleintr (if u then map uint bs else []))"

section \<open>Facts\<close>

text \<open>The state consists of the seven modifier bits.\<close>

lemma and_or_mask:
  fixes a b m :: uint
  assumes "a AND m = a" "b AND m = b"
  shows "(a OR b) AND m = a OR b" "(a XOR b) AND m = a XOR b" "(a AND c) AND m = a AND c"
proof -
  show "(a OR b) AND m = a OR b" using assms by (simp add: bit.conj_disj_distrib2)
  show "(a XOR b) AND m = a XOR b" using assms by (simp add: bit.conj_xor_distrib2)
  show "(a AND c) AND m = a AND c" using assms(1) by (metis and.assoc and.commute)
qed

lemma kbd_codes_mask: "shiftcode d AND 127 = shiftcode d" "togglecode d AND 127 = togglecode d" "E0ESC AND 127 = E0ESC"
  by (simp_all add: shiftcode_def togglecode_def kbd_bits)

lemma kbdgetc_state:
  assumes "s AND 127 = s"
  shows "snd (kbdgetc s d) AND 127 = snd (kbdgetc s d)"
  using assms by (auto simp: kbdgetc_def Let_def and_or_mask kbd_codes_mask split: prod.splits if_splits)

text \<open>Pressing and releasing a modifier key.\<close>

lemma modifier_released:
  assumes "d \<in> {0x1D, 0x2A, 0x36, 0x38}" "s AND (E0ESC OR shiftcode (unat d)) = 0"
  shows "snd (kbd_chars s [d, d OR 0x80]) = s"
proof -
  have s: "s AND E0ESC = 0" "s AND shiftcode (unat d) = 0"
    using assms(2) by (simp_all add: bit.conj_disj_distrib or_eq_0_iff)
  have d: "d AND 0x80 = 0" "d \<noteq> 0xE0" "d OR 0x80 \<noteq> 0xE0" "(d OR 0x80) AND 0x80 \<noteq> 0" "(d OR 0x80) AND 0x7F = d"
    "togglecode (unat d) = 0" "shiftcode (unat d) AND E0ESC = 0"
    using assms(1) by (auto simp: togglecode_def shiftcode_def kbd_bits)
  have "(s OR shiftcode (unat d)) AND E0ESC = 0" using s(1) d(7) by (simp add: bit.conj_disj_distrib2)
  moreover have "(s OR c) AND NOT (c OR e) = s" if "s AND e = 0" "s AND c = 0" for c e :: uint
  proof (rule bit_word_eqI)
    fix n
    have "\<not> bit (s AND e) n" "\<not> bit (s AND c) n" using that by simp_all
    then show "bit ((s OR c) AND NOT (c OR e)) n = bit s n" by (auto simp: bit_simps dest: bit_imp_le_length)
  qed
  ultimately show ?thesis using s d by (simp add: kbdgetc_def Let_def)
qed

end
