(* ===== verification/Trap.thy ===== *)
theory Trap
  imports Kbd
begin

text \<open>
  How the kernel is entered: the dispatch of system calls (\<^verbatim>\<open>syscall.c\<close>), the trap handler (\<^verbatim>\<open>trap.c\<close>) and
  the start of the machine (\<^verbatim>\<open>main.c\<close>).  The set-up of interrupt controllers, segment descriptors, the
  interrupt table and the other processors is left out: it only programs the hardware.

  The properties that go through this entry, from the trap to the return, are in \<open>Spec2Isabelle\<close>.
\<close>

section \<open>syscall.c\<close>

text \<open>
  The table \<open>syscalls\<close>.  Two handlers are declared \<open>int\<close> here but are \<open>void\<close> functions: \<open>None\<close> stands for whatever
  they leave in the register.
\<close>

definition ints :: "('c, int) bkm \<Rightarrow> ('c, uint option) bkm" where
  "ints f = bbnd f (\<lambda>r. bret (Some (of_int r)))"

definition uints :: "('c, uint) km \<Rightarrow> ('c, uint option) bkm" where
  "uints f = bbnd (lift f) (\<lambda>r. bret (Some r))"

definition voids :: "('c, unit) km \<Rightarrow> ('c, uint option) bkm" where
  "voids f = bthen (lift f) (bret None)"

definition syscalls :: "('a devstate_scheme, uint option) bkm list" where
  "syscalls = [
     ints (lift sys_fork), ints sys_exit, ints sys_wait, ints sys_pipe, ints sys_read, ints (lift sys_kill), ints sys_exec,
     ints sys_fstat, ints sys_chdir, ints (lift sys_dup), ints (lift sys_getpid), ints (lift sys_sbrk), ints sys_sleep,
     uints sys_uptime, ints sys_open, ints sys_write, ints sys_mknod, ints sys_unlink, ints sys_link, ints sys_mkdir, ints sys_close,
     voids sys_toggle, ints (lift sys_add), ints (lift sys_ps), ints (lift sys_send), ints sys_recv, voids sys_print_count,
     ints (lift sys_send_multi), ints (lift sys_signal), ints (lift sys_sigraise), ints (lift sys_halt), ints (lift sys_recv_multi),
     ints sys_change_state, ints (lift sys_create_container), ints (lift sys_destroy_container), ints (lift sys_join_container),
     ints (lift sys_leave_container), ints (lift sys_scheduler_log_on), ints (lift sys_scheduler_log_off),
     uints sys_container_malloc, ints (lift sys_memory_log_on), ints (lift sys_memory_log_off),
     ints (lift sys_get_file_container_id), ints (lift sys_get_container_id)]"

definition set_eax :: "nat \<Rightarrow> uint \<Rightarrow> 'a procs_scheme \<Rightarrow> 'a procs_scheme" where
  "set_eax cp v = upd_proc cp (\<lambda>p. p\<lparr>p_tf := (p_tf p)\<lparr>tf_eax := v\<rparr>\<rparr>)"

text \<open>The counter is incremented before the number is checked.\<close>

definition count_syscall :: "int \<Rightarrow> ('a sysstate_scheme, unit) km" where
  "count_syscall num =
     bnd (look sys_trace) (\<lambda>t.
     if t = 1 then
       if in_bounds num 45 then upd (\<lambda>k. k\<lparr>syscall_trace := (syscall_trace k)(nat num := syscall_trace k (nat num) + 1)\<rparr>)
       else fail (Fault ''syscall_trace'')
     else ret ())"

definition syscall :: "uint \<Rightarrow> ('a devstate_scheme, unit) bkm" where
  "syscall junk =
     bbnd (lift curproc_id) (\<lambda>cp.
     bbnd (lift (look (\<lambda>k. sint (tf_eax (p_tf (ptab k cp)))))) (\<lambda>num.
     bthen (lift (count_syscall num)) (
     if num > 0 \<and> num < 1 + int (length (syscalls :: ('a devstate_scheme, uint option) bkm list)) then
       bbnd (syscalls ! (nat num - 1)) (\<lambda>r.
       lift (upd (set_eax cp (case r of None \<Rightarrow> junk | Some v \<Rightarrow> v))))
     else
       bbnd (lift (look (\<lambda>k. ptab k cp))) (\<lambda>p.
       bthen (lift (cprintf (''%d %s: unknown sys call %d'' @ [newline])
         [CInt (of_int (p_pid p)), CStr (Some (p_name p)), CInt (of_int num)])) (
       lift (upd (set_eax cp (-1))))))))"

section \<open>trap.c\<close>

definition T_SYSCALL :: uint where "T_SYSCALL = 64"
definition T_IRQ0 :: uint where "T_IRQ0 = 32"

definition tvinit :: "('c, unit) km" where
  "tvinit = initlock TicksLock"

text \<open>The memory disk does not interrupt.\<close>

definition ideintr :: "('c, unit) km" where
  "ideintr = ret ()"

text \<open>What the devices have ready: scan codes, serial bytes, and the address of the last page fault.\<close>

record devices =
  kbd_data :: "uchar list"
  com1_data :: "uchar list"
  cr2 :: uint

definition timer_tick :: "('a sysstate_scheme, unit) km" where
  "timer_tick =
     bnd cpuid (\<lambda>c.
     if c = 0 then
       andthen (acquire TicksLock) (
       andthen (upd (\<lambda>k. k\<lparr>ticks := ticks k + 1\<rparr>)) (
       andthen (wakeup ChanTicks) (
       release TicksLock)))
     else ret ())"

definition trap_default :: "trapframe \<Rightarrow> devices \<Rightarrow> ('a procs_scheme, unit) km" where
  "trap_default tf dv =
     bnd myproc (\<lambda>p.
     bnd cpuid (\<lambda>c.
     if p = None \<or> tf_cs tf AND 3 = 0 then
       andthen (cprintf (''unexpected trap %d from cpu %d eip %x (cr2=0x%x)'' @ [newline])
         [CInt (tf_trapno tf), CInt (of_nat c), CInt (tf_eip tf), CInt (cr2 dv)])
         (fail (Panic ''trap''))
     else
       bnd (my (\<lambda>q. q)) (\<lambda>q.
       andthen (cprintf (''pid %d %s: trap %d err %d on cpu %d eip 0x%x addr 0x%x--kill proc'' @ [newline])
         [CInt (of_int (p_pid q)), CStr (Some (p_name q)), CInt (tf_trapno tf), CInt (tf_err tf), CInt (of_nat c), CInt (tf_eip tf), CInt (cr2 dv)])
         (upd_my (\<lambda>q. q\<lparr>p_killed := True\<rparr>)))))"

definition trap_irq :: "trapframe \<Rightarrow> devices \<Rightarrow> ('a devstate_scheme, unit) km" where
  "trap_irq tf dv =
     (let n = tf_trapno tf - T_IRQ0 in
      if n = 0 then timer_tick
      else if n = 14 then ideintr
      else if n = 15 then ret ()
      else if n = 1 then kbdintr (kbd_data dv)
      else if n = 4 then uartintr (com1_data dv)
      else if n = 7 \<or> n = 31 then
        bnd cpuid (\<lambda>c. cprintf (''cpu%d: spurious interrupt at %x:%x'' @ [newline]) [CInt (of_nat c), CInt (tf_cs tf), CInt (tf_eip tf)])
      else trap_default tf dv)"

text \<open>\<open>myproc() && myproc()->killed && (tf->cs&3) == DPL_USER\<close>\<close>

definition exit_if_killed :: "trapframe \<Rightarrow> ('a filestate_scheme, unit) bkm" where
  "exit_if_killed tf =
     bbnd (lift myproc) (\<lambda>p. case p of
       None \<Rightarrow> bret ()
     | Some i \<Rightarrow>
         bbnd (lift (look (\<lambda>k. p_killed (ptab k i)))) (\<lambda>kd.
         if kd \<and> tf_cs tf AND 3 = 3 then exit else bret ()))"

definition trap :: "trapframe \<Rightarrow> devices \<Rightarrow> uint \<Rightarrow> ('a devstate_scheme, unit) bkm" where
  "trap tf dv junk =
     (if tf_trapno tf = T_SYSCALL then
        bbnd (lift (my p_killed)) (\<lambda>kd.
        bthen (if kd then exit else bret ()) (
        bthen (lift (upd_my (\<lambda>p. p\<lparr>p_tf := tf\<rparr>))) (
        bthen (syscall junk) (
        bbnd (lift (my p_killed)) (\<lambda>kd'.
        if kd' then exit else bret ())))))
      else
        bthen (lift (trap_irq tf dv)) (
        bthen (exit_if_killed tf) (
        bbnd (lift myproc) (\<lambda>p.
        bbnd (lift (look (\<lambda>k. case p of None \<Rightarrow> False | Some i \<Rightarrow> p_state (ptab k i) = RUNNING))) (\<lambda>running.
        bthen (if running \<and> tf_trapno tf = T_IRQ0 then yield else bret ())
          (exit_if_killed tf))))))"

section \<open>main.c\<close>

text \<open>\<open>fs_img\<close> is the disk image the build links into the kernel: its blocks and their number.\<close>

definition ideinit :: "(nat \<Rightarrow> block) \<Rightarrow> uint \<Rightarrow> ('a disk_state_scheme, unit) km" where
  "ideinit fs_img nblk = upd (\<lambda>k. k\<lparr>memdisk := fs_img, disksize := nblk\<rparr>)"

text \<open>
  \<open>mpmain\<close> also loads the interrupt table and sets the flag \<open>started\<close>, which only \<open>startothers\<close> reads.
\<close>

definition mpmain :: "nat \<Rightarrow> ('a procs_scheme, unit) bkm" where
  "mpmain turns =
     bbnd (lift cpuid) (\<lambda>c.
     bthen (lift (cprintf (''cpu%d: starting %d'' @ [newline]) [CInt (of_nat c), CInt (of_nat c)]))
       (scheduler turns))"

text \<open>The boot processor, alone, up to \<open>turns\<close> turns of its scheduler.\<close>

definition main :: "(nat \<Rightarrow> block) \<Rightarrow> uint \<Rightarrow> nat \<Rightarrow> ('a kernel_scheme, unit) bkm" where
  "main fs_img nblk turns =
     bthen (lift (
       bnd (look kend) (\<lambda>e.
       andthen (kinit1 e (P2V (4 * 1024 * 1024))) (
       andthen kvmalloc (
       andthen consoleinit (
       andthen pinit (
       andthen container_init (
       andthen tvinit (
       andthen binit (
       andthen fileinit (
       andthen (with_msgs messageinit) (
       andthen (ideinit fs_img nblk)
         (kinit2 (P2V (4 * 1024 * 1024)) (P2V PHYSTOP))))))))))))))
     (bthen userinit
       (mpmain turns))"

end
