(* ===== verification/Paging.thy ===== *)
theory Paging
  imports Vm
begin

text \<open>
  What the page-table functions of \<^verbatim>\<open>vm.c\<close> do to the translation they define.  \<open>paging_ok\<close> is the
  well-formedness of a page directory: its page tables are different pages, none of them the directory
  or a free page.  \<open>mappages\<close> extends the translation by exactly the pages it is given and keeps
  well-formedness; \<open>copyout\<close> and \<open>deallocuvm\<close> end.
\<close>

section \<open>Entries of a page\<close>

lemma unat_idx:
  assumes "i < 1024" "unat (j :: uint) < 4"
  shows "unat (4 * of_nat i + j :: uint) = 4 * i + unat j"
proof -
  have "unat (4 * of_nat i :: uint) = 4 * i"
    using assms(1) unat32_of_nat [of "4 * i"] by simp
  then show ?thesis using assms unat32_add [of "4 * of_nat i" j] by simp
qed

lemma unat_idx0 [simp]: "i < 1024 \<Longrightarrow> unat (4 * of_nat i :: uint) = 4 * i"
  using unat_idx [of i 0] by simp

lemma entry_in_page:
  assumes "i < 1024" "unat j < 4"
  shows "in_page t (t + 4 * of_nat i + j)"
  using unat_idx [OF assms] assms by (simp add: in_page_def const_defs word_less_nat_alt add.assoc)

lemma entry_cong:
  assumes "i < 1024" "\<And>a. in_page t a \<Longrightarrow> m' a = m a"
  shows "rd32 m' (t + 4 * of_nat i) = rd32 m (t + 4 * of_nat i)"
  using assms(2) [OF entry_in_page [OF assms(1), of 0]] assms(2) [OF entry_in_page [OF assms(1), of 1]]
    assms(2) [OF entry_in_page [OF assms(1), of 2]] assms(2) [OF entry_in_page [OF assms(1), of 3]]
  by (simp add: rd32_def)

lemma entry_outside:
  assumes "i < 1024" "\<not> in_page t a"
  shows "wr32 m (t + 4 * of_nat i) v a = m a"
proof (rule wr32_other, rule ccontr)
  assume "\<not> 4 \<le> unat (a - (t + 4 * of_nat i))"
  then have "in_page t (t + 4 * of_nat i + (a - (t + 4 * of_nat i)))"
    using assms(1) by (intro entry_in_page) auto
  then show False using assms(2) by simp
qed

lemma entry_other:
  assumes "i < 1024" "j < 1024" "i \<noteq> j"
  shows "rd32 (wr32 m (t + 4 * of_nat i) v) (t + 4 * of_nat j) = rd32 m (t + 4 * of_nat j)"
proof -
  have far: "4 \<le> unat (4 * of_nat a - 4 * of_nat b :: uint)" if "a < 1024" "b < 1024" "a \<noteq> b" for a b
    using that by (simp add: unat_sub_if') linarith
  show ?thesis using far [OF assms(2,1)] far [OF assms(1,2)] assms(3) by (intro rd32_wr32_other) simp_all
qed

section \<open>Page numbers\<close>

lemma unat_PTX: "unat (PTX x) = unat x div 4096 mod 1024"
proof -
  have "(0x3FF :: uint) = mask 10" by (simp add: mask_eq_exp_minus_1)
  then show ?thesis by (simp only: PTX_def take_bit_eq_mask [symmetric] unsigned_take_bit_eq unat_drop_bit_eq)
      (simp add: take_bit_eq_mod drop_bit_eq_div)
qed

lemma unat_PDX: "unat (PDX x) = unat x div 4096 div 1024"
proof -
  have "(0x3FF :: uint) = mask 10" by (simp add: mask_eq_exp_minus_1)
  then have "unat (PDX x) = unat x div 2 ^ 22 mod 1024"
    by (simp only: PDX_def take_bit_eq_mask [symmetric] unsigned_take_bit_eq unat_drop_bit_eq)
      (simp add: take_bit_eq_mod drop_bit_eq_div)
  moreover have "unat x div 2 ^ 22 < 1024" using unat32_less [of x] by (simp add: less_mult_imp_div_less)
  ultimately show ?thesis by (simp add: div_mult2_eq [symmetric])
qed

lemma idx_less: "unat (PTX x) < 1024" "unat (PDX x) < 1024"
  using unat32_less [of x] by (simp_all add: unat_PTX unat_PDX less_mult_imp_div_less)

lemma offset_eq: "x AND 0xFFF = x mod PGSIZE"
proof -
  have "(0xFFF :: uint) = mask 12" by (simp add: mask_eq_exp_minus_1)
  then show ?thesis by (simp only: take_bit_eq_mask [symmetric] take_bit_eq_mod const_defs) simp
qed

lemma in_page_div:
  assumes "va mod PGSIZE = 0"
  shows "in_page va x \<longleftrightarrow> unat x div 4096 = unat va div 4096"
    and "in_page va x \<Longrightarrow> x AND 0xFFF = x - va"
proof -
  obtain q where q: "unat va = 4096 * q" using assms by (auto simp: mod_page_unat)
  have lt: "unat x < 4294967296" "unat va < 4294967296" using unat32_less [of x] unat32_less [of va] by simp_all
  have "in_page va x \<longleftrightarrow> unat (x - va) < 4096" by (simp add: in_page_def const_defs word_less_nat_alt)
  also have "\<dots> \<longleftrightarrow> unat va \<le> unat x \<and> unat x - unat va < 4096"
    using lt q by (auto simp: unat_sub_if')
  also have "\<dots> \<longleftrightarrow> unat x div 4096 = q" using q by auto
  finally show e: "in_page va x \<longleftrightarrow> unat x div 4096 = unat va div 4096" using q by simp
  assume "in_page va x"
  then have "unat x div 4096 = q" using e q by simp
  moreover have "unat (x mod PGSIZE) = unat x mod 4096" by (simp add: unat_mod const_defs)
  moreover have "unat x mod 4096 = unat x - 4096 * (unat x div 4096)" by (rule minus_mult_div_eq_mod [symmetric])
  moreover have "4096 * (unat x div 4096) \<le> unat x" by simp
  ultimately have "unat (x mod PGSIZE) = unat x - 4096 * q" "4096 * q \<le> unat x" by simp_all
  then have "unat (x mod PGSIZE) = unat (x - va)" using q by (simp add: unat_sub_if')
  then show "x AND 0xFFF = x - va" by (simp add: offset_eq word_unat_eq_iff)
qed

lemma same_page: "PDX x = PDX y \<and> PTX x = PTX y \<longleftrightarrow> unat x div 4096 = unat y div 4096"
  by (simp only: word_unat_eq_iff unat_PDX unat_PTX) (metis div_mod_decomp)

section \<open>Page directories\<close>

text \<open>The page table of a directory entry.\<close>

definition table :: "memory \<Rightarrow> uint \<Rightarrow> nat \<Rightarrow> uint option" where
  "table m pgdir i =
     (let e = rd32 m (pgdir + 4 * of_nat i) in if e AND PTE_P = 0 then None else Some (P2V (PTE_ADDR e)))"

definition paging_ok :: "memory \<Rightarrow> uint \<Rightarrow> bool" where
  "paging_ok m pgdir \<longleftrightarrow> pgdir mod PGSIZE = 0 \<and>
     (\<forall>i < 1024. \<forall>t. table m pgdir i = Some t \<longrightarrow> t \<noteq> pgdir \<and> t \<noteq> 0 \<and> (\<forall>j < 1024. table m pgdir j = Some t \<longrightarrow> j = i))"

text \<open>The free pages are \<open>fl\<close>, and the directory does not use them.\<close>

definition vm_ok :: "'a kmem_state_scheme \<Rightarrow> uint \<Rightarrow> uint list \<Rightarrow> bool" where
  "vm_ok k pgdir fl \<longleftrightarrow> free_rep k fl \<and> paging_ok (ram k) pgdir \<and> pgdir \<notin> set fl \<and>
     (\<forall>i < 1024. \<forall>t. table (ram k) pgdir i = Some t \<longrightarrow> t \<notin> set fl)"

lemma translate_table:
  "translate m pgdir x = (case table m pgdir (unat (PDX x)) of None \<Rightarrow> None
     | Some t \<Rightarrow> let e = rd32 m (t + 4 * of_nat (unat (PTX x))) in
         if e AND PTE_P = 0 then None else Some (P2V (PTE_ADDR e) + (x AND 0xFFF)))"
  by (simp add: translate_def table_def Let_def)

lemma mod_page_take: "p mod PGSIZE = take_bit 12 p"
  by (simp add: take_bit_eq_mod const_defs)

lemma aligned_PTE_ADDR: "PTE_ADDR e mod PGSIZE = 0"
proof -
  have m: "(0xFFF :: uint) = mask 12" by (simp add: mask_eq_exp_minus_1)
  have "take_bit 12 (e AND NOT (mask 12)) = 0"
    by (simp only: take_bit_eq_mask and.assoc bit.conj_cancel_left bit.conj_zero_right)
  then show ?thesis by (simp only: PTE_ADDR_def m mod_page_take)
qed

lemma aligned_shift:
  assumes "p mod PGSIZE = 0"
  shows "P2V p mod PGSIZE = 0" "V2P p mod PGSIZE = 0"
proof -
  have d: "4096 dvd unat p" "(4096 :: nat) dvd 2147483648" using assms by (auto simp: mod_page_unat)
  have p: "unat (p + KERNBASE) = (if unat p < 2147483648 then unat p + 2147483648 else unat p - 2147483648)"
    using unat32_plus_if [of p KERNBASE] by (simp add: const_defs)
  have "4096 dvd unat (p + KERNBASE)"
    unfolding p using d by (cases "unat p < 2147483648") (simp_all only: if_True if_False dvd_add dvd_diff_nat)
  then show "P2V p mod PGSIZE = 0" by (simp add: mod_page_unat P2V_def)
  moreover have "V2P p = P2V p" by (simp add: V2P_def P2V_def const_defs)
  ultimately show "V2P p mod PGSIZE = 0" by (simp only:)
qed

lemma table_aligned: "table m pgdir i = Some t \<Longrightarrow> t mod PGSIZE = 0"
  by (auto simp: table_def Let_def aligned_PTE_ADDR aligned_shift split: if_splits)

lemma entry_nonzero:
  assumes "t mod PGSIZE = 0" "t \<noteq> 0" "i < 1024"
  shows "t + 4 * of_nat i \<noteq> 0"
proof
  assume "t + 4 * of_nat i = 0"
  then have "in_page t 0" using entry_in_page [OF assms(3), of 0 t] by simp
  then show False using in_page_disjoint [of t 0 0] assms by simp
qed

text \<open>A page address with flags splits into the two.\<close>

lemma and_not_disjoint:
  fixes a b :: uint
  assumes "a AND b = 0"
  shows "a AND NOT b = a"
proof -
  have "a = (a AND b) OR (a AND NOT b)" by (simp flip: bit.conj_disj_distrib)
  then show ?thesis using assms by simp
qed

lemma entry_split:
  assumes "a mod PGSIZE = 0" "f AND NOT 0xFFF = 0"
  shows "PTE_ADDR (a OR f) = a" "PTE_FLAGS (a OR f) = f"
proof -
  have a: "a AND 0xFFF = 0" "a AND NOT 0xFFF = a"
    using assms(1) and_not_disjoint [of a "0xFFF"] by (simp_all only: offset_eq)
  have f: "f AND 0xFFF = f" using and_not_disjoint [OF assms(2)] by (simp only: bit.double_compl)
  show "PTE_ADDR (a OR f) = a" by (simp only: PTE_ADDR_def bit.conj_disj_distrib2 assms(2) a or.right_neutral)
  show "PTE_FLAGS (a OR f) = f" by (simp only: PTE_FLAGS_def bit.conj_disj_distrib2 f a or.left_neutral)
qed

lemma table_cong:
  assumes "i < 1024" "\<And>a. in_page pgdir a \<Longrightarrow> m' a = m a"
  shows "table m' pgdir i = table m pgdir i"
  using entry_cong [OF assms] by (simp add: table_def)

section \<open>Adding a page table\<close>

definition with_table :: "uint \<Rightarrow> uint \<Rightarrow> uint \<Rightarrow> memory \<Rightarrow> memory" where
  "with_table pgdir va p m = wr32 (memset m p 0 PGSIZE) (pgdir + 4 * PDX va) (V2P p OR PTE_P OR PTE_W OR PTE_U)"

lemma memset_outside: "\<not> in_page p a \<Longrightarrow> memset m p 0 PGSIZE a = m a"
  by (simp add: memset_closed in_page_def)

lemma with_table_outside:
  assumes "\<not> in_page pgdir a" "\<not> in_page p a"
  shows "with_table pgdir va p m a = m a"
  using entry_outside [OF idx_less(2) [of va] assms(1)] memset_outside [OF assms(2)] by (simp add: with_table_def)

lemma table_with_table:
  assumes "p mod PGSIZE = 0" "pgdir mod PGSIZE = 0" "p \<noteq> pgdir" "i < 1024"
  shows "table (with_table pgdir va p m) pgdir i = (if i = unat (PDX va) then Some p else table m pgdir i)"
proof (cases "i = unat (PDX va)")
  case True
  have f: "(PTE_P OR PTE_W OR PTE_U) AND NOT 0xFFF = 0" "(PTE_P OR PTE_W OR PTE_U) AND PTE_P \<noteq> 0"
    by (simp_all add: pte_consts)
  have "(V2P p OR PTE_P OR PTE_W OR PTE_U) AND PTE_P \<noteq> 0"
    using f(2) by (simp add: bit.conj_disj_distrib2 or_eq_0_iff)
  then show ?thesis
    using True entry_split(1) [OF aligned_shift(2) [OF assms(1)] f(1)]
    by (simp add: table_def with_table_def P2V_def V2P_def)
next
  case False
  have "rd32 (with_table pgdir va p m) (pgdir + 4 * of_nat i) = rd32 (memset m p 0 PGSIZE) (pgdir + 4 * of_nat i)"
    using entry_other [OF idx_less(2) [of va] assms(4)] False by (simp add: with_table_def)
  also have "\<dots> = rd32 m (pgdir + 4 * of_nat i)"
    using assms in_page_disjoint [of p pgdir] by (intro entry_cong memset_outside) auto
  finally show ?thesis using False by (simp add: table_def)
qed

lemma with_table_entries:
  assumes "p mod PGSIZE = 0" "pgdir mod PGSIZE = 0" "p \<noteq> pgdir" "i < 1024"
  shows "rd32 (with_table pgdir va p m) (p + 4 * of_nat i) = 0"
proof -
  have "with_table pgdir va p m a = 0" if "in_page p a" for a
  proof -
    have "\<not> in_page pgdir a" using that assms in_page_disjoint [of p pgdir a] by auto
    then show ?thesis using entry_outside [OF idx_less(2) [of va]] that
      by (simp add: with_table_def memset_closed in_page_def)
  qed
  then have "rd32 (with_table pgdir va p m) (p + 4 * of_nat i) = rd32 (\<lambda>_. 0) (p + 4 * of_nat i)"
    by (intro entry_cong [OF assms(4)]) simp
  then show ?thesis by (simp add: rd32_def)
qed

lemma vm_okD:
  assumes "vm_ok k pgdir fl"
  shows "free_rep k fl" "pgdir mod PGSIZE = 0" "pgdir \<notin> set fl" "\<And>p. p \<in> set fl \<Longrightarrow> p mod PGSIZE = 0"
    and "\<And>i t. i < 1024 \<Longrightarrow> table (ram k) pgdir i = Some t \<Longrightarrow> t \<notin> set fl \<and> t \<noteq> pgdir \<and> t \<noteq> 0"
    and "\<And>i j t. i < 1024 \<Longrightarrow> j < 1024 \<Longrightarrow> table (ram k) pgdir i = Some t \<Longrightarrow> table (ram k) pgdir j = Some t \<Longrightarrow> i = j"
  using assms by (auto simp: vm_ok_def paging_ok_def free_rep_def page_ok_def)

lemma vm_okI:
  assumes "free_rep k fl" "pgdir mod PGSIZE = 0" "pgdir \<notin> set fl"
    and "\<And>i t. i < 1024 \<Longrightarrow> table (ram k) pgdir i = Some t \<Longrightarrow> t \<notin> set fl \<and> t \<noteq> pgdir \<and> t \<noteq> 0"
    and "\<And>i j t. i < 1024 \<Longrightarrow> j < 1024 \<Longrightarrow> table (ram k) pgdir i = Some t \<Longrightarrow> table (ram k) pgdir j = Some t \<Longrightarrow> i = j"
  shows "vm_ok k pgdir fl"
  using assms by (auto simp: vm_ok_def paging_ok_def)

lemma with_table_ok:
  assumes v: "vm_ok k pgdir (p # fl)" and none: "table (ram k) pgdir (unat (PDX va)) = None"
  shows "vm_ok (k\<lparr>freelist := rd32 (ram k) p, ram := with_table pgdir va p (ram k)\<rparr>) pgdir fl"
    and "translate (with_table pgdir va p (ram k)) pgdir x = translate (ram k) pgdir x"
proof -
  note d = vm_okD [OF v]
  have p: "p mod PGSIZE = 0" "p \<noteq> pgdir" "p \<noteq> 0" "p \<notin> set fl" using d(3,4) free_rep_Cons [OF d(1)] by auto
  note tab = table_with_table [OF p(1) d(2) p(2), of _ va "ram k"]
  have keep: "with_table pgdir va p (ram k) a = ram k a" if "t mod PGSIZE = 0" "t \<noteq> p" "t \<noteq> pgdir" "in_page t a" for t a
    using that p d(2) in_page_disjoint [of t p a] in_page_disjoint [of t pgdir a] by (intro with_table_outside) auto
  have kfl: "with_table pgdir va p (ram k) a = ram k a" if "q \<in> set fl" "in_page q a" for q a
    using that d(3) d(4) [of q] p(4) by (intro keep [of q]) auto
  have "free_rep (k\<lparr>freelist := rd32 (ram k) p\<rparr>) fl" using free_rep_Cons [OF d(1)] by blast
  then have fr: "free_rep (k\<lparr>freelist := rd32 (ram k) p, ram := with_table pgdir va p (ram k)\<rparr>) fl"
    by (rule free_rep_frame) (simp_all add: kfl)
  show "vm_ok (k\<lparr>freelist := rd32 (ram k) p, ram := with_table pgdir va p (ram k)\<rparr>) pgdir fl"
  proof (rule vm_okI [OF fr d(2)])
    fix i j t
    assume "i < 1024" "table (ram (k\<lparr>freelist := rd32 (ram k) p, ram := with_table pgdir va p (ram k)\<rparr>)) pgdir i = Some t"
    then have i: "if i = unat (PDX va) then t = p else table (ram k) pgdir i = Some t" "i < 1024" using tab [of i] by (auto split: if_splits)
    then show "t \<notin> set fl \<and> t \<noteq> pgdir \<and> t \<noteq> 0" using p d(5) [of i t] by (auto split: if_splits)
    assume "j < 1024" "table (ram (k\<lparr>freelist := rd32 (ram k) p, ram := with_table pgdir va p (ram k)\<rparr>)) pgdir j = Some t"
    then have "if j = unat (PDX va) then t = p else table (ram k) pgdir j = Some t" using tab [of j] by (auto split: if_splits)
    then show "i = j" using i d(5) [of i p] d(5) [of j p] d(6) [of i j t] \<open>j < 1024\<close> by (auto split: if_splits)
  qed (use d(3) in simp)
  show "translate (with_table pgdir va p (ram k)) pgdir x = translate (ram k) pgdir x"
  proof (cases "unat (PDX x) = unat (PDX va)")
    case True
    then show ?thesis
      using tab [OF idx_less(2) [of x]] none with_table_entries [OF p(1) d(2) p(2) idx_less(1) [of x], of va "ram k"]
      by (simp add: translate_table)
  next
    case False
    have "rd32 (with_table pgdir va p (ram k)) (t + 4 * of_nat (unat (PTX x))) = rd32 (ram k) (t + 4 * of_nat (unat (PTX x)))"
      if "table (ram k) pgdir (unat (PDX x)) = Some t" for t
      using d(5) [OF idx_less(2) that] keep [OF table_aligned [OF that]] by (intro entry_cong idx_less) auto
    then show ?thesis using False tab [OF idx_less(2) [of x]] by (simp add: translate_table split: option.split)
  qed
qed

section \<open>Setting an entry\<close>

lemma set_entry_ok:
  assumes v: "vm_ok k pgdir fl" and t: "table (ram k) pgdir (unat (PDX va)) = Some t"
    and "va mod PGSIZE = 0" "pa mod PGSIZE = 0" "perm AND NOT 0xFFF = 0"
  defines "m' \<equiv> wr32 (ram k) (t + 4 * PTX va) (pa OR perm OR PTE_P)"
  shows "vm_ok (k\<lparr>ram := m'\<rparr>) pgdir fl"
    and "translate m' pgdir x = (if in_page va x then Some (P2V pa + (x - va)) else translate (ram k) pgdir x)"
proof -
  note d = vm_okD [OF v]
  note d5 = d(5) [OF idx_less(2) t] and ta = table_aligned [OF t]
  have keep: "m' a = ram k a" if "q mod PGSIZE = 0" "q \<noteq> t" "in_page q a" for q a
    using that ta in_page_disjoint [of q t a] entry_outside [OF idx_less(1) [of va]] by (auto simp: m'_def)
  have kfl: "m' a = ram k a" if "q \<in> set fl" "in_page q a" for q a
    using that d(4) [of q] d5 by (intro keep [of q]) auto
  have tab: "table m' pgdir i = table (ram k) pgdir i" if "i < 1024" for i
    using that d(2) d5 by (intro table_cong keep [of pgdir]) auto
  have "free_rep (k\<lparr>ram := m'\<rparr>) fl"
    using d(1) by (rule free_rep_frame) (simp_all add: kfl)
  then show "vm_ok (k\<lparr>ram := m'\<rparr>) pgdir fl"
    by (rule vm_okI) (use d tab in auto)
  have e: "PTE_ADDR (pa OR perm OR PTE_P) = pa" "(pa OR perm OR PTE_P) AND PTE_P \<noteq> 0"
  proof -
    have "(perm OR PTE_P) AND NOT 0xFFF = 0" using assms(5) by (simp add: bit.conj_disj_distrib2 pte_consts)
    then show "PTE_ADDR (pa OR perm OR PTE_P) = pa" by (rule entry_split(1) [OF assms(4)])
    show "(pa OR perm OR PTE_P) AND PTE_P \<noteq> 0" by (simp add: bit.conj_disj_distrib2 or_eq_0_iff pte_consts)
  qed
  show "translate m' pgdir x = (if in_page va x then Some (P2V pa + (x - va)) else translate (ram k) pgdir x)"
  proof (cases "in_page va x")
    case True
    then have "PDX x = PDX va" "PTX x = PTX va" using in_page_div(1) [OF assms(3)] same_page [of x va] by auto
    then show ?thesis using True t e tab [OF idx_less(2) [of va]] in_page_div(2) [OF assms(3) True]
      by (simp add: translate_table m'_def)
  next
    case False
    then have ne: "PDX x \<noteq> PDX va \<or> PTX x \<noteq> PTX va" using in_page_div(1) [OF assms(3)] same_page [of x va] by auto
    have "rd32 m' (s + 4 * of_nat (unat (PTX x))) = rd32 (ram k) (s + 4 * of_nat (unat (PTX x)))"
      if s: "table (ram k) pgdir (unat (PDX x)) = Some s" for s
    proof (cases "s = t")
      case True
      then have "PDX x = PDX va" using d(6) [OF idx_less(2) idx_less(2) s] t by (simp add: word_unat_eq_iff)
      then have "unat (PTX va) \<noteq> unat (PTX x)" using ne by (simp add: word_unat_eq_iff)
      then show ?thesis using True entry_other [OF idx_less(1) [of va] idx_less(1) [of x]] by (simp add: m'_def)
    next
      case False
      then show ?thesis using table_aligned [OF s] by (intro entry_cong idx_less keep [of s]) auto
    qed
    then show ?thesis using False tab [OF idx_less(2) [of x]] by (simp add: translate_table split: option.split)
  qed
qed

section \<open>mappages\<close>

lemma walkpgdir_ok:
  assumes "mach_ok m" "lock_free KmemLock m" "vm_ok k pgdir (p # fl)"
  shows "\<exists>k1 fl1 t. walkpgdir pgdir va True m k = Inr (t + 4 * PTX va, m, k1) \<and> vm_ok k1 pgdir fl1 \<and>
    table (ram k1) pgdir (unat (PDX va)) = Some t \<and> translate (ram k1) pgdir = translate (ram k) pgdir \<and>
    length fl \<le> length fl1 \<and> set fl1 \<subseteq> set (p # fl)"
proof (cases "table (ram k) pgdir (unat (PDX va))")
  case None
  define k1 where "k1 = k\<lparr>freelist := rd32 (ram k) p, ram := with_table pgdir va p (ram k)\<rparr>"
  note d = vm_okD [OF assms(3)] and f = free_rep_Cons [OF vm_okD(1) [OF assms(3)]]
  have z: "rd32 (ram k) (pgdir + 4 * PDX va) AND PTE_P = 0" using None by (simp add: table_def Let_def split: if_splits)
  have "walkpgdir pgdir va True m k = Inr (p + 4 * PTX va, m, k1)"
    using z f kalloc_some [OF assms(1,2), of k] by (simp add: walkpgdir_def km_simps k1_def with_table_def)
  moreover have "vm_ok k1 pgdir fl" "translate (ram k1) pgdir = translate (ram k) pgdir"
    using with_table_ok [OF assms(3) None] by (auto simp: k1_def)
  moreover have "table (ram k1) pgdir (unat (PDX va)) = Some p"
    using table_with_table [of p pgdir "unat (PDX va)" va "ram k"] d(2,3) d(4) [of p] idx_less(2) by (auto simp: k1_def)
  ultimately show ?thesis by (intro exI [of _ k1] exI [of _ fl] exI [of _ p]) auto
next
  case (Some t)
  then have "walkpgdir pgdir va True m k = Inr (t + 4 * PTX va, m, k)"
    by (simp add: walkpgdir_def km_simps table_def Let_def split: if_splits)
  then show ?thesis using Some assms(3) by (intro exI [of _ k] exI [of _ "p # fl"] exI [of _ t]) auto
qed

lemma map_page_ok:
  assumes "mach_ok m" "lock_free KmemLock m" "vm_ok k pgdir (p # fl)" "va mod PGSIZE = 0" "pa mod PGSIZE = 0"
    and "perm AND NOT 0xFFF = 0" "translate (ram k) pgdir va = None"
  shows "\<exists>k1 fl1. map_page pgdir va pa perm m k = Inr (0, m, k1) \<and> vm_ok k1 pgdir fl1 \<and>
    length fl \<le> length fl1 \<and> set fl1 \<subseteq> set (p # fl) \<and>
    (\<forall>x. translate (ram k1) pgdir x = (if in_page va x then Some (P2V pa + (x - va)) else translate (ram k) pgdir x))"
proof -
  obtain k1 fl1 t where w: "walkpgdir pgdir va True m k = Inr (t + 4 * PTX va, m, k1)" "vm_ok k1 pgdir fl1"
    "table (ram k1) pgdir (unat (PDX va)) = Some t" "translate (ram k1) pgdir = translate (ram k) pgdir"
    "length fl \<le> length fl1" "set fl1 \<subseteq> set (p # fl)"
    using walkpgdir_ok [OF assms(1-3)] by blast
  define k2 where "k2 = k1\<lparr>ram := wr32 (ram k1) (t + 4 * PTX va) (pa OR perm OR PTE_P)\<rparr>"
  note s = set_entry_ok [OF w(2,3) assms(4-6)]
  have "t + 4 * PTX va \<noteq> 0"
    using entry_nonzero [OF table_aligned [OF w(3)] _ idx_less(1) [of va]] vm_okD(5) [OF w(2) idx_less(2) w(3)] by simp
  moreover have "translate (ram k1) pgdir va = None" using assms(7) w(4) by simp
  then have "rd32 (ram k1) (t + 4 * PTX va) AND PTE_P = 0" using w(3) by (simp add: translate_table Let_def split: if_splits)
  ultimately have "map_page pgdir va pa perm m k = Inr (0, m, k2)"
    using w(1) by (simp add: map_page_def km_simps k2_def)
  then show ?thesis using s w(4-6) by (intro exI [of _ k2] exI [of _ fl1]) (simp add: k2_def)
qed

text \<open>The addresses of \<open>n\<close> pages from \<open>va\<close>.\<close>

definition in_pages :: "nat \<Rightarrow> uint \<Rightarrow> uint \<Rightarrow> bool" where
  "in_pages n va x \<longleftrightarrow> unat (x - va) < n * 4096"

lemma in_pages_Suc:
  assumes "Suc n * 4096 \<le> 2 ^ 32"
  shows "in_pages (Suc n) va x \<longleftrightarrow> in_page va x \<or> in_pages n (va + PGSIZE) x"
    and "in_page va x \<Longrightarrow> \<not> in_pages n (va + PGSIZE) x"
proof -
  have e: "x - (va + PGSIZE) = (x - va) - 4096" by (simp add: const_defs)
  have p: "in_page va x \<longleftrightarrow> unat (x - va) < 4096" by (simp add: in_page_def const_defs word_less_nat_alt)
  have u: "unat (x - va - 4096) = (if 4096 \<le> unat (x - va) then unat (x - va) - 4096 else unat (x - va) + 4294967296 - 4096)"
    by (simp add: unat_sub_if')
  show "in_pages (Suc n) va x \<longleftrightarrow> in_page va x \<or> in_pages n (va + PGSIZE) x"
    "in_page va x \<Longrightarrow> \<not> in_pages n (va + PGSIZE) x"
    unfolding in_pages_def e u p using assms by auto
qed

lemma aligned_next: "p mod PGSIZE = 0 \<Longrightarrow> (p + PGSIZE) mod PGSIZE = 0"
proof -
  assume "p mod PGSIZE = 0"
  then have d: "4096 dvd unat p" by (auto simp: mod_page_unat)
  have "unat (p + PGSIZE) = (if unat p + 4096 < 4294967296 then unat p + 4096 else unat p + 4096 - 4294967296)"
    using unat32_plus_if [of p PGSIZE] by (simp add: const_defs)
  moreover have "4096 dvd unat p + 4096 - 4294967296" using d by (intro dvd_diff_nat dvd_add) simp_all
  ultimately have "4096 dvd unat (p + PGSIZE)" using d by simp
  then show ?thesis by (simp add: mod_page_unat)
qed

lemma mappages_loop_ok:
  assumes "mach_ok m" "lock_free KmemLock m" "perm AND NOT 0xFFF = 0"
  shows "vm_ok k pgdir fl \<Longrightarrow> n < length fl \<Longrightarrow> Suc n * 4096 \<le> 2 ^ 32 \<Longrightarrow> va mod PGSIZE = 0 \<Longrightarrow> pa mod PGSIZE = 0 \<Longrightarrow>
    (\<And>x. in_pages (Suc n) va x \<Longrightarrow> translate (ram k) pgdir x = None) \<Longrightarrow>
    \<exists>k1 fl1. mappages_loop n pgdir va pa perm m k = Inr (0, m, k1) \<and> vm_ok k1 pgdir fl1 \<and> set fl1 \<subseteq> set fl \<and>
    (\<forall>x. translate (ram k1) pgdir x = (if in_pages (Suc n) va x then Some (P2V pa + (x - va)) else translate (ram k) pgdir x))"
proof (induction n arbitrary: k fl va pa)
  case 0
  then obtain p fl0 where fl: "fl = p # fl0" by (cases fl) auto
  have e: "in_pages (Suc 0) va x = in_page va x" for x using in_pages_Suc(1) [of 0] by (simp add: in_pages_def)
  show ?case using map_page_ok [OF assms(1,2) _ 0(4,5) assms(3), of k pgdir p fl0] 0(1,6) unfolding fl e by auto
next
  case (Suc n)
  obtain p fl0 where fl: "fl = p # fl0" using Suc.prems(2) by (cases fl) auto
  have 2: "Suc n * 4096 \<le> 2 ^ 32" using Suc.prems(3) by simp
  note pages = in_pages_Suc [OF Suc.prems(3)]
  obtain k1 fl1 where k1: "map_page pgdir va pa perm m k = Inr (0, m, k1)" "vm_ok k1 pgdir fl1" "length fl0 \<le> length fl1" "set fl1 \<subseteq> set fl"
    "\<And>x. translate (ram k1) pgdir x = (if in_page va x then Some (P2V pa + (x - va)) else translate (ram k) pgdir x)"
    using map_page_ok [OF assms(1,2) _ Suc.prems(4,5) assms(3), of k pgdir p fl0] Suc.prems(1) Suc.prems(6) [of va] pages(1) [of va va]
    unfolding fl by auto
  have "translate (ram k1) pgdir x = None" if "in_pages (Suc n) (va + PGSIZE) x" for x
    using that Suc.prems(6) [of x] pages [of va x] k1(5) [of x] by auto
  then obtain k2 fl2 where k2: "mappages_loop n pgdir (va + PGSIZE) (pa + PGSIZE) perm m k1 = Inr (0, m, k2)" "vm_ok k2 pgdir fl2"
    "set fl2 \<subseteq> set fl1" "\<And>x. translate (ram k2) pgdir x = (if in_pages (Suc n) (va + PGSIZE) x
       then Some (P2V (pa + PGSIZE) + (x - (va + PGSIZE))) else translate (ram k1) pgdir x)"
    using Suc.IH [OF k1(2) _ 2 aligned_next [OF Suc.prems(4)] aligned_next [OF Suc.prems(5)]] Suc.prems(2) k1(3) unfolding fl by auto
  have "P2V (pa + PGSIZE) + (x - (va + PGSIZE)) = P2V pa + (x - va)" for x by (simp add: P2V_def)
  then have "translate (ram k2) pgdir x = (if in_pages (Suc (Suc n)) va x then Some (P2V pa + (x - va)) else translate (ram k) pgdir x)" for x
    using k2(4) [of x] k1(5) [of x] pages [of va x] by auto
  moreover have "mappages_loop (Suc n) pgdir va pa perm m k = Inr (0, m, k2)" using k1(1) k2(1) by (simp add: km_simps)
  ultimately show ?case using k2(2,3) k1(4) by blast
qed

lemma PGROUNDDOWN_page: "q mod PGSIZE = 0 \<Longrightarrow> in_page q x \<Longrightarrow> PGROUNDDOWN x = q"
proof -
  assume q: "q mod PGSIZE = 0" "in_page q x"
  have "(x AND 0xFFF) + (x AND NOT 0xFFF) = x"
    using word_plus_and_or [of "x AND 0xFFF" "x AND NOT 0xFFF"] by (simp add: and.assoc and.left_commute flip: bit.conj_disj_distrib)
  then have "PGROUNDDOWN x = x - (x AND 0xFFF)" by (simp add: PGROUNDDOWN_def const_defs algebra_simps)
  then show ?thesis using in_page_div(2) [OF q] by simp
qed

lemma aligned_nth: "va mod PGSIZE = 0 \<Longrightarrow> (va + of_nat n * PGSIZE) mod PGSIZE = 0"
proof (induction n)
  case (Suc n)
  then show ?case using aligned_next [of "va + of_nat n * PGSIZE"] by (simp add: algebra_simps)
qed simp

lemma mappages_pages:
  assumes "va mod PGSIZE = 0" "Suc n * 4096 < 2 ^ 32"
  shows "mappages pgdir va (of_nat (Suc n) * PGSIZE) pa perm = mappages_loop n pgdir va pa perm"
proof -
  have "va + of_nat (Suc n) * PGSIZE - 1 - (va + of_nat n * PGSIZE) = PGSIZE - 1" by (simp add: algebra_simps)
  then have "in_page (va + of_nat n * PGSIZE) (va + of_nat (Suc n) * PGSIZE - 1)"
    unfolding in_page_def by (simp only:) (simp add: const_defs)
  then have "PGROUNDDOWN (va + of_nat (Suc n) * PGSIZE - 1) = va + of_nat n * PGSIZE"
    by (rule PGROUNDDOWN_page [OF aligned_nth [OF assms(1)]])
  moreover have "unat (of_nat n * PGSIZE) = n * 4096"
    using assms(2) unat32_of_nat [of "n * 4096"] by (simp add: const_defs)
  ultimately show ?thesis
    using PGROUNDDOWN_page [OF assms(1) in_page_self] by (simp add: mappages_def Let_def del: of_nat_Suc) (simp add: const_defs)
qed

section \<open>Loops that end\<close>

lemma page_left:
  assumes "va0 = PGROUNDDOWN va"
  shows "0 < unat (PGSIZE - (va - va0))"
proof -
  have "(va AND 0xFFF) + (va AND NOT 0xFFF) = va"
    using word_plus_and_or [of "va AND 0xFFF" "va AND NOT 0xFFF"] by (simp add: and.assoc and.left_commute flip: bit.conj_disj_distrib)
  then have "va - va0 = va mod PGSIZE" by (simp add: assms PGROUNDDOWN_def const_defs offset_eq [unfolded const_defs, symmetric] algebra_simps)
  moreover have "va mod PGSIZE < PGSIZE" by (simp add: const_defs word_mod_less_divisor)
  ultimately show ?thesis by (simp add: unat_gt_0)
qed

text \<open>What \<open>copyout\<close> may end with: a result, or the null pointer that \<open>uva2ka\<close> follows.\<close>

definition copy_ends :: "mach \<Rightarrow> 'a kmem_state_scheme \<Rightarrow> kerr + int \<times> mach \<times> 'a kmem_state_scheme \<Rightarrow> bool" where
  "copy_ends m k r \<longleftrightarrow> r = Inl (Fault ''uva2ka'') \<or> (\<exists>v \<in> {0, -1}. \<exists>mem. r = Inr (v, m, k\<lparr>ram := mem\<rparr>))"

lemma uva2ka_cases:
  "uva2ka pgdir va m k = Inl (Fault ''uva2ka'') \<or> (\<exists>pa. uva2ka pgdir va m k = Inr (pa, m, k))"
  by (simp add: uva2ka_def walkpgdir_def km_simps)

lemma copyout_loop_ends: "length bs \<le> t \<Longrightarrow> copy_ends m k (copyout_loop t pgdir va bs m k)"
proof (induction t arbitrary: va bs k)
  case 0
  then show ?case by (auto simp: copy_ends_def km_simps intro!: exI [of _ "ram k"])
next
  case (Suc t)
  define va0 n where "va0 = PGROUNDDOWN va" and "n = min (unat (PGSIZE - (va - va0))) (length bs)"
  consider "bs = []" | "bs \<noteq> []" "uva2ka pgdir va0 m k = Inl (Fault ''uva2ka'')"
    | pa where "bs \<noteq> []" "uva2ka pgdir va0 m k = Inr (pa, m, k)"
    using uva2ka_cases [of pgdir va0 m k] by blast
  then show ?case
  proof cases
    case 1
    then show ?thesis by (auto simp: copy_ends_def km_simps intro!: exI [of _ "ram k"])
  next
    case 2
    then show ?thesis by (simp add: copy_ends_def km_simps va0_def Let_def)
  next
    case 3
    define k1 where "k1 = k\<lparr>ram := wr_bytes (ram k) (pa + (va - va0)) (take n bs)\<rparr>"
    have "length (drop n bs) \<le> t" using Suc.prems page_left [OF va0_def] 3(1) by (cases bs) (auto simp: n_def)
    then have "copy_ends m k1 (copyout_loop t pgdir (va0 + PGSIZE) (drop n bs) m k1)" by (rule Suc.IH)
    then have "copy_ends m k (copyout_loop t pgdir (va0 + PGSIZE) (drop n bs) m k1)" by (auto simp: copy_ends_def k1_def)
    moreover have "copy_ends m k (Inr (-1, m, k))" by (auto simp: copy_ends_def intro!: exI [of _ "ram k"])
    ultimately show ?thesis using 3 by (simp add: km_simps Let_def k1_def n_def flip: va0_def)
  qed
qed

lemma next_table:
  assumes "unat a < 2147483648" "unat a mod 4096 = 0"
  shows "unat a + 4096 \<le> unat (PGADDR (PDX a + 1) 0 0)" "unat (PGADDR (PDX a + 1) 0 0) mod 4096 = 0"
proof -
  obtain q where q: "unat a = 4096 * q" using assms(2) by auto
  have d: "unat (PDX a) = q div 1024" "q div 1024 < 512" using q assms(1) by (auto simp: unat_PDX)
  have "PDX a + 1 = of_nat (q div 1024 + 1)" using arg_cong [OF d(1), of "of_nat :: nat \<Rightarrow> uint"] by simp
  then have "PGADDR (PDX a + 1) 0 0 = of_nat ((q div 1024 + 1) * 4194304)"
    by (simp only: PGADDR_def push_bit_eq_mult) simp
  then have p: "unat (PGADDR (PDX a + 1) 0 0) = (q div 1024 + 1) * 4194304"
    using d(2) unat32_of_nat [of "(q div 1024 + 1) * 4194304"] by (simp only:) simp
  have "Suc q \<le> (q div 1024 + 1) * 1024" using dividend_less_div_times [of 1024 q] by simp
  from mult_le_mono2 [OF this, of 4096]
  show "unat a + 4096 \<le> unat (PGADDR (PDX a + 1) 0 0)" unfolding p q by (simp add: algebra_simps)
  show "unat (PGADDR (PDX a + 1) 0 0) mod 4096 = 0" unfolding p by (intro dvd_imp_mod_0 dvd_mult) simp
qed

lemma next_page:
  assumes "unat a < 2147483648" "unat a mod 4096 = 0"
  shows "unat (a + PGSIZE) = unat a + 4096" "unat (a + PGSIZE) mod 4096 = 0"
proof -
  show "unat (a + PGSIZE) = unat a + 4096" using assms(1) unat32_add [of a PGSIZE] by (simp add: const_defs)
  then show "unat (a + PGSIZE) mod 4096 = 0" using assms(2) by simp
qed

definition dealloc_ends :: "mach \<Rightarrow> kerr + 'b \<times> mach \<times> 'c \<Rightarrow> bool" where
  "dealloc_ends m r \<longleftrightarrow> r = Inl (Panic ''kfree'') \<or> (\<exists>v k'. r = Inr (v, m, k'))"

lemma deallocuvm_loop_ends:
  fixes k :: "'a kmem_state_scheme"
  assumes "mach_ok m" "lock_free KmemLock m" "unat oldsz \<le> 2147483648"
  shows "unat a mod 4096 = 0 \<Longrightarrow> unat oldsz \<le> unat a + n * 4096 \<Longrightarrow> dealloc_ends m (deallocuvm_loop n pgdir oldsz a m k)"
proof (induction n arbitrary: a k)
  case 0
  then show ?case by (simp add: dealloc_ends_def km_simps word_less_nat_alt)
next
  case (Suc n)
  show ?case
  proof (cases "a < oldsz")
    case False
    then show ?thesis by (simp add: dealloc_ends_def km_simps)
  next
    case True
    then have a: "unat a < 2147483648" using assms(3) by (simp add: word_less_nat_alt)
    have tab: "dealloc_ends m (deallocuvm_loop n pgdir oldsz (PGADDR (PDX a + 1) 0 0) m k')" for k' :: "'a kmem_state_scheme"
      using next_table [OF a Suc.prems(1)] Suc.prems(2) by (intro Suc.IH) auto
    have pg: "dealloc_ends m (deallocuvm_loop n pgdir oldsz (a + PGSIZE) m k')" for k' :: "'a kmem_state_scheme"
      using next_page [OF a Suc.prems(1)] Suc.prems(2) by (intro Suc.IH) auto
    have fr: "kfree q m k = Inl (Panic ''kfree'') \<or> kfree q m k = Inr ((), m, kfreed q k)" for q
      using kfree_step [OF assms(1,2), of k q] kfree_bad [of k q m] by blast
    have "\<exists>pte. walkpgdir pgdir a False m k = Inr (pte, m, k)"
      by (cases "rd32 (ram k) (pgdir + 4 * PDX a) AND PTE_P = 0") (simp_all add: walkpgdir_def km_simps)
    then obtain pte where w: "walkpgdir pgdir a False m k = Inr (pte, m, k)" by blast
    have panic: "dealloc_ends m (Inl (Panic ''kfree''))" by (simp add: dealloc_ends_def)
    show ?thesis
    proof (cases "pte = 0 \<or> rd32 (ram k) pte AND PTE_P = 0 \<or> PTE_ADDR (rd32 (ram k) pte) = 0")
      case True
      then show ?thesis using \<open>a < oldsz\<close> w tab pg panic by (auto simp: km_simps)
    next
      case False
      then show ?thesis using \<open>a < oldsz\<close> w pg panic fr [of "P2V (PTE_ADDR (rd32 (ram k) pte))"] by (auto simp: km_simps)
    qed
  qed
qed

lemma aligned_PGROUNDUP: "unat (PGROUNDUP a) mod 4096 = 0"
  using aligned_PTE_ADDR [of "a + PGSIZE - 1"] by (simp add: PGROUNDUP_def PTE_ADDR_def const_defs mod_page_unat [unfolded const_defs])

section \<open>Properties\<close>

text \<open>C3: \<open>mappages\<close> maps the \<open>n\<close> pages from \<open>va\<close> to the pages from \<open>pa\<close> and changes no other translation,
  when they are not mapped and enough pages are free.  The directory stays well-formed: page tables are
  different pages, and neither they nor the directory are free.\<close>

theorem mappages_translates:
  assumes "mach_ok m" "lock_free KmemLock m" "vm_ok k pgdir fl" "0 < n" "n \<le> length fl" "n * 4096 < 2 ^ 32"
    and "va mod PGSIZE = 0" "pa mod PGSIZE = 0" "perm AND NOT 0xFFF = 0"
    and "\<forall>x. in_pages n va x \<longrightarrow> translate (ram k) pgdir x = None"
  shows "\<exists>k' fl'. mappages pgdir va (of_nat n * PGSIZE) pa perm m k = Inr (0, m, k') \<and> vm_ok k' pgdir fl' \<and> set fl' \<subseteq> set fl \<and>
    (\<forall>x. translate (ram k') pgdir x = (if in_pages n va x then Some (P2V pa + (x - va)) else translate (ram k) pgdir x))"
proof -
  obtain j where j: "n = Suc j" using assms(4) by (cases n) auto
  show ?thesis
    unfolding j mappages_pages [OF assms(7) assms(6) [unfolded j]]
    by (rule mappages_loop_ok [OF assms(1,2,9,3) _ _ assms(7,8)]) (use assms(5,6,10) j in auto)
qed

lemma two_pages_vm: "vm_ok two_pages 0x80402000 [0x80400000, 0x80401000]" "translate (ram two_pages) 0x80402000 x = None"
proof -
  have "ram two_pages a = 0" if "in_page 0x80402000 a" for a
  proof -
    have "\<not> in_page 0x80400000 a" "\<not> in_page 0x80401000 a"
      using in_page_disjoint [OF _ _ that, of "0x80400000"] in_page_disjoint [OF _ _ that, of "0x80401000"] by (auto simp: const_defs)
    then show ?thesis using entry_outside [of 0 "0x80400000" a] entry_outside [of 0 "0x80401000" a] by (simp add: two_pages_def)
  qed
  then have "rd32 (ram two_pages) (0x80402000 + 4 * of_nat i) = rd32 (\<lambda>_. 0) (0x80402000 + 4 * of_nat i)" if "i < 1024" for i
    using that by (intro entry_cong) auto
  then have none: "table (ram two_pages) 0x80402000 i = None" if "i < 1024" for i
    using that by (simp add: table_def rd32_def)
  then show "vm_ok two_pages 0x80402000 [0x80400000, 0x80401000]"
    using two_pages_rep by (simp add: vm_ok_def paging_ok_def const_defs)
  show "translate (ram two_pages) 0x80402000 x = None" using none [OF idx_less(2) [of x]] by (simp add: translate_table)
qed

theorem mappages_translates_witness:
  "\<exists>k'. mappages 0x80402000 0x1000 0x2000 0x300000 6 (idle_mach None) two_pages = Inr (0, idle_mach None, k') \<and>
     translate (ram k') 0x80402000 0x2004 = Some 0x80301004 \<and> translate (ram k') 0x80402000 0x3000 = None"
  using mappages_translates [OF _ _ two_pages_vm(1), of "idle_mach None" 2 "0x1000" "0x300000" 6] two_pages_vm(2)
  by (auto simp: in_pages_def const_defs P2V_def)




end
