(* ===== verification/Paths.thy ===== *)
theory Paths
  imports Fs
begin

text \<open>
  What the path walk of \<^verbatim>\<open>fs.c\<close> means.  \<open>components\<close> splits a path at its slashes and drops the empty pieces;
  \<open>walk\<close> looks up a list of names, one directory after the other.  The code, which finds one element at
  a time with \<open>skipelem\<close>, walks the components of the path, each cut to \<open>DIRSIZ\<close> bytes.
\<close>

primrec pieces :: "uchar list \<Rightarrow> uchar list list" where
  "pieces [] = [[]]"
| "pieces (c # cs) = (if c = slash then [] # pieces cs else (case pieces cs of [] \<Rightarrow> [[c]] | w # ws \<Rightarrow> (c # w) # ws))"

definition components :: "uchar list \<Rightarrow> uchar list list" where
  "components pth = filter (\<lambda>w. w \<noteq> []) (pieces pth)"

primrec walk :: "uchar list list \<Rightarrow> bool \<Rightarrow> nat \<Rightarrow> uchar list \<Rightarrow> ('a fsstate_scheme, nat option \<times> uchar list) bkm" where
  "walk [] parent ip name = (if parent then bthen (iput ip) (bret (None, name)) else bret (Some ip, name))"
| "walk (w # ws) parent ip name =
     bthen (ilock (Some ip)) (
     bbnd (lift (ifield ip i_type)) (\<lambda>t.
     if t \<noteq> T_DIR then bthen (iunlockput ip) (bret (None, w))
     else if parent \<and> ws = [] then bthen (lift (iunlock (Some ip))) (bret (Some ip, w))
     else bbnd (dirlookup ip w) (\<lambda>nx. case nx of
         None \<Rightarrow> bthen (iunlockput ip) (bret (None, w))
       | Some (nxt, _) \<Rightarrow> bthen (iunlockput ip) (walk ws parent nxt w))))"

section \<open>Components\<close>

lemma pieces_first:
  "pieces xs = takeWhile (\<lambda>c. c \<noteq> slash) xs # (case dropWhile (\<lambda>c. c \<noteq> slash) xs of [] \<Rightarrow> [] | _ # ys \<Rightarrow> pieces ys)"
  by (induction xs) auto

lemma components_slash [simp]: "components [] = []" "components (slash # xs) = components xs"
  by (simp_all add: components_def)

lemma components_skip: "components (dropWhile (\<lambda>c. c = slash) xs) = components xs"
  by (induction xs) auto

lemma components_word:
  assumes "xs \<noteq> []" "hd xs \<noteq> slash"
  shows "components xs = takeWhile (\<lambda>c. c \<noteq> slash) xs # components (dropWhile (\<lambda>c. c \<noteq> slash) xs)"
proof -
  have "takeWhile (\<lambda>c. c \<noteq> slash) xs \<noteq> []" using assms by (cases xs) auto
  moreover have "components (dropWhile (\<lambda>c. c \<noteq> slash) xs) =
      filter (\<lambda>w. w \<noteq> []) (case dropWhile (\<lambda>c. c \<noteq> slash) xs of [] \<Rightarrow> [] | _ # ys \<Rightarrow> pieces ys)"
  proof (cases "dropWhile (\<lambda>c. c \<noteq> slash) xs")
    case (Cons y ys)
    then have "y = slash" using hd_dropWhile [of "\<lambda>c. c \<noteq> slash" xs] by simp
    then show ?thesis using Cons by (simp add: components_def)
  next
    case Nil
    show ?thesis unfolding Nil by simp
  qed
  ultimately show ?thesis unfolding components_def [of xs] by (subst pieces_first) simp
qed

lemma skipelem_components:
  shows "skipelem pth = None \<Longrightarrow> components pth = []"
    and "skipelem pth = Some (rest, name) \<Longrightarrow>
      \<exists>w. components pth = w # components rest \<and> name = take DIRSIZ w \<and> (rest = [] \<longleftrightarrow> components rest = [])"
proof -
  let ?p = "dropWhile (\<lambda>c. c = slash) pth"
  have p: "components ?p = components pth" by (rule components_skip)
  {
    assume "skipelem pth = None"
    then have "?p = []" unfolding skipelem_def Let_def by (simp split: if_splits)
    then show "components pth = []" using p by (simp only: components_slash)
  }
  assume "skipelem pth = Some (rest, name)"
  then have s: "?p \<noteq> []" "rest = dropWhile (\<lambda>c. c = slash) (dropWhile (\<lambda>c. c \<noteq> slash) ?p)"
      "name = take DIRSIZ (takeWhile (\<lambda>c. c \<noteq> slash) ?p)"
    by (auto simp: skipelem_def Let_def split: if_splits)
  have "hd ?p \<noteq> slash" using hd_dropWhile [OF s(1)] by simp
  then have "components ?p = takeWhile (\<lambda>c. c \<noteq> slash) ?p # components rest"
    unfolding s(2) components_skip [of "dropWhile (\<lambda>c. c \<noteq> slash) ?p"] by (rule components_word [OF s(1)])
  then have "components pth = takeWhile (\<lambda>c. c \<noteq> slash) ?p # components rest" unfolding p .
  moreover have "rest = [] \<longleftrightarrow> components rest = []"
  proof (cases "rest = []")
    case False
    then have "hd rest \<noteq> slash" using hd_dropWhile [of "\<lambda>c. c = slash" "dropWhile (\<lambda>c. c \<noteq> slash) ?p"] unfolding s(2) by blast
    then show ?thesis using components_word [OF False] False by simp
  qed simp
  ultimately show "\<exists>w. components pth = w # components rest \<and> name = take DIRSIZ w \<and> (rest = [] \<longleftrightarrow> components rest = [])"
    using s(3) by blast
qed

section \<open>Properties\<close>

text \<open>C15: the path walk of \<open>namex\<close> is the walk along the components of the path, the non-empty pieces between
  its slashes, each cut to \<open>DIRSIZ\<close> bytes; repeated, leading and trailing slashes make no difference.\<close>

theorem namex_walks_components:
  "namex_loop pth parent ip name =
     (walk (map (take DIRSIZ) (components pth)) parent ip name :: ('a fsstate_scheme, nat option \<times> uchar list) bkm)"
proof (induction "length pth" arbitrary: pth ip name rule: less_induct)
  case less
  show ?case
  proof (cases "skipelem pth")
    case None
    then show ?thesis using skipelem_components(1) [OF None] by (subst namex_loop.simps) simp
  next
    case (Some r)
    obtain rest nm where r: "skipelem pth = Some (rest, nm)" using Some by (cases r) simp
    obtain w where w: "components pth = w # components rest" "nm = take DIRSIZ w" "rest = [] \<longleftrightarrow> components rest = []"
      using skipelem_components(2) [OF r] by blast
    have "namex_loop rest parent nxt nm =
        (walk (map (take DIRSIZ) (components rest)) parent nxt nm :: ('a fsstate_scheme, nat option \<times> uchar list) bkm)" for nxt
      by (rule less.hyps [OF skipelem_shorter [OF r]])
    note step = this [unfolded w(2)]
    show ?thesis
      by (subst namex_loop.simps, unfold r w list.map walk.simps option.case prod.case step w(3) map_is_Nil_conv) (rule refl)
  qed
qed

end
