(* ===== verification/Ulib.thy ===== *)
theory Ulib
  imports Cmem Console
begin

text \<open>
  The library that user programs are linked with (\<^verbatim>\<open>ulib.c\<close>, \<^verbatim>\<open>printf.c\<close>).  A null-terminated string is the
  list of its characters before the null byte.  The functions that only make system calls (\<open>stat\<close>) are
  left out.  The lemmas show that \<open>atoi\<close> reads back the numbers that \<open>printf\<close> prints.
\<close>

section \<open>ulib.c\<close>

fun strcmp :: "string \<Rightarrow> string \<Rightarrow> int" where
  "strcmp (p # ps) (q # qs) = (if p = q then strcmp ps qs else of_char p - of_char q)"
| "strcmp (p # ps) [] = of_char p"
| "strcmp [] (q # qs) = - of_char q"
| "strcmp [] [] = 0"

text \<open>The rest of the string from the first \<open>c\<close>; the null byte that ends it is never found.\<close>

primrec strchr :: "string \<Rightarrow> char \<Rightarrow> string option" where
  "strchr [] c = None"
| "strchr (x # xs) c = (if x = c then Some (x # xs) else strchr xs c)"

text \<open>
  \<open>gets(buf, max)\<close> on the characters that the reads of standard input return, one each; a read
  that returns nothing ends the list.  The result is the line and the input that is left.
\<close>

primrec gets_loop :: "nat \<Rightarrow> string \<Rightarrow> string \<times> string" where
  "gets_loop 0 inp = ([], inp)"
| "gets_loop (Suc n) inp = (case inp of
     [] \<Rightarrow> ([], [])
   | c # cs \<Rightarrow>
       if c = CHR 0x0A \<or> c = CHR 0x0D then ([c], cs)
       else (case gets_loop n cs of (l, r) \<Rightarrow> (c # l, r)))"

definition gets :: "nat \<Rightarrow> string \<Rightarrow> string \<times> string" where
  "gets mx inp = gets_loop (mx - 1) inp"

text \<open>The arithmetic is that of a 32-bit \<open>int\<close>.\<close>

primrec atoi_loop :: "uint \<Rightarrow> string \<Rightarrow> uint" where
  "atoi_loop n [] = n"
| "atoi_loop n (c # cs) =
     (if 48 \<le> (of_char c :: nat) \<and> (of_char c :: nat) \<le> 57 then atoi_loop (n * 10 + of_char c - 48) cs else n)"

definition atoi :: "string \<Rightarrow> uint" where
  "atoi s = atoi_loop 0 s"

text \<open>\<open>memmove\<close> of the user library only copies upwards.\<close>

definition umemmove :: "memory \<Rightarrow> uint \<Rightarrow> uint \<Rightarrow> int \<Rightarrow> memory" where
  "umemmove m vdst vsrc n = copy_up m vdst vsrc (nat n)"

section \<open>printf.c\<close>

definition udigits :: string where "udigits = ''0123456789ABCDEF''"

definition uprintint :: "uint \<Rightarrow> nat \<Rightarrow> bool \<Rightarrow> string" where
  "uprintint xx base sg = rev (printint_buf udigits xx base sg)"

definition uconv :: "char \<Rightarrow> carg list \<Rightarrow> kerr + (string \<times> carg list)" where
  "uconv c ap =
     (if c = CHR ''d'' then
        (case ap of CInt x # ap' \<Rightarrow> Inr (uprintint x 10 True, ap') | _ \<Rightarrow> Inl (Fault ''printf argument''))
      else if c = CHR ''x'' \<or> c = CHR ''p'' then
        (case ap of CInt x # ap' \<Rightarrow> Inr (uprintint x 16 False, ap') | _ \<Rightarrow> Inl (Fault ''printf argument''))
      else if c = CHR ''s'' then
        (case ap of CStr s # ap' \<Rightarrow> Inr (case s of None \<Rightarrow> ''(null)'' | Some t \<Rightarrow> t, ap')
         | _ \<Rightarrow> Inl (Fault ''printf argument''))
      else if c = CHR ''c'' then
        (case ap of CInt x # ap' \<Rightarrow> Inr ([char_of (unat x)], ap') | _ \<Rightarrow> Inl (Fault ''printf argument''))
      else if c = CHR ''%'' then Inr (''%'', ap)
      else Inr ([CHR ''%'', c], ap))"

text \<open>The first argument is whether \<open>state\<close> is \<open>'%'\<close>.  The result is what is written to the descriptor.\<close>

fun printf_loop :: "bool \<Rightarrow> string \<Rightarrow> carg list \<Rightarrow> kerr + string" where
  "printf_loop state [] ap = Inr []"
| "printf_loop False (c # fmt) ap =
     (if c = CHR ''%'' then printf_loop True fmt ap else map_sum id (\<lambda>r. c # r) (printf_loop False fmt ap))"
| "printf_loop True (c # fmt) ap = (case uconv c ap of
     Inl e \<Rightarrow> Inl e
   | Inr (t, ap') \<Rightarrow> map_sum id (\<lambda>r. t @ r) (printf_loop False fmt ap'))"

definition printf :: "string \<Rightarrow> carg list \<Rightarrow> kerr + string" where
  "printf fmt ap = printf_loop False fmt ap"

section \<open>Reading back what is printed\<close>

definition dec_digit :: "char \<Rightarrow> bool" where
  "dec_digit c \<longleftrightarrow> 48 \<le> (of_char c :: nat) \<and> (of_char c :: nat) \<le> 57"

lemma udigit_facts:
  assumes "i < 10"
  shows "dec_digit (udigits ! i)" "of_char (udigits ! i) = (48 + of_nat i :: uint)" "digit_pos udigits (udigits ! i) = i"
proof -
  have "distinct udigits" "length udigits = 16" by (simp_all add: udigits_def)
  then show "digit_pos udigits (udigits ! i) = i" using assms by (intro digit_pos_nth) simp_all
  have "i = 0 \<or> i = 1 \<or> i = 2 \<or> i = 3 \<or> i = 4 \<or> i = 5 \<or> i = 6 \<or> i = 7 \<or> i = 8 \<or> i = 9" using assms by presburger
  then show "dec_digit (udigits ! i)" "of_char (udigits ! i) = (48 + of_nat i :: uint)"
    by (auto simp: udigits_def dec_digit_def)
qed

lemma digit_loop_digits: "set (digit_loop udigits 10 x) \<subseteq> {udigits ! i |i. i < 10}"
  by (induction udigits "10 :: nat" x rule: digit_loop.induct) (subst digit_loop.simps, auto)

lemma atoi_loop_rev:
  "set ds \<subseteq> {udigits ! i |i. i < 10} \<Longrightarrow> atoi_loop 0 (rev ds @ rest) = atoi_loop (of_nat (digits_value udigits 10 ds)) rest"
proof (induction ds arbitrary: rest)
  case Nil
  then show ?case by simp
next
  case (Cons d ds)
  obtain i where i: "i < 10" "d = udigits ! i" using Cons.prems by auto
  have "atoi_loop 0 (rev (d # ds) @ rest) = atoi_loop (of_nat (digits_value udigits 10 ds)) (d # rest)"
    using Cons.IH [of "d # rest"] Cons.prems by simp
  also have "\<dots> = atoi_loop (of_nat (digits_value udigits 10 ds) * 10 + of_nat i) rest"
    using udigit_facts(1) [OF i(1)] i(2) by (simp add: dec_digit_def udigit_facts(2) [OF i(1)])
  finally show ?case using udigit_facts(3) [OF i(1)] i(2) by (simp add: algebra_simps)
qed

lemma atoi_printf:
  assumes "0 \<le> sint x"
  shows "\<exists>s. printf ''%d'' [CInt x] = Inr s \<and> atoi s = x"
proof -
  have "printf ''%d'' [CInt x] = Inr (rev (digit_loop udigits 10 (unat x)))"
    using assms by (simp add: printf_def uconv_def uprintint_def printint_buf_def Let_def not_less)
  moreover have "digits_value udigits 10 (digit_loop udigits 10 (unat x)) = unat x"
    by (rule digits_value_loop) (simp_all add: udigits_def)
  then have "atoi (rev (digit_loop udigits 10 (unat x))) = x"
    using atoi_loop_rev [OF digit_loop_digits, of "unat x" "[]"] by (simp add: atoi_def)
  ultimately show ?thesis by blast
qed

end
