(* ===== verification/Grep.thy ===== *)
theory Grep
  imports Ulib
begin

text \<open>
  The command \<^verbatim>\<open>grep.c\<close>: the matcher for patterns with \<open>^ . * $\<close> and the loop that reads a file through a
  fixed buffer and prints the lines that match.  The lemmas show that the matcher, which works by
  recursion on the text of the pattern, decides the language that the pattern denotes.
\<close>

section \<open>The matcher\<close>

abbreviation star :: char where "star \<equiv> CHR ''*''"
abbreviation dot :: char where "dot \<equiv> CHR ''.''"
abbreviation dollar :: char where "dollar \<equiv> CHR ''$''"

text \<open>\<open>re[0] == c || c == '.'\<close>\<close>

definition accepts :: "char \<Rightarrow> char \<Rightarrow> bool" where
  "accepts c x \<longleftrightarrow> c = dot \<or> c = x"

function matchhere :: "string \<Rightarrow> string \<Rightarrow> bool" and matchstar :: "char \<Rightarrow> string \<Rightarrow> string \<Rightarrow> bool" where
  "matchhere re str = (case re of
     [] \<Rightarrow> True
   | r # re1 \<Rightarrow>
       if re1 \<noteq> [] \<and> hd re1 = star then matchstar r (tl re1) str
       else if r = dollar \<and> re1 = [] then str = []
       else (case str of [] \<Rightarrow> False | t # ts \<Rightarrow> accepts r t \<and> matchhere re1 ts))"
| "matchstar c re str =
     (if matchhere re str then True
      else (case str of [] \<Rightarrow> False | t # ts \<Rightarrow> accepts c t \<and> matchstar c re ts))"
  by pat_completeness auto
termination
  by (relation "inv_image (less_than <*lex*> less_than)
      (\<lambda>p. case p of Inl (re, str) \<Rightarrow> (length re, length str) | Inr (c, re, str) \<Rightarrow> (Suc (length re), length str))") auto

declare matchhere.simps [simp del] matchstar.simps [simp del]

primrec match_loop :: "string \<Rightarrow> string \<Rightarrow> bool" where
  "match_loop re [] = matchhere re []"
| "match_loop re (t # ts) = (if matchhere re (t # ts) then True else match_loop re ts)"

definition match :: "string \<Rightarrow> string \<Rightarrow> bool" where
  "match re str = (if re \<noteq> [] \<and> hd re = CHR ''^'' then matchhere (tl re) str else match_loop re str)"

section \<open>The command\<close>

text \<open>
  The lines of a buffer: \<open>p\<close> is what the buffer holds from the pointer \<open>p\<close> up to \<open>buf[m]\<close>.  The result is
  what is printed and what is left after the last newline.  As for \<open>strchr\<close>, a null byte ends the search.
\<close>

lemma strchr_nonempty: "strchr (takeWhile P p) c = Some q \<Longrightarrow> p \<noteq> []"
  by auto

function grep_lines :: "string \<Rightarrow> string \<Rightarrow> string \<times> string" where
  "grep_lines pattern p =
     (case strchr (takeWhile (\<lambda>c. c \<noteq> CHR 0x00) p) CHR 0x0A of
        None \<Rightarrow> ([], p)
      | Some q \<Rightarrow>
          let l = takeWhile (\<lambda>c. c \<noteq> CHR 0x0A) p;
              (out, rest) = grep_lines pattern (drop (Suc (length l)) p)
          in ((if match pattern l then l @ [CHR 0x0A] else []) @ out, rest))"
  by pat_completeness auto
termination
  by (relation "measure (\<lambda>(pattern, p). length p)") (auto dest: strchr_nonempty)

declare grep_lines.simps [simp del]

text \<open>
  \<open>read\<close> returns the bytes that are ready, at most as many as there is room for: the input is a list of
  what becomes ready.  A read of nothing ends the loop.
\<close>

definition BUFSZ :: nat where "BUFSZ = 1024"

fun read_chunk :: "nat \<Rightarrow> string list \<Rightarrow> string \<times> string list" where
  "read_chunk n [] = ([], [])"
| "read_chunk n (c # cs) = (take n c, if length c \<le> n then cs else drop n c # cs)"

lemma read_chunk_less: "read_chunk n inp = (x, inp') \<Longrightarrow> x \<noteq> [] \<Longrightarrow> length (concat inp') < length (concat inp)"
  by (cases inp) (auto split: if_splits)

function grep :: "string \<Rightarrow> string \<Rightarrow> string list \<Rightarrow> string" where
  "grep pattern buf inp =
     (let (n, inp') = read_chunk (BUFSZ - length buf - 1) inp in
      if n = [] then []
      else
        let (out, rest) = grep_lines pattern (buf @ n);
            buf' = (if length rest = length (buf @ n) then [] else rest)
        in out @ grep pattern buf' inp')"
  by pat_completeness auto
termination
  by (relation "measure (\<lambda>(pattern, buf, inp). length (concat inp))") (auto intro: read_chunk_less [OF sym])

declare grep.simps [simp del]

section \<open>The language of a pattern\<close>

text \<open>A pattern is a list of items, a character with or without a star, and whether it ends in \<open>$\<close>.\<close>

fun items :: "string \<Rightarrow> (char \<times> bool) list \<times> bool" where
  "items [] = ([], False)"
| "items [r] = (if r = dollar then ([], True) else ([(r, False)], False))"
| "items (r # s # re) =
     (if s = star then (case items re of (is, e) \<Rightarrow> ((r, True) # is, e))
      else (case items (s # re) of (is, e) \<Rightarrow> ((r, False) # is, e)))"

fun lang :: "(char \<times> bool) list \<Rightarrow> string set" where
  "lang [] = {[]}"
| "lang ((c, False) # is) = {x # u |x u. accepts c x \<and> u \<in> lang is}"
| "lang ((c, True) # is) = {u @ v |u v. list_all (accepts c) u \<and> v \<in> lang is}"

text \<open>The texts that start with a word of the language, the whole text if the pattern ends in \<open>$\<close>.\<close>

definition starts :: "string \<Rightarrow> string set" where
  "starts re = (case items re of (is, e) \<Rightarrow> {u @ v |u v. u \<in> lang is \<and> v \<in> (if e then {[]} else UNIV)})"

lemma starts_Nil: "starts [] = UNIV"
  by (auto simp: starts_def)

lemma starts_dollar: "starts [dollar] = {[]}"
  by (auto simp: starts_def)

lemma starts_star: "starts (r # star # re) = {u @ v |u v. list_all (accepts r) u \<and> v \<in> starts re}"
  by (auto simp: starts_def split: prod.splits) (metis append.assoc)+

lemma lang_char_append:
  "{u @ v |u v. u \<in> lang ((r, False) # is) \<and> v \<in> V} = {x # w |x w. accepts r x \<and> w \<in> {u @ v |u v. u \<in> lang is \<and> v \<in> V}}"
proof (intro set_eqI iffI)
  fix y
  assume "y \<in> {u @ v |u v. u \<in> lang ((r, False) # is) \<and> v \<in> V}"
  then obtain x u v where "y = x # u @ v" "accepts r x" "u \<in> lang is" "v \<in> V" by auto
  then show "y \<in> {x # w |x w. accepts r x \<and> w \<in> {u @ v |u v. u \<in> lang is \<and> v \<in> V}}" by blast
next
  fix y
  assume "y \<in> {x # w |x w. accepts r x \<and> w \<in> {u @ v |u v. u \<in> lang is \<and> v \<in> V}}"
  then obtain x u v where y: "y = (x # u) @ v" "accepts r x" "u \<in> lang is" "v \<in> V" by auto
  then have "x # u \<in> lang ((r, False) # is)" by simp
  then show "y \<in> {u @ v |u v. u \<in> lang ((r, False) # is) \<and> v \<in> V}" using y by blast
qed

lemma starts_char:
  assumes "re = [] \<or> hd re \<noteq> star" "r \<noteq> dollar \<or> re \<noteq> []"
  shows "starts (r # re) = {x # v |x v. accepts r x \<and> v \<in> starts re}"
proof -
  obtain "is" e where re: "items re = (is, e)" by (cases "items re")
  then have "items (r # re) = ((r, False) # is, e)" using assms by (cases re) auto
  then show ?thesis unfolding starts_def re by (simp only: prod.case lang_char_append)
qed

lemma star_step:
  "(\<exists>u v. t # ts = u @ v \<and> list_all P u \<and> v \<in> V) \<longleftrightarrow> t # ts \<in> V \<or> (P t \<and> (\<exists>u v. ts = u @ v \<and> list_all P u \<and> v \<in> V))"
proof
  assume "\<exists>u v. t # ts = u @ v \<and> list_all P u \<and> v \<in> V"
  then obtain u v where u: "t # ts = u @ v" "list_all P u" "v \<in> V" by blast
  then show "t # ts \<in> V \<or> (P t \<and> (\<exists>u v. ts = u @ v \<and> list_all P u \<and> v \<in> V))" by (cases u) auto
next
  assume "t # ts \<in> V \<or> (P t \<and> (\<exists>u v. ts = u @ v \<and> list_all P u \<and> v \<in> V))"
  then show "\<exists>u v. t # ts = u @ v \<and> list_all P u \<and> v \<in> V"
  proof
    assume "t # ts \<in> V"
    then show ?thesis by (intro exI [of _ "[]"] exI [of _ "t # ts"]) simp
  next
    assume "P t \<and> (\<exists>u v. ts = u @ v \<and> list_all P u \<and> v \<in> V)"
    then obtain u v where "P t" "ts = u @ v" "list_all P u" "v \<in> V" by blast
    then show ?thesis by (intro exI [of _ "t # u"] exI [of _ v]) simp
  qed
qed

lemma match_starts:
  shows "matchhere re str \<longleftrightarrow> str \<in> starts re"
    and "matchstar c re str \<longleftrightarrow> (\<exists>u v. str = u @ v \<and> list_all (accepts c) u \<and> v \<in> starts re)"
proof (induction re str and c re str rule: matchhere_matchstar.induct)
  case (1 re str)
  show ?case
  proof (cases re)
    case Nil
    then show ?thesis by (simp add: matchhere.simps starts_Nil)
  next
    case (Cons r re1)
    consider (star) re2 where "re1 = star # re2" | (dollar) "r = dollar" "re1 = []"
      | (char) "re1 = [] \<or> hd re1 \<noteq> star" "r \<noteq> dollar \<or> re1 \<noteq> []"
      by (cases re1) auto
    then show ?thesis
    proof cases
      case star
      then show ?thesis using 1(1) [OF Cons] Cons by (subst matchhere.simps) (auto simp: starts_star)
    next
      case dollar
      then show ?thesis using Cons by (subst matchhere.simps) (simp add: starts_dollar)
    next
      case char
      then have "\<not> (re1 \<noteq> [] \<and> hd re1 = star)" "\<not> (r = dollar \<and> re1 = [])" by auto
      then show ?thesis
        using 1(2) [OF Cons] Cons by (subst matchhere.simps) (auto simp: starts_char [OF char] split: list.split)
    qed
  qed
next
  case (2 c re str)
  show ?case
  proof (cases "matchhere re str")
    case True
    then show ?thesis using 2(1) by (subst matchstar.simps) (auto intro: exI [of _ "[]"])
  next
    case False
    then have no: "str \<notin> starts re" using 2(1) by simp
    show ?thesis
    proof (cases str)
      case Nil
      then show ?thesis using False no by (subst matchstar.simps) auto
    next
      case (Cons t ts)
      show ?thesis using 2(2) [OF False Cons] False Cons no by (subst matchstar.simps) (simp add: star_step)
    qed
  qed
qed

lemma match_loop_starts: "match_loop re str \<longleftrightarrow> (\<exists>w v. str = w @ v \<and> v \<in> starts re)"
  by (induction str) (auto simp: match_starts Cons_eq_append_conv)

section \<open>Properties\<close>

text \<open>C14: \<open>match\<close> decides the language of the pattern: a pattern that begins with \<open>^\<close> matches the texts
  that start with a word of its language, any other pattern the texts that contain one, at the end if
  the pattern ends in \<open>$\<close>.\<close>

theorem match_language:
  "match re str \<longleftrightarrow>
    (if re \<noteq> [] \<and> hd re = CHR ''^'' then str \<in> starts (tl re) else \<exists>w v. str = w @ v \<and> v \<in> starts re)"
  by (simp add: match_def match_starts match_loop_starts)

end
