(* ===== verification/Shell.thy ===== *)
theory Shell
  imports Ulib
begin

text \<open>
  The shell (\<^verbatim>\<open>sh.c\<close>).  A pointer into the command line is the list of the characters from there to the end
  of the line, and a counted string \<open>[q, eq)\<close> is the list of its characters.  \<open>nulterminate\<close>, which puts a
  null byte at the end of each counted string when the parse is over, leaves this representation as it is:
  the end of a token is never inside another token.

  \<open>execcmd\<close> is filled with arguments while \<open>parseredirs\<close> already wraps redirections around it, so the
  parser of a simple command collects both and builds the command at the end.

  The parser functions call each other and take the number of nested calls allowed; the lemmas show
  that the number \<open>parsecmd\<close> gives them is enough for every line, and that the parser inverts the printer \<open>show_cmd\<close>.
\<close>

section \<open>Commands\<close>

datatype cmd =
    ExecCmd "string list"
  | RedirCmd cmd string uint int
  | PipeCmd cmd cmd
  | ListCmd cmd cmd
  | BackCmd cmd

definition MAXARGS :: nat where "MAXARGS = 10"

definition rd_mode :: uint where "rd_mode = 0"
definition wr_mode :: uint where "wr_mode = 0x201"

section \<open>Tokens\<close>

definition whitespace :: "char \<Rightarrow> bool" where
  "whitespace c \<longleftrightarrow> c \<in> {CHR '' '', CHR 0x09, CHR 0x0D, CHR 0x0A, CHR 0x0B}"

definition symbols :: "char \<Rightarrow> bool" where
  "symbols c \<longleftrightarrow> c \<in> set ''<|>&;()''"

definition skip :: "string \<Rightarrow> string" where
  "skip s = dropWhile whitespace s"

abbreviation word_char :: "char \<Rightarrow> bool" where
  "word_char c \<equiv> \<not> whitespace c \<and> \<not> symbols c"

text \<open>The token, its characters and the rest of the line; the token 0 is the end of the line.\<close>

definition gettoken :: "string \<Rightarrow> char \<times> string \<times> string" where
  "gettoken ps = (case skip ps of
     [] \<Rightarrow> (CHR 0x00, [], [])
   | c # s \<Rightarrow>
       if c \<in> set ''|();&<'' then (c, [c], skip s)
       else if c = CHR ''>'' then
         (if s \<noteq> [] \<and> hd s = CHR ''>'' then (CHR ''+'', [c, CHR ''>''], skip (tl s)) else (c, [c], skip s))
       else (CHR ''a'', takeWhile word_char (c # s), skip (dropWhile word_char (c # s))))"

definition peek :: "string \<Rightarrow> string \<Rightarrow> bool" where
  "peek ps toks = (case skip ps of [] \<Rightarrow> False | c # s \<Rightarrow> c \<in> set toks)"

section \<open>The parser\<close>

datatype perr = Syntax string | OutOfCalls

type_synonym redir = "string \<times> uint \<times> int"

definition add_redir :: "cmd \<Rightarrow> redir \<Rightarrow> cmd" where
  "add_redir c r = (case r of (f, mode, fd) \<Rightarrow> RedirCmd c f mode fd)"

definition redir_of :: "char \<Rightarrow> string \<Rightarrow> redir" where
  "redir_of tok f = (if tok = CHR ''<'' then (f, rd_mode, 0) else (f, wr_mode, 1))"

lemma length_skip: "length (skip s) \<le> length s"
  by (simp add: skip_def length_dropWhile_le)

lemma gettoken_length: "gettoken s = (tok, q, r) \<Longrightarrow> length r \<le> length s"
proof -
  assume g: "gettoken s = (tok, q, r)"
  show ?thesis
  proof (cases "skip s")
    case Nil
    then show ?thesis using g by (simp add: gettoken_def)
  next
    case (Cons c t)
    have "length (c # t) \<le> length s" using length_skip [of s] Cons by simp
    moreover have "length (dropWhile P (c # t)) \<le> length (c # t)" for P by (rule length_dropWhile_le)
    moreover have "length (skip (tl t)) \<le> length t" using length_skip [of "tl t"] by (cases t) auto
    ultimately show ?thesis
      using g Cons length_skip [of t] length_skip [of "dropWhile word_char (c # t)"]
      by (auto simp: gettoken_def split: if_splits simp del: dropWhile.simps intro: le_trans)
  qed
qed

lemma gettoken_shorter: "skip s \<noteq> [] \<Longrightarrow> gettoken s = (tok, q, r) \<Longrightarrow> length r < length s"
proof -
  assume "skip s \<noteq> []" and g: "gettoken s = (tok, q, r)"
  then obtain c t where Cons: "skip s = c # t" by (cases "skip s") auto
  then have l: "Suc (length t) \<le> length s" using length_skip [of s] by simp
  have w: "\<not> whitespace c" using Cons by (auto simp: skip_def dropWhile_eq_Cons_conv)
  have d: "length (skip (dropWhile word_char t)) \<le> length t" "length (skip t) \<le> length t" "length (skip (tl t)) \<le> length t"
    using length_skip [of "dropWhile word_char t"] length_dropWhile_le [of word_char t] length_skip [of t] length_skip [of "tl t"] by simp_all
  have "symbols c \<longleftrightarrow> c \<in> set ''|();&<'' \<or> c = CHR ''>''" by (auto simp: symbols_def)
  then show ?thesis
    using g Cons l w d by (auto simp: gettoken_def split: if_splits)
qed

lemma peek_nonempty: "peek s toks \<Longrightarrow> skip s \<noteq> []"
  by (auto simp: peek_def split: list.splits)

lemma redirs_shorter:
  assumes "peek ps toks" "(tok, x, s) = gettoken ps" "(tok2, f, s') = gettoken s"
  shows "length s' < length ps"
  using gettoken_shorter [OF peek_nonempty [OF assms(1)] assms(2) [symmetric]] gettoken_length [OF assms(3) [symmetric]] by simp

text \<open>\<open>parseredirs\<close>: the redirections in front of the rest of the line.\<close>

function parseredirs :: "string \<Rightarrow> perr + redir list \<times> string" where
  "parseredirs ps =
     (if peek ps ''<>'' then
        let (tok, _, s) = gettoken ps; (tok2, f, s') = gettoken s in
        if tok2 \<noteq> CHR ''a'' then Inl (Syntax ''missing file for redirection'')
        else (case parseredirs s' of
            Inl e \<Rightarrow> Inl e
          | Inr (rs, s'') \<Rightarrow> Inr (redir_of tok f # rs, s''))
      else Inr ([], skip ps))"
  by pat_completeness auto
termination
  by (relation "measure length") (auto intro: redirs_shorter)

declare parseredirs.simps [simp del]

text \<open>The loop of \<open>parseexec\<close>; \<open>args\<close> and \<open>rs\<close> are what has been collected.\<close>

lemma parseredirs_length: "parseredirs s = Inr (rs, r) \<Longrightarrow> length r \<le> length s"
proof (induction s arbitrary: rs r rule: parseredirs.induct)
  case (1 ps)
  show ?case
  proof (cases "peek ps ''<>''")
    case False
    then show ?thesis using 1(2) length_skip [of ps] by (simp add: parseredirs.simps [of ps])
  next
    case True
    obtain tok x s where g1: "gettoken ps = (tok, x, s)" by (cases "gettoken ps") auto
    obtain tok2 f s' where g2: "gettoken s = (tok2, f, s')" by (cases "gettoken s") auto
    obtain rs' where "parseredirs s' = Inr (rs', r)" "tok2 = CHR ''a''"
      using 1(2) True g1 g2 by (auto simp: parseredirs.simps [of ps] split: sum.splits if_splits)
    then have "length r \<le> length s'" using 1(1) [OF True refl g1 [symmetric] refl refl g2 [symmetric] refl] by simp
    then show ?thesis using gettoken_length [OF g1] gettoken_length [OF g2] by linarith
  qed
qed

lemma exec_shorter:
  assumes "(tok, q, s) = gettoken ps" "tok = CHR ''a''" "parseredirs s = Inr (rs, s')"
  shows "length s' < length ps"
proof -
  have "skip ps \<noteq> []" using assms(1,2) by (auto simp: gettoken_def)
  then show ?thesis using gettoken_shorter [OF _ assms(1) [symmetric]] parseredirs_length [OF assms(3)] by simp
qed

function exec_loop :: "string list \<Rightarrow> redir list \<Rightarrow> string \<Rightarrow> perr + cmd \<times> string" where
  "exec_loop args rs ps =
     (if peek ps ''|)&;'' then Inr (foldl add_redir (ExecCmd args) rs, skip ps)
      else
        let (tok, q, s) = gettoken ps in
        if tok = CHR 0x00 then Inr (foldl add_redir (ExecCmd args) rs, s)
        else if tok \<noteq> CHR ''a'' then Inl (Syntax ''syntax'')
        else if length args + 1 \<ge> MAXARGS then Inl (Syntax ''too many args'')
        else (case parseredirs s of
            Inl e \<Rightarrow> Inl e
          | Inr (rs', s') \<Rightarrow> exec_loop (args @ [q]) (rs @ rs') s'))"
  by pat_completeness auto
termination
  by (relation "measure (\<lambda>(args, rs, ps). length ps)") (auto intro: exec_shorter)

declare exec_loop.simps [simp del]

text \<open>The \<open>&\<close> signs after a pipeline.\<close>

function back_loop :: "cmd \<Rightarrow> string \<Rightarrow> cmd \<times> string" where
  "back_loop c ps = (if peek ps ''&'' then let (tok, _, s) = gettoken ps in back_loop (BackCmd c) s else (c, skip ps))"
  by pat_completeness auto
termination
  by (relation "measure (\<lambda>(c, ps). length ps)") (auto dest!: peek_nonempty dest: gettoken_shorter [OF _ sym])

declare back_loop.simps [simp del]

fun parseline :: "nat \<Rightarrow> string \<Rightarrow> perr + cmd \<times> string"
  and parsepipe :: "nat \<Rightarrow> string \<Rightarrow> perr + cmd \<times> string"
  and parseexec :: "nat \<Rightarrow> string \<Rightarrow> perr + cmd \<times> string"
  and parseblock :: "nat \<Rightarrow> string \<Rightarrow> perr + cmd \<times> string" where
  "parseline 0 ps = Inl OutOfCalls"
| "parseline (Suc n) ps = (case parsepipe n ps of
     Inl e \<Rightarrow> Inl e
   | Inr (c, s) \<Rightarrow>
       let (c', s') = back_loop c s in
       if peek s' '';'' then
         let (_, _, s2) = gettoken s' in
         (case parseline n s2 of Inl e \<Rightarrow> Inl e | Inr (r, s3) \<Rightarrow> Inr (ListCmd c' r, s3))
       else Inr (c', skip s'))"
| "parsepipe 0 ps = Inl OutOfCalls"
| "parsepipe (Suc n) ps = (case parseexec n ps of
     Inl e \<Rightarrow> Inl e
   | Inr (c, s) \<Rightarrow>
       if peek s ''|'' then
         let (_, _, s') = gettoken s in
         (case parsepipe n s' of Inl e \<Rightarrow> Inl e | Inr (r, s2) \<Rightarrow> Inr (PipeCmd c r, s2))
       else Inr (c, skip s))"
| "parseexec 0 ps = Inl OutOfCalls"
| "parseexec (Suc n) ps =
     (if peek ps ''('' then parseblock n ps
      else (case parseredirs ps of Inl e \<Rightarrow> Inl e | Inr (rs, s) \<Rightarrow> exec_loop [] rs s))"
| "parseblock 0 ps = Inl OutOfCalls"
| "parseblock (Suc n) ps =
     (if \<not> peek ps ''('' then Inl (Syntax ''parseblock'')
      else
        let (_, _, s) = gettoken ps in
        (case parseline n s of
           Inl e \<Rightarrow> Inl e
         | Inr (c, s1) \<Rightarrow>
             if \<not> peek s1 '')'' then Inl (Syntax ''syntax - missing )'')
             else
               let (_, _, s2) = gettoken s1 in
               (case parseredirs s2 of Inl e \<Rightarrow> Inl e | Inr (rs, s3) \<Rightarrow> Inr (foldl add_redir c rs, s3))))"

definition parsecmd :: "string \<Rightarrow> perr + cmd" where
  "parsecmd s = (case parseline (4 * length s + 4) s of
     Inl e \<Rightarrow> Inl e
   | Inr (c, r) \<Rightarrow> if skip r \<noteq> [] then Inl (Syntax ''syntax'') else Inr c)"

section \<open>Running a command\<close>

text \<open>
  A program as the system calls it makes: each call with what the program does with its result.  After \<open>SExec\<close> comes
  what the program does when \<open>exec\<close> fails; \<open>fork\<close> returns twice, with 0 in the child.
\<close>

datatype sysprog =
    SExit
  | SExec string "string list" sysprog
  | SFork "int \<Rightarrow> sysprog"
  | SWait sysprog
  | SClose int sysprog
  | SOpen string uint "int \<Rightarrow> sysprog"
  | SPipe "(int \<times> int) option \<Rightarrow> sysprog"
  | SDup int sysprog
  | SWrite int string sysprog

definition sh_panic :: "string \<Rightarrow> sysprog" where
  "sh_panic s = SWrite 2 (s @ [CHR 0x0A]) SExit"

definition fork1 :: "(int \<Rightarrow> sysprog) \<Rightarrow> sysprog" where
  "fork1 k = SFork (\<lambda>pid. if pid = -1 then sh_panic ''fork'' else k pid)"

primrec runcmd :: "cmd \<Rightarrow> sysprog" where
  "runcmd (ExecCmd argv) = (case argv of
     [] \<Rightarrow> SExit
   | a # _ \<Rightarrow> SExec a argv (SWrite 2 (''exec '' @ a @ '' failed'' @ [CHR 0x0A]) SExit))"
| "runcmd (RedirCmd c f mode fd) =
     SClose fd (SOpen f mode (\<lambda>r. if r < 0 then SWrite 2 (''open '' @ f @ '' failed'' @ [CHR 0x0A]) SExit else runcmd c))"
| "runcmd (ListCmd l r) = fork1 (\<lambda>pid. if pid = 0 then runcmd l else SWait (runcmd r))"
| "runcmd (PipeCmd l r) = SPipe (\<lambda>p. case p of
     None \<Rightarrow> sh_panic ''pipe''
   | Some (p0, p1) \<Rightarrow>
       fork1 (\<lambda>pid.
       if pid = 0 then SClose 1 (SDup p1 (SClose p0 (SClose p1 (runcmd l))))
       else
         fork1 (\<lambda>pid.
         if pid = 0 then SClose 0 (SDup p0 (SClose p0 (SClose p1 (runcmd r))))
         else SClose p0 (SClose p1 (SWait (SWait SExit))))))"
| "runcmd (BackCmd c) = fork1 (\<lambda>pid. if pid = 0 then runcmd c else SExit)"

section \<open>The parser returns\<close>

definition returns :: "string \<Rightarrow> perr + 'b \<times> string \<Rightarrow> bool" where
  "returns s r \<longleftrightarrow> (case r of Inl e \<Rightarrow> e \<noteq> OutOfCalls | Inr (c, s') \<Rightarrow> length s' \<le> length s)"

lemma returns_shorter: "returns s r \<Longrightarrow> length s \<le> length s' \<Longrightarrow> returns s' r"
  by (auto simp: returns_def split: sum.splits)

lemma parseredirs_returns: "returns s (parseredirs s)"
proof (induction s rule: parseredirs.induct)
  case (1 ps)
  show ?case
  proof (cases "parseredirs ps")
    case (Inr v)
    then show ?thesis using parseredirs_length [of ps "fst v" "snd v"] by (auto simp: returns_def split: prod.split)
  next
    case (Inl e)
    have "e \<noteq> OutOfCalls"
    proof
      assume "e = OutOfCalls"
      then obtain tok x s tok2 f s' where "peek ps ''<>''" "gettoken ps = (tok, x, s)" "gettoken s = (tok2, f, s')" "tok2 = CHR ''a''"
          "parseredirs s' = Inl OutOfCalls"
        using Inl by (auto simp: parseredirs.simps [of ps] Let_def split: if_splits prod.splits sum.splits)
      then show False using 1 by (fastforce simp: returns_def)
    qed
    then show ?thesis using Inl by (simp add: returns_def)
  qed
qed

lemma exec_loop_returns: "returns ps (exec_loop args rs ps)"
proof (induction args rs ps rule: exec_loop.induct)
  case (1 args rs ps)
  obtain tok q s where g: "gettoken ps = (tok, q, s)" by (cases "gettoken ps") auto
  have l: "length s \<le> length ps" using gettoken_length [OF g] .
  show ?case
  proof (cases "\<not> peek ps ''|)&;'' \<and> tok = CHR ''a'' \<and> length args + 1 < MAXARGS \<and> (\<exists>v. parseredirs s = Inr v)")
    case True
    then obtain rs' s' where r: "parseredirs s = Inr (rs', s')" by auto
    have "returns s' (exec_loop (args @ [q]) (rs @ rs') s')"
      using 1 [OF _ refl g [symmetric] refl _ _ _ r refl] True by simp
    then show ?thesis
      using True g r l parseredirs_length [OF r] by (subst exec_loop.simps) (simp add: Let_def returns_shorter)
  next
    case False
    then show ?thesis
      using g l length_skip [of ps] parseredirs_returns [of s]
      by (subst exec_loop.simps) (auto simp: Let_def returns_def split: sum.splits)
  qed
qed

lemma back_loop_length: "back_loop c s = (c', s') \<Longrightarrow> length s' \<le> length s"
proof (induction c s rule: back_loop.induct)
  case (1 c ps)
  obtain tok q s where g: "gettoken ps = (tok, q, s)" by (cases "gettoken ps") auto
  show ?case
  proof (cases "peek ps ''&''")
    case True
    then have "back_loop (BackCmd c) s = (c', s')" using "1.prems" g by (simp add: back_loop.simps [of c ps])
    then show ?thesis using "1.IH" [OF True refl g [symmetric] refl] gettoken_length [OF g] by simp
  next
    case False
    then show ?thesis using "1.prems" length_skip [of ps] by (auto simp: back_loop.simps [of c ps])
  qed
qed

text \<open>One step of each function, given that the functions it calls return.\<close>

lemma parseline_step:
  assumes "returns s (parsepipe n s)" "\<And>t. length t < length s \<Longrightarrow> returns t (parseline n t)"
  shows "returns s (parseline (Suc n) s)"
proof (cases "parsepipe n s")
  case (Inl e)
  then show ?thesis using assms(1) by (simp add: returns_def)
next
  case (Inr v)
  obtain c s1 where v: "v = (c, s1)" by (cases v)
  obtain c' s' where b: "back_loop c s1 = (c', s')" by (cases "back_loop c s1")
  have l: "length s' \<le> length s" using assms(1) Inr v back_loop_length [OF b] by (simp add: returns_def)
  obtain tok q s2 where g: "gettoken s' = (tok, q, s2)" by (cases "gettoken s'") auto
  show ?thesis
  proof (cases "peek s' '';''")
    case True
    then have l2: "length s2 < length s" using gettoken_shorter [OF peek_nonempty g] l by force
    then have "returns s2 (parseline n s2)" using assms(2) [of s2] by simp
    then show ?thesis using Inr v b g True l2 by (auto simp: returns_def split: sum.splits)
  next
    case False
    then show ?thesis using Inr v b l length_skip [of s'] by (simp add: returns_def)
  qed
qed

lemma parsepipe_step:
  assumes "returns s (parseexec n s)" "\<And>t. length t < length s \<Longrightarrow> returns t (parsepipe n t)"
  shows "returns s (parsepipe (Suc n) s)"
proof (cases "parseexec n s")
  case (Inl e)
  then show ?thesis using assms(1) by (simp add: returns_def)
next
  case (Inr v)
  obtain c s' where v: "v = (c, s')" by (cases v)
  have l: "length s' \<le> length s" using assms(1) Inr v by (simp add: returns_def)
  obtain tok q s2 where g: "gettoken s' = (tok, q, s2)" by (cases "gettoken s'") auto
  show ?thesis
  proof (cases "peek s' ''|''")
    case True
    then have l2: "length s2 < length s" using gettoken_shorter [OF peek_nonempty g] l by force
    then have "returns s2 (parsepipe n s2)" using assms(2) [of s2] by simp
    then show ?thesis using Inr v g True l2 by (auto simp: returns_def split: sum.splits)
  next
    case False
    then show ?thesis using Inr v l length_skip [of s'] by (simp add: returns_def)
  qed
qed

lemma parseexec_step:
  assumes "returns s (parseblock n s)"
  shows "returns s (parseexec (Suc n) s)"
proof (cases "peek s ''(''")
  case True
  then show ?thesis using assms by simp
next
  case False
  show ?thesis
  proof (cases "parseredirs s")
    case (Inl e)
    then show ?thesis using False parseredirs_returns [of s] by (simp add: returns_def)
  next
    case (Inr v)
    then show ?thesis using False exec_loop_returns [of "snd v" "[]" "fst v"] parseredirs_length [of s "fst v" "snd v"]
      by (auto split: prod.split intro: returns_shorter)
  qed
qed

lemma parseblock_step:
  assumes "\<And>t. length t < length s \<Longrightarrow> returns t (parseline n t)"
  shows "returns s (parseblock (Suc n) s)"
proof (cases "peek s ''(''")
  case False
  then show ?thesis by (simp add: returns_def)
next
  case True
  obtain tok q s1 where g: "gettoken s = (tok, q, s1)" by (cases "gettoken s") auto
  then have l1: "length s1 < length s" using gettoken_shorter [OF peek_nonempty [OF True]] by blast
  then have r: "returns s1 (parseline n s1)" using assms [of s1] by simp
  show ?thesis
  proof (cases "parseline n s1")
    case (Inl e)
    then show ?thesis using True g r by (simp add: returns_def)
  next
    case (Inr v)
    obtain c s2 where v: "v = (c, s2)" by (cases v)
    obtain tok q s3 where g2: "gettoken s2 = (tok, q, s3)" by (cases "gettoken s2") auto
    have "length s3 \<le> length s" using r Inr v gettoken_length [OF g2] l1 by (simp add: returns_def)
    then show ?thesis using True g Inr v g2 parseredirs_returns [of s3]
      by (auto simp: returns_def split: sum.splits)
  qed
qed

text \<open>The calls that one function may need for a line of a given length.\<close>

lemma parse_returns:
  "(4 * length s + 4 \<le> n \<longrightarrow> returns s (parseline n s)) \<and> (4 * length s + 3 \<le> n \<longrightarrow> returns s (parsepipe n s)) \<and>
   (4 * length s + 2 \<le> n \<longrightarrow> returns s (parseexec n s)) \<and> (4 * length s + 1 \<le> n \<longrightarrow> returns s (parseblock n s))"
proof (induction n arbitrary: s)
  case (Suc n)
  have ih: "4 * length s + 4 \<le> n \<Longrightarrow> returns s (parseline n s)" "4 * length s + 3 \<le> n \<Longrightarrow> returns s (parsepipe n s)"
    "4 * length s + 2 \<le> n \<Longrightarrow> returns s (parseexec n s)" "4 * length s + 1 \<le> n \<Longrightarrow> returns s (parseblock n s)" for s
    using Suc.IH [of s] by simp_all
  show ?case
    by (intro conjI impI parseline_step parsepipe_step parseexec_step parseblock_step) (auto intro: ih)
qed simp

lemma parsecmd_returns: "parsecmd s \<noteq> Inl OutOfCalls"
  using parse_returns [of s "4 * length s + 4"] by (auto simp: parsecmd_def returns_def split: sum.splits)

section \<open>Printing and parsing\<close>

definition show_redir :: "redir \<Rightarrow> string" where
  "show_redir r = (case r of (f, mode, fd) \<Rightarrow> (if fd = 0 then '' < '' else '' > '') @ f)"

definition show_redirs :: "redir list \<Rightarrow> string" where
  "show_redirs rs = concat (map show_redir rs)"

definition show_args :: "string list \<Rightarrow> string" where
  "show_args as = concat (map (\<lambda>a. CHR '' '' # a) as)"

primrec show_cmd :: "cmd \<Rightarrow> string" where
  "show_cmd (ExecCmd as) = show_args as"
| "show_cmd (RedirCmd c f mode fd) = show_cmd c @ show_redir (f, mode, fd)"
| "show_cmd (PipeCmd l r) = ''('' @ show_cmd l @ ''|'' @ show_cmd r @ '')''"
| "show_cmd (ListCmd l r) = ''('' @ show_cmd l @ '';'' @ show_cmd r @ '')''"
| "show_cmd (BackCmd c) = ''('' @ show_cmd c @ ''&)''"

text \<open>The commands that can be written: words without special characters, fewer than \<open>MAXARGS\<close> arguments.\<close>

definition word :: "string \<Rightarrow> bool" where
  "word w \<longleftrightarrow> w \<noteq> [] \<and> list_all (\<lambda>c. word_char c \<and> c \<noteq> CHR 0x00) w"

definition redir_ok :: "redir \<Rightarrow> bool" where
  "redir_ok r \<longleftrightarrow> (case r of (f, mode, fd) \<Rightarrow> word f \<and> (mode, fd) \<in> {(rd_mode, 0), (wr_mode, 1)})"

primrec wf_cmd :: "cmd \<Rightarrow> bool" where
  "wf_cmd (ExecCmd as) \<longleftrightarrow> length as < MAXARGS \<and> list_all word as"
| "wf_cmd (RedirCmd c f mode fd) \<longleftrightarrow> wf_cmd c \<and> redir_ok (f, mode, fd)"
| "wf_cmd (PipeCmd l r) \<longleftrightarrow> wf_cmd l \<and> wf_cmd r"
| "wf_cmd (ListCmd l r) \<longleftrightarrow> wf_cmd l \<and> wf_cmd r"
| "wf_cmd (BackCmd c) \<longleftrightarrow> wf_cmd c"

text \<open>What may follow a command.\<close>

definition stop :: "string \<Rightarrow> bool" where
  "stop s \<longleftrightarrow> s = [] \<or> hd s \<in> set ''|)&;''"

definition ends_word :: "string \<Rightarrow> bool" where
  "ends_word s \<longleftrightarrow> s = [] \<or> \<not> word_char (hd s)"

lemma skip_skip [simp]: "skip (skip s) = skip s"
  by (simp add: skip_def dropWhile_idem)

lemma skip_Nil [simp]: "skip [] = []"
  by (simp add: skip_def)

lemma skip_Cons: "skip (c # s) = (if whitespace c then skip s else c # s)"
  by (simp add: skip_def)

lemma peek_skip [simp]: "peek (skip s) toks = peek s toks" and gettoken_skip [simp]: "gettoken (skip s) = gettoken s"
  by (simp_all add: peek_def gettoken_def)

lemma specials [simp]:
  "whitespace CHR '' ''" "\<not> whitespace CHR ''|''" "\<not> whitespace CHR '')''" "\<not> whitespace CHR ''&''" "\<not> whitespace CHR '';''"
  "\<not> whitespace CHR ''(''" "\<not> whitespace CHR ''<''" "\<not> whitespace CHR ''>''"
  by (simp_all add: whitespace_def)

lemma stop_skip: "stop s \<Longrightarrow> skip s = s"
  by (cases s) (auto simp: stop_def skip_Cons)

lemma stop_ends_word: "stop s \<Longrightarrow> ends_word s"
  by (auto simp: stop_def ends_word_def symbols_def)

lemma word_cons: "word w \<Longrightarrow> \<exists>c cs. w = c # cs \<and> word_char c"
  by (cases w) (auto simp: word_def)

lemma gettoken_word:
  assumes "word w" "ends_word s"
  shows "gettoken (w @ s) = (CHR ''a'', w, skip s)"
proof -
  obtain c cs where w: "w = c # cs" "word_char c" using word_cons [OF assms(1)] by blast
  have all: "\<And>x. x \<in> set w \<Longrightarrow> word_char x" using assms(1) by (auto simp: word_def list_all_iff)
  have "takeWhile word_char (w @ s) = w" "dropWhile word_char (w @ s) = s"
    using all assms(2) by (auto simp: takeWhile_append dropWhile_append ends_word_def) (cases s; simp)+
  moreover have "c \<notin> set ''|();&<''" "c \<noteq> CHR ''>''" using w(2) by (auto simp: symbols_def)
  moreover have "skip (w @ s) = c # cs @ s" using w by (simp add: skip_Cons)
  ultimately show ?thesis using w(1) by (simp add: gettoken_def del: takeWhile.simps dropWhile.simps)
qed

lemma peek_word: "word w \<Longrightarrow> set toks \<subseteq> {c. symbols c} \<Longrightarrow> \<not> peek (w @ s) toks"
  using word_cons [of w] by (auto simp: peek_def skip_Cons)

lemma ends_word_redirs: "ends_word s \<Longrightarrow> ends_word (show_redirs rs @ s)"
  by (cases rs) (auto simp: show_redirs_def show_redir_def ends_word_def split: prod.splits if_splits)

lemma ends_word_args: "ends_word s \<Longrightarrow> ends_word (show_args as @ s)"
  by (cases as) (auto simp: show_args_def ends_word_def)

lemma parseredirs_skip: "parseredirs (skip s) = parseredirs s"
  by (subst (1 2) parseredirs.simps) simp

lemma parseredirs_none: "\<not> peek s ''<>'' \<Longrightarrow> parseredirs s = Inr ([], skip s)"
  by (subst parseredirs.simps) simp

lemma parseredirs_show:
  assumes "list_all redir_ok rs" "ends_word s" "\<not> peek s ''<>''"
  shows "parseredirs (show_redirs rs @ s) = Inr (rs, skip s)"
  using assms(1)
proof (induction rs)
  case Nil
  then show ?case using parseredirs_none [OF assms(3)] by (simp add: show_redirs_def)
next
  case (Cons r rs)
  obtain f mode fd where r: "r = (f, mode, fd)" by (cases r)
  have f: "word f" "(mode, fd) = (rd_mode, 0) \<or> (mode, fd) = (wr_mode, 1)" using Cons.prems r by (auto simp: redir_ok_def)
  define tl where "tl = show_redirs rs @ s"
  have ih: "parseredirs (skip tl) = Inr (rs, skip s)" using Cons by (simp add: parseredirs_skip tl_def)
  have "redir_of (if fd = 0 then CHR ''<'' else CHR ''>'') f = r" using f(2) r by (auto simp: redir_of_def)
  moreover have "gettoken ((if fd = 0 then '' < '' else '' > '') @ f @ tl) =
      (if fd = 0 then CHR ''<'' else CHR ''>'', [if fd = 0 then CHR ''<'' else CHR ''>''], skip (f @ tl))"
    by (simp add: gettoken_def skip_Cons)
  moreover have "gettoken (skip (f @ tl)) = (CHR ''a'', f, skip tl)"
    using gettoken_word [OF f(1) ends_word_redirs [OF assms(2)]] by (simp add: tl_def)
  moreover have "peek ((if fd = 0 then '' < '' else '' > '') @ f @ tl) ''<>''" by (simp add: peek_def skip_Cons)
  ultimately have "parseredirs ((if fd = 0 then '' < '' else '' > '') @ f @ tl) = Inr (r # rs, skip s)"
    using ih by (subst parseredirs.simps) (simp add: Let_def)
  then show ?case by (simp add: show_redirs_def show_redir_def r tl_def)
qed

lemma stop_peek: "stop s \<Longrightarrow> \<not> peek s ''<>''" "stop s \<Longrightarrow> \<not> peek s ''(''"
  by (cases s; auto simp: stop_def peek_def skip_Cons)+

lemma redirs_show: "list_all redir_ok rs \<Longrightarrow> stop s \<Longrightarrow> parseredirs (show_redirs rs @ s) = Inr (rs, s)"
  using parseredirs_show [of rs s] by (simp add: stop_ends_word stop_peek stop_skip)

lemma exec_loop_skip: "exec_loop args rs (skip s) = exec_loop args rs s"
  by (subst (1 2) exec_loop.simps) simp

lemma exec_loop_stop: "stop s \<Longrightarrow> exec_loop args rs s = Inr (foldl add_redir (ExecCmd args) rs, s)"
  by (cases s; subst exec_loop.simps) (auto simp: stop_def peek_def gettoken_def skip_Cons)

lemma peek_args: "word a \<Longrightarrow> set toks \<subseteq> {c. symbols c} \<Longrightarrow> \<not> peek (show_args (a # as) @ s) toks"
  using peek_word [of a toks "show_args as @ s"] peek_skip [of "show_args (a # as) @ s"] peek_skip [of "a @ show_args as @ s"]
  by (simp add: show_args_def skip_Cons)

lemma exec_loop_show:
  assumes "list_all redir_ok rs2" "stop s"
  shows "list_all word as \<Longrightarrow> as \<noteq> [] \<Longrightarrow> length args + length as < MAXARGS \<Longrightarrow>
    exec_loop args rs (show_args as @ show_redirs rs2 @ s) = Inr (foldl add_redir (ExecCmd (args @ as)) (rs @ rs2), s)"
proof (induction as arbitrary: args rs)
  case (Cons a as)
  define rest where "rest = show_args as @ show_redirs rs2 @ s"
  have a: "word a" "list_all word as" using Cons.prems by auto
  have "ends_word rest" using ends_word_args ends_word_redirs stop_ends_word [OF assms(2)] by (simp add: rest_def)
  then have g: "gettoken (show_args (a # as) @ show_redirs rs2 @ s) = (CHR ''a'', a, skip rest)"
    using gettoken_word [OF a(1), of rest] gettoken_skip [of "show_args (a # as) @ show_redirs rs2 @ s"] gettoken_skip [of "a @ rest"]
    by (simp add: show_args_def rest_def skip_Cons)
  have p: "\<not> peek (show_args (a # as) @ show_redirs rs2 @ s) ''|)&;''"
    using peek_args [OF a(1), of "''|)&;''" as "show_redirs rs2 @ s"] by (simp add: symbols_def)
  have step: "exec_loop args rs (show_args (a # as) @ show_redirs rs2 @ s) = (case parseredirs rest of
      Inl e \<Rightarrow> Inl e | Inr (rs', s') \<Rightarrow> exec_loop (args @ [a]) (rs @ rs') s')"
    using p g Cons.prems(3) by (subst exec_loop.simps) (simp add: Let_def parseredirs_skip)
  show ?case
  proof (cases as)
    case Nil
    then have "parseredirs rest = Inr (rs2, s)" using redirs_show [OF assms] by (simp add: rest_def show_args_def)
    then show ?thesis using step exec_loop_stop [OF assms(2)] Nil by simp
  next
    case C: (Cons b bs)
    then have "\<not> peek rest ''<>''"
      using peek_args [of b "''<>''" bs "show_redirs rs2 @ s"] a(2) by (simp add: rest_def symbols_def)
    then have "parseredirs rest = Inr ([], skip rest)" by (rule parseredirs_none)
    then show ?thesis using step Cons.IH [of "args @ [a]" rs] Cons.prems C by (simp add: exec_loop_skip rest_def)
  qed
qed simp

lemma peek_redirs: "stop s \<Longrightarrow> \<not> peek (show_redirs rs @ s) ''(''"
proof (cases rs)
  case (Cons r rs')
  then show ?thesis by (auto simp: show_redirs_def show_redir_def peek_def skip_Cons split: prod.splits)
qed (simp add: show_redirs_def stop_peek)

lemma parseexec_args:
  assumes "list_all word as" "length as < MAXARGS" "list_all redir_ok rs" "stop s"
  shows "parseexec (Suc n) (show_args as @ show_redirs rs @ s) = Inr (foldl add_redir (ExecCmd as) rs, s)"
proof (cases as)
  case Nil
  then show ?thesis
    using peek_redirs [OF assms(4), of rs] redirs_show [OF assms(3,4)] exec_loop_stop [OF assms(4)] by (simp add: show_args_def)
next
  case (Cons a as')
  let ?ps = "show_args as @ show_redirs rs @ s"
  have "\<not> peek ?ps ''(''" "\<not> peek ?ps ''<>''"
    using assms(1) Cons peek_args [of a _ as' "show_redirs rs @ s"] by (auto simp: symbols_def)
  then show ?thesis
    using parseredirs_none [of ?ps] exec_loop_show [OF assms(3,4,1), of "[]" "[]"] assms(2) Cons by (simp add: exec_loop_skip)
qed

lemma parse_skip:
  "parseblock n (skip s) = parseblock n s" "parseexec n (skip s) = parseexec n s"
  "parsepipe n (skip s) = parsepipe n s" "parseline n (skip s) = parseline n s"
proof -
  show b: "parseblock n (skip s) = parseblock n s" for n by (cases n) simp_all
  show e: "parseexec n (skip s) = parseexec n s" for n by (cases n) (simp_all add: b parseredirs_skip)
  show p: "parsepipe n (skip s) = parsepipe n s" for n by (cases n) (simp_all add: e)
  show "parseline n (skip s) = parseline n s" by (cases n) (simp_all add: p)
qed

lemma pipe_one:
  assumes "parseexec n x = Inr (c, d # s)" "d \<in> set '')&;''"
  shows "parsepipe (Suc n) x = Inr (c, d # s)"
  using assms by (auto simp: peek_def skip_Cons)

lemma pipe_two:
  assumes "parseexec n x = Inr (c, CHR ''|'' # y)" "parsepipe n y = Inr (r, s)"
  shows "parsepipe (Suc n) x = Inr (PipeCmd c r, s)"
  using assms by (simp add: peek_def skip_Cons gettoken_def parse_skip)

lemma line_one: "parsepipe n x = Inr (c, CHR '')'' # s) \<Longrightarrow> parseline (Suc n) x = Inr (c, CHR '')'' # s)"
  by (simp add: peek_def skip_Cons back_loop.simps [of c])

lemma line_back: "parsepipe n x = Inr (c, ''&)'' @ s) \<Longrightarrow> parseline (Suc n) x = Inr (BackCmd c, CHR '')'' # s)"
  by (simp add: peek_def skip_Cons back_loop.simps gettoken_def)

lemma line_two:
  assumes "parsepipe n x = Inr (c, CHR '';'' # y)" "parseline n y = Inr (r, s)"
  shows "parseline (Suc n) x = Inr (ListCmd c r, s)"
  using assms by (simp add: peek_def skip_Cons back_loop.simps [of c] gettoken_def parse_skip)

lemma block_show:
  assumes "parseline n x = Inr (c, CHR '')'' # show_redirs rs @ s)" "list_all redir_ok rs" "stop s"
  shows "parseexec (Suc (Suc n)) (CHR ''('' # x) = Inr (foldl add_redir c rs, s)"
  using assms redirs_show [OF assms(2,3)] by (simp add: peek_def skip_Cons gettoken_def parse_skip parseredirs_skip)

text \<open>The calls that a printed command needs.\<close>

primrec depth :: "cmd \<Rightarrow> nat" where
  "depth (ExecCmd as) = 1"
| "depth (RedirCmd c f mode fd) = depth c"
| "depth (PipeCmd l r) = 5 + max (depth l) (depth r)"
| "depth (ListCmd l r) = 5 + max (depth l) (depth r)"
| "depth (BackCmd c) = 5 + depth c"

lemma depth_length: "depth c \<le> 4 * length (show_cmd c) + 2"
  by (induction c) auto

lemma parseexec_show:
  "wf_cmd c \<Longrightarrow> depth c \<le> n \<Longrightarrow> list_all redir_ok rs \<Longrightarrow> stop s \<Longrightarrow>
    parseexec n (show_cmd c @ show_redirs rs @ s) = Inr (foldl add_redir c rs, s)"
proof (induction c arbitrary: n rs s)
  case (ExecCmd as)
  then show ?case using parseexec_args [of as rs s "n - 1"] by (cases n) (auto simp del: parseexec.simps)
next
  case (RedirCmd c f mode fd)
  then show ?case using RedirCmd.IH [of n "(f, mode, fd) # rs" s] by (simp add: show_redirs_def add_redir_def)
next
  case (PipeCmd l r)
  obtain j where n: "n = Suc (Suc (Suc (Suc (Suc j))))" "depth l \<le> j" "depth r \<le> j"
    using PipeCmd.prems(2) by (intro that [of "n - 5"]) auto
  define R where "R = CHR '')'' # show_redirs rs @ s"
  have "parseexec (Suc j) (show_cmd l @ CHR ''|'' # show_cmd r @ R) = Inr (l, CHR ''|'' # show_cmd r @ R)"
    using PipeCmd.IH(1) [of "Suc j" "[]" "CHR ''|'' # show_cmd r @ R"] PipeCmd.prems n(2) by (simp add: show_redirs_def stop_def)
  moreover have "parseexec j (show_cmd r @ R) = Inr (r, R)"
    using PipeCmd.IH(2) [of j "[]" R] PipeCmd.prems n(3) by (simp add: show_redirs_def stop_def R_def)
  then have "parsepipe (Suc j) (show_cmd r @ R) = Inr (r, R)" unfolding R_def by (rule pipe_one) simp
  ultimately have "parsepipe (Suc (Suc j)) (show_cmd l @ CHR ''|'' # show_cmd r @ R) = Inr (PipeCmd l r, R)" by (rule pipe_two)
  then have "parseline (Suc (Suc (Suc j))) (show_cmd l @ CHR ''|'' # show_cmd r @ R) = Inr (PipeCmd l r, R)" unfolding R_def by (rule line_one)
  from block_show [OF this [unfolded R_def] PipeCmd.prems(3,4)] show ?case unfolding n(1) by simp
next
  case (ListCmd l r)
  obtain j where n: "n = Suc (Suc (Suc (Suc (Suc j))))" "depth l \<le> j" "depth r \<le> j"
    using ListCmd.prems(2) by (intro that [of "n - 5"]) auto
  define R where "R = CHR '')'' # show_redirs rs @ s"
  have "parseexec (Suc j) (show_cmd l @ CHR '';'' # show_cmd r @ R) = Inr (l, CHR '';'' # show_cmd r @ R)"
    using ListCmd.IH(1) [of "Suc j" "[]" "CHR '';'' # show_cmd r @ R"] ListCmd.prems n(2) by (simp add: show_redirs_def stop_def)
  then have "parsepipe (Suc (Suc j)) (show_cmd l @ CHR '';'' # show_cmd r @ R) = Inr (l, CHR '';'' # show_cmd r @ R)" by (rule pipe_one) simp
  moreover have "parseexec j (show_cmd r @ R) = Inr (r, R)"
    using ListCmd.IH(2) [of j "[]" R] ListCmd.prems n(3) by (simp add: show_redirs_def stop_def R_def)
  then have "parsepipe (Suc j) (show_cmd r @ R) = Inr (r, R)" unfolding R_def by (rule pipe_one) simp
  then have "parseline (Suc (Suc j)) (show_cmd r @ R) = Inr (r, R)" unfolding R_def by (rule line_one)
  ultimately have "parseline (Suc (Suc (Suc j))) (show_cmd l @ CHR '';'' # show_cmd r @ R) = Inr (ListCmd l r, R)" by (rule line_two)
  from block_show [OF this [unfolded R_def] ListCmd.prems(3,4)] show ?case unfolding n(1) by simp
next
  case (BackCmd c)
  obtain j where n: "n = Suc (Suc (Suc (Suc (Suc j))))" "depth c \<le> j"
    using BackCmd.prems(2) by (intro that [of "n - 5"]) auto
  have "parseexec (Suc j) (show_cmd c @ ''&)'' @ show_redirs rs @ s) = Inr (c, ''&)'' @ show_redirs rs @ s)"
    using BackCmd.IH [of "Suc j" "[]" "''&)'' @ show_redirs rs @ s"] BackCmd.prems n(2) by (simp add: show_redirs_def stop_def)
  then have "parsepipe (Suc (Suc j)) (show_cmd c @ ''&)'' @ show_redirs rs @ s) = Inr (c, ''&)'' @ show_redirs rs @ s)"
    using pipe_one [of "Suc j" _ c "CHR ''&''"] by simp
  then have "parseline (Suc (Suc (Suc j))) (show_cmd c @ ''&)'' @ show_redirs rs @ s) = Inr (BackCmd c, CHR '')'' # show_redirs rs @ s)"
    by (rule line_back)
  from block_show [OF this BackCmd.prems(3,4)] show ?case unfolding n(1) by simp
qed

section \<open>Properties\<close>

text \<open>C13: the parser inverts printing: a command of simple commands, redirections, pipes, lists and
  background commands, printed with parentheses where they group, is parsed to the same command.\<close>

theorem parsecmd_show:
  assumes "wf_cmd c"
  shows "parsecmd (show_cmd c) = Inr c"
proof -
  let ?n = "4 * length (show_cmd c) + 2"
  have "parseexec ?n (show_cmd c) = Inr (c, [])"
    using parseexec_show [OF assms depth_length, of "[]" "[]"] by (simp add: show_redirs_def stop_def)
  then have "parsepipe (Suc ?n) (show_cmd c) = Inr (c, [])" by (simp add: peek_def)
  then have "parseline (Suc (Suc ?n)) (show_cmd c) = Inr (c, [])" by (simp add: peek_def back_loop.simps [of c] del: parsepipe.simps)
  moreover have "Suc (Suc ?n) = 4 * length (show_cmd c) + 4" by simp
  ultimately show ?thesis by (simp only: parsecmd_def sum.case prod.case skip_Nil) simp
qed

theorem parsecmd_show_witness:
  "parsecmd ''(( cat < in| grep a b) > out;( sleep&))'' =
     Inr (ListCmd (RedirCmd (PipeCmd (RedirCmd (ExecCmd [''cat'']) ''in'' rd_mode 0) (ExecCmd [''grep'', ''a'', ''b''])) ''out'' wr_mode 1)
       (BackCmd (ExecCmd [''sleep''])))"
  using parsecmd_show [of "ListCmd (RedirCmd (PipeCmd (RedirCmd (ExecCmd [''cat'']) ''in'' rd_mode 0) (ExecCmd [''grep'', ''a'', ''b''])) ''out'' wr_mode 1)
       (BackCmd (ExecCmd [''sleep'']))"]
  by (simp add: show_redir_def show_args_def word_def redir_ok_def whitespace_def symbols_def MAXARGS_def)

end
