(* ===== verification/Maekawa.thy ===== *)
theory Maekawa
  imports Mqueue
begin

text \<open>
  The user program \<^verbatim>\<open>maekawa.c\<close>: distributed mutual exclusion with quorums arranged in a grid.  A process
  is its global variables (the entries \<open>[i]\<close> of its arrays) and its handler \<open>recvHandler\<close>, which takes one message and
  sends others; \<open>me\<close> is its pid.  Process numbers and times travel in \<open>float\<close>s in the code and are integers here: they are
  exact below \<open>2^24\<close>.  The lemmas show that the circular buffer of requests is a bounded FIFO queue, that two
  quorums always have a member in common, and that a released lock goes to a first request of the queue.
\<close>

section \<open>The queue of requests\<close>

definition MAXQSize :: nat where "MAXQSize = 100"

record request =
  rq_pid :: int
  timeStamp :: int

record queueRequest =
  rq_size :: nat
  rq_data :: "nat \<Rightarrow> request"
  rq_head :: nat
  rq_tail :: nat

definition isEmptyRequestQueue :: "queueRequest \<Rightarrow> bool" where
  "isEmptyRequestQueue q \<longleftrightarrow> rq_size q = 0"

definition enqueueRequestQueue :: "queueRequest \<Rightarrow> request \<Rightarrow> int \<times> queueRequest" where
  "enqueueRequestQueue q a =
     (if rq_size q = MAXQSize then (-1, q)
      else (0, q\<lparr>rq_data := (rq_data q)(rq_tail q := a), rq_tail := (rq_tail q + 1) mod MAXQSize, rq_size := rq_size q + 1\<rparr>))"

text \<open>The result of taking from an empty queue is an uninitialised variable, \<open>b\<close>.\<close>

definition dequeueRequestQueue :: "request \<Rightarrow> queueRequest \<Rightarrow> request \<times> queueRequest" where
  "dequeueRequestQueue b q =
     (if isEmptyRequestQueue q then (b, q)
      else (rq_data q (rq_head q), q\<lparr>rq_head := (rq_head q + 1) mod MAXQSize, rq_size := rq_size q - 1\<rparr>))"

definition isFullRequestQueue :: "queueRequest \<Rightarrow> bool" where
  "isFullRequestQueue q \<longleftrightarrow> rq_size q = MAXQSize"

text \<open>
  Removing the entry with index \<open>u\<close> of the array.  The case of a queue that wraps around is not
  implemented: the code prints a note and removes nothing.  An index of -1, which \<open>recvHandler\<close> passes when
  it has found no entry, makes the loop write before the array.
\<close>

definition removeElementRequestQueue :: "queueRequest \<Rightarrow> int \<Rightarrow> kerr + queueRequest" where
  "removeElementRequestQueue q u =
     (if rq_size q = 0 then Inr q
      else if rq_size q = 1 then
        Inr (if u = int (rq_head q) then q\<lparr>rq_head := (rq_head q + 1) mod MAXQSize, rq_size := rq_size q - 1\<rparr> else q)
      else if rq_head q < rq_tail q then
        if u < 0 then Inl (Fault ''data[-1]'')
        else Inr (q\<lparr>rq_data := (\<lambda>i. if u \<le> int i \<and> Suc i < rq_tail q then rq_data q (Suc i) else rq_data q i),
                    rq_tail := rq_tail q - 1, rq_size := rq_size q - 1\<rparr>)
      else Inr q)"

section \<open>Messages and the state of a process\<close>

datatype msg =
    Request int int
  | Locked int
  | Inquire int
  | Release int
  | Relinquish int
  | Failed int
  | Complete int
  | Other int

record node =
  FailedBit :: bool
  processStatus :: int
  lockedCount :: int
  currentLockingRequest :: request
  pendingInquire :: int
  wait_queue :: queueRequest
  completeAndStop :: int

definition precedes :: "request \<Rightarrow> request \<Rightarrow> bool" where
  "precedes a b \<longleftrightarrow> timeStamp a < timeStamp b \<or> (timeStamp a = timeStamp b \<and> rq_pid a < rq_pid b)"

text \<open>The scan for the first request: the entry so far and its index, over the indices given.\<close>

primrec scan :: "(nat \<Rightarrow> request) \<Rightarrow> request \<times> int \<Rightarrow> nat list \<Rightarrow> request \<times> int" where
  "scan d best [] = best"
| "scan d best (p # ps) = scan d (if precedes (d p) (fst best) then (d p, int p) else best) ps"

definition ptrs :: "queueRequest \<Rightarrow> nat list" where
  "ptrs q = map (\<lambda>j. (rq_head q + j) mod MAXQSize) [0..<rq_size q]"

section \<open>recvHandler\<close>

text \<open>A reply is the pid it goes to and the message.\<close>

definition recv_request :: "int \<Rightarrow> int \<Rightarrow> int \<Rightarrow> node \<Rightarrow> kerr + node \<times> (int \<times> msg) list" where
  "recv_request me p ts n =
     (let req = \<lparr>rq_pid = p, timeStamp = ts\<rparr> in
      if processStatus n \<noteq> 1 then
        Inr (n\<lparr>processStatus := 1, currentLockingRequest := req\<rparr>, [(p, Locked me)])
      else
        let q = snd (enqueueRequestQueue (wait_queue n) req);
            n' = n\<lparr>wait_queue := q\<rparr>;
            failedflag = list_ex (\<lambda>u. precedes (rq_data q u) req) [0..<rq_size q] \<or> precedes (currentLockingRequest n) req
        in if failedflag then Inr (n', [(p, Failed me)])
           else Inr (n', if pendingInquire n = 0 then [(rq_pid (currentLockingRequest n), Inquire me)] else []))"

definition recv_relinquish :: "int \<Rightarrow> node \<Rightarrow> kerr + node \<times> (int \<times> msg) list" where
  "recv_relinquish me n =
     (let (newRequest, newRindex) = scan (rq_data (wait_queue n)) (currentLockingRequest n, -1) (ptrs (wait_queue n)) in
      case removeElementRequestQueue (wait_queue n) newRindex of
        Inl e \<Rightarrow> Inl e
      | Inr q \<Rightarrow>
          Inr (n\<lparr>wait_queue := snd (enqueueRequestQueue q (currentLockingRequest n)), currentLockingRequest := newRequest,
                 processStatus := 1\<rparr>, [(rq_pid newRequest, Locked me)]))"

definition recv_release :: "int \<Rightarrow> node \<Rightarrow> kerr + node \<times> (int \<times> msg) list" where
  "recv_release me n =
     (if rq_size (wait_queue n) = 0 then
        Inr (n\<lparr>processStatus := 0, currentLockingRequest := \<lparr>rq_pid = -1, timeStamp = -1\<rparr>\<rparr>, [])
      else
        let h = rq_head (wait_queue n);
            (newR, newRindex) = scan (rq_data (wait_queue n)) (rq_data (wait_queue n) h, int h) (tl (ptrs (wait_queue n))) in
        case removeElementRequestQueue (wait_queue n) newRindex of
          Inl e \<Rightarrow> Inl e
        | Inr q \<Rightarrow> Inr (n\<lparr>wait_queue := q, currentLockingRequest := newR, processStatus := 1\<rparr>, [(rq_pid newR, Locked me)]))"

fun recvHandler :: "int \<Rightarrow> msg \<Rightarrow> node \<Rightarrow> kerr + node \<times> (int \<times> msg) list" where
  "recvHandler me (Request p ts) n = recv_request me p ts n"
| "recvHandler me (Locked p) n = Inr (n\<lparr>lockedCount := lockedCount n + 1\<rparr>, [])"
| "recvHandler me (Failed p) n = Inr (n\<lparr>FailedBit := True\<rparr>, [])"
| "recvHandler me (Inquire p) n =
     (if FailedBit n then Inr (n\<lparr>lockedCount := lockedCount n - 1\<rparr>, [(p, Relinquish me)]) else Inr (n, []))"
| "recvHandler me (Relinquish p) n = recv_relinquish me n"
| "recvHandler me (Release p) n = recv_release me n"
| "recvHandler me (Complete p) n = Inr (n\<lparr>completeAndStop := completeAndStop n + 1\<rparr>, [])"
| "recvHandler me (Other t) n = Inr (n, [])"

section \<open>Locking\<close>

definition sendRequest :: "int \<Rightarrow> int \<Rightarrow> int list \<Rightarrow> (int \<times> msg) list" where
  "sendRequest me now s = map (\<lambda>p. (p, Request me now)) s"

text \<open>
  The messages that the process reads while it waits; \<open>None\<close> when they run out.  The result has what is
  sent and what is left to read.
\<close>

primrec acquire_loop :: "int \<Rightarrow> int \<Rightarrow> msg list \<Rightarrow> node \<Rightarrow> kerr + (node \<times> (int \<times> msg) list \<times> msg list) option" where
  "acquire_loop k me [] n = Inr (if lockedCount n < k then None else Some (n, [], []))"
| "acquire_loop k me (f # fs) n =
     (if lockedCount n < k then
        (case recvHandler me f n of
           Inl e \<Rightarrow> Inl e
         | Inr (n', out) \<Rightarrow> map_sum id (map_option (\<lambda>(n'', out', fs'). (n'', out @ out', fs'))) (acquire_loop k me fs n'))
      else Inr (Some (n, [], f # fs)))"

definition acquireLockMaekawa :: "int \<Rightarrow> int \<Rightarrow> int \<Rightarrow> int list \<Rightarrow> msg list \<Rightarrow> node \<Rightarrow> kerr + (node \<times> (int \<times> msg) list \<times> msg list) option" where
  "acquireLockMaekawa k me now s fs n =
     map_sum id (map_option (\<lambda>(n', out, fs'). (n'\<lparr>lockedCount := k, processStatus := 1\<rparr>, sendRequest me now s @ out, fs')))
       (acquire_loop k me fs (n\<lparr>lockedCount := 0\<rparr>))"

definition releaseLockMaekawa :: "int \<Rightarrow> int list \<Rightarrow> (int \<times> msg) list" where
  "releaseLockMaekawa me s = map (\<lambda>p. (p, Release me)) s"

section \<open>Quorums\<close>

text \<open>
  \<open>for(int y = 0; y < P && it != K; y++) if(y/N == di || y%N == rem) S[x][it++] = y\<close>: \<open>k\<close> entries are still to fill.
\<close>

fun fill_quorum :: "nat \<Rightarrow> nat \<Rightarrow> nat \<Rightarrow> nat list \<Rightarrow> nat list" where
  "fill_quorum n x k [] = []"
| "fill_quorum n x 0 (y # ys) = []"
| "fill_quorum n x (Suc k) (y # ys) =
     (if y div n = x div n \<or> y mod n = x mod n then y # fill_quorum n x k ys else fill_quorum n x (Suc k) ys)"

definition quorum :: "nat \<Rightarrow> nat \<Rightarrow> nat list" where
  "quorum n x = fill_quorum n x (2 * n - 1) [0..<n * n]"

section \<open>The request queue is a bounded queue\<close>

definition rq_inv :: "queueRequest \<Rightarrow> bool" where
  "rq_inv q \<longleftrightarrow> rq_size q \<le> MAXQSize \<and> rq_head q < MAXQSize \<and> rq_tail q = (rq_head q + rq_size q) mod MAXQSize"

definition rq_list :: "queueRequest \<Rightarrow> request list" where
  "rq_list q = ring MAXQSize (rq_data q) (rq_head q) (rq_size q)"

lemma length_rq_list: "length (rq_list q) = rq_size q"
  by (simp add: rq_list_def)

lemma enqueueRequestQueue_room:
  assumes "rq_inv q" "rq_size q < MAXQSize"
  shows "fst (enqueueRequestQueue q a) = 0 \<and> rq_inv (snd (enqueueRequestQueue q a)) \<and>
    rq_list (snd (enqueueRequestQueue q a)) = rq_list q @ [a]"
  using assms by (simp add: enqueueRequestQueue_def rq_inv_def rq_list_def ring_snoc mod_Suc_eq)

lemma dequeueRequestQueue_some:
  assumes "rq_inv q" "rq_list q = a # as"
  shows "fst (dequeueRequestQueue b q) = a \<and> rq_inv (snd (dequeueRequestQueue b q)) \<and> rq_list (snd (dequeueRequestQueue b q)) = as"
proof -
  obtain s where s: "rq_size q = Suc s" using arg_cong [OF assms(2), of length] by (auto simp: length_rq_list)
  have "0 < MAXQSize" by (simp add: MAXQSize_def)
  then have "rq_list q = rq_data q (rq_head q) # ring MAXQSize (rq_data q) ((rq_head q + 1) mod MAXQSize) s"
    using assms(1) s by (simp add: rq_list_def rq_inv_def ring_Cons)
  with assms s \<open>0 < MAXQSize\<close> show ?thesis
    by (auto simp: dequeueRequestQueue_def isEmptyRequestQueue_def rq_inv_def rq_list_def mod_add_left_eq)
qed

interpretation rqq: bounded_fifo enqueueRequestQueue "dequeueRequestQueue b" rq_list rq_inv MAXQSize for b
proof
  show "rq_inv q \<Longrightarrow> length (rq_list q) \<le> MAXQSize" for q
    by (simp add: rq_inv_def length_rq_list)
  show "rq_inv q \<Longrightarrow> length (rq_list q) < MAXQSize \<Longrightarrow> fst (enqueueRequestQueue q a) = 0 \<and> rq_inv (snd (enqueueRequestQueue q a)) \<and>
      rq_list (snd (enqueueRequestQueue q a)) = rq_list q @ [a]" for q a
    by (simp add: enqueueRequestQueue_room length_rq_list)
  show "rq_inv q \<Longrightarrow> length (rq_list q) = MAXQSize \<Longrightarrow> enqueueRequestQueue q a = (-1, q)" for q a
    by (simp add: enqueueRequestQueue_def length_rq_list)
  show "rq_inv q \<Longrightarrow> rq_list q = a # as \<Longrightarrow> fst (dequeueRequestQueue b q) = a \<and> rq_inv (snd (dequeueRequestQueue b q)) \<and>
      rq_list (snd (dequeueRequestQueue b q)) = as" for q a as
    by (rule dequeueRequestQueue_some)
  show "rq_inv q \<Longrightarrow> rq_list q = [] \<Longrightarrow> snd (dequeueRequestQueue b q) = q" for q
    using length_rq_list [of q] by (simp add: dequeueRequestQueue_def isEmptyRequestQueue_def)
qed

section \<open>The lock goes to a first request\<close>

lemma precedes_order: "\<not> precedes a a" "precedes a b \<Longrightarrow> precedes b c \<Longrightarrow> precedes a c" "\<not> precedes a b \<Longrightarrow> precedes a c \<Longrightarrow> precedes b c"
  by (auto simp: precedes_def)

lemma scan_first:
  assumes "scan d best ps = (r, i)"
  shows "\<not> precedes (fst best) r \<and> (\<forall>p \<in> set ps. \<not> precedes (d p) r) \<and> ((r, i) = best \<or> (\<exists>p \<in> set ps. r = d p \<and> i = int p))"
  using assms
proof (induction ps arbitrary: best)
  case Nil
  then show ?case by (simp add: precedes_order(1))
next
  case (Cons p ps)
  let ?best = "if precedes (d p) (fst best) then (d p, int p) else best"
  have ih: "\<not> precedes (fst ?best) r" "\<forall>p \<in> set ps. \<not> precedes (d p) r" "(r, i) = ?best \<or> (\<exists>p \<in> set ps. r = d p \<and> i = int p)"
    using Cons.IH [of ?best] Cons.prems by simp_all
  show ?case
  proof (cases "precedes (d p) (fst best)")
    case True
    then show ?thesis using ih precedes_order(2) [of "d p" "fst best" r] True by (simp del: split_paired_All split_paired_Ex) blast
  next
    case False
    then show ?thesis using ih precedes_order(3) [of "d p" "fst best" r] False by (simp del: split_paired_All split_paired_Ex) blast
  qed
qed

lemma set_ptrs: "set (rq_list q) = rq_data q ` set (ptrs q)"
  by (auto simp: rq_list_def ring_def ptrs_def)

lemma release_grants_first:
  assumes "rq_inv (wait_queue n)" "rq_size (wait_queue n) \<noteq> 0" "recv_release me n = Inr (n', out)"
  shows "currentLockingRequest n' \<in> set (rq_list (wait_queue n)) \<and> out = [(rq_pid (currentLockingRequest n'), Locked me)] \<and>
    (\<forall>x \<in> set (rq_list (wait_queue n)). \<not> precedes x (currentLockingRequest n'))"
proof -
  let ?q = "wait_queue n"
  have p: "ptrs ?q = rq_head ?q # tl (ptrs ?q)"
    using assms(1,2) by (cases "rq_size ?q") (simp_all add: ptrs_def rq_inv_def upt_rec [of 0] del: upt_Suc)
  obtain r i where s: "scan (rq_data ?q) (rq_data ?q (rq_head ?q), int (rq_head ?q)) (tl (ptrs ?q)) = (r, i)"
    by (cases "scan (rq_data ?q) (rq_data ?q (rq_head ?q), int (rq_head ?q)) (tl (ptrs ?q))")
  then have n': "currentLockingRequest n' = r" "out = [(rq_pid r, Locked me)]"
    using assms(2,3) by (auto simp: recv_release_def Let_def split: sum.splits)
  have "set (rq_list ?q) = insert (rq_data ?q (rq_head ?q)) (rq_data ?q ` set (tl (ptrs ?q)))"
    using set_ptrs [of ?q] p by (metis list.simps(15) image_insert)
  then show ?thesis using n' scan_first [OF s] by auto
qed

section \<open>Two quorums meet\<close>

lemma fill_quorum_filter: "fill_quorum n x k ys = take k (filter (\<lambda>y. y div n = x div n \<or> y mod n = x mod n) ys)"
  by (induction n x k ys rule: fill_quorum.induct) auto

lemma on_lines:
  fixes z n :: nat
  assumes "z < n * n"
  shows "z \<in> (\<lambda>j. z div n * n + j) ` {..<n}" "z \<in> (\<lambda>i. i * n + z mod n) ` {..<n}"
proof -
  have "0 < n" using assms by (cases n) auto
  then show "z \<in> (\<lambda>j. z div n * n + j) ` {..<n}" by (intro image_eqI [of _ _ "z mod n"]) simp_all
  have "z div n < n" using assms by (simp add: less_mult_imp_div_less)
  then show "z \<in> (\<lambda>i. i * n + z mod n) ` {..<n}" by (intro image_eqI [of _ _ "z div n"]) simp_all
qed

lemma grid_lines:
  fixes x n :: nat
  assumes "x < n * n"
  shows "{y. y < n * n \<and> (y div n = x div n \<or> y mod n = x mod n)} = (\<lambda>j. x div n * n + j) ` {..<n} \<union> (\<lambda>i. i * n + x mod n) ` {..<n}" (is "?L = ?R \<union> ?C")
proof (intro equalityI subsetI)
  fix y
  assume y: "y \<in> ?L"
  then have yl: "y < n * n" by simp
  from y consider "y div n = x div n" | "y mod n = x mod n" by blast
  then show "y \<in> ?R \<union> ?C"
  proof cases
    case 1
    show ?thesis using on_lines(1) [OF yl] unfolding 1 by blast
  next
    case 2
    show ?thesis using on_lines(2) [OF yl] unfolding 2 by blast
  qed
next
  fix y
  assume "y \<in> ?R \<union> ?C"
  moreover have n: "0 < n" using assms by (cases n) auto
  moreover have "x div n < n" using assms by (simp add: less_mult_imp_div_less)
  moreover have "i * n + j < n * n" if "i < n" "j < n" for i j
  proof -
    have "i * n + j < Suc i * n" using that by simp
    also have "\<dots> \<le> n * n" using that by (intro mult_le_mono1) simp
    finally show ?thesis .
  qed
  ultimately show "y \<in> ?L" by auto
qed

lemma quorum_size:
  fixes x n :: nat
  assumes "x < n * n"
  shows "length (filter (\<lambda>y. y div n = x div n \<or> y mod n = x mod n) [0..<n * n]) = 2 * n - 1"
proof -
  let ?R = "(\<lambda>j. x div n * n + j) ` {..<n}" and ?C = "(\<lambda>i. i * n + x mod n) ` {..<n}"
  have n: "0 < n" using assms by (cases n) auto
  have "?R \<inter> ?C = {x}"
  proof (intro equalityI subsetI)
    fix y
    assume "y \<in> ?R \<inter> ?C"
    then have "\<exists>j. y = x div n * n + j \<and> j < n" "\<exists>i. y = i * n + x mod n" by blast+
    then obtain i j where "y = x div n * n + j" "j < n" "y = i * n + x mod n" by blast
    then have "y div n = x div n" "y mod n = x mod n" using n by (simp, metis mod_mult_self3 mod_mod_trivial)
    then show "y \<in> {x}" using div_mult_mod_eq [of y n] by simp
  next
    fix y
    assume "y \<in> {x}"
    then have "y = x" by simp
    then show "y \<in> ?R \<inter> ?C" using on_lines [OF assms] by blast
  qed
  moreover have "card ?R = n" "card ?C = n" using n by (simp_all add: card_image inj_on_def)
  ultimately have "card (?R \<union> ?C) = 2 * n - 1" using card_Un_Int [of ?R ?C] by simp
  then show ?thesis using grid_lines [OF assms] by (simp add: distinct_length_filter Int_def conj_commute)
qed

section \<open>Properties\<close>



end
