(* ===== verification/Mkfs.thy ===== *)
theory Mkfs
  imports Inode
begin

text \<open>
  The program that builds the file-system image (\<^verbatim>\<open>mkfs.c\<close>), which the kernel finds on its disk.  It runs on
  the host; the image is an array of sectors.  The files named on the command line are arguments (name and
  contents), and opening them and moving inside the image are assumed to succeed.  A failed \<open>assert\<close> is \<open>None\<close>, and so is
  reading a sector past the end of the image, which ends the program.  The messages on the terminal are left out.  \<open>xshort\<close> and
  \<open>xint\<close> store numbers in little-endian order, as \<open>le16\<close> and \<open>le32\<close> of the kernel read them.

  The lemmas show that the kernel decodes the superblock that was written, that in the bit map exactly the
  unused blocks are free, and that the loop of \<open>iappend\<close> appends bytes to a file, finds or allocates every block it needs,
  and changes no block of another file.
\<close>

section \<open>Layout\<close>

definition FSSIZE :: nat where "FSSIZE = 1000"
definition NINODES :: nat where "NINODES = 200"
definition nbitmap :: nat where "nbitmap = FSSIZE div (BSIZE * 8) + 1"
definition ninodeblocks :: nat where "ninodeblocks = NINODES div IPB + 1"
definition nlog :: nat where "nlog = LOGSIZE"
definition nmeta :: nat where "nmeta = 2 + nlog + ninodeblocks + nbitmap"

record image =
  img :: "nat \<Rightarrow> block"
  msb :: superblock
  freeinode :: uint
  freeblock :: uint

section \<open>Sectors and i-nodes\<close>

text \<open>
  After the first loop of \<open>main\<close> the image has \<open>FSSIZE\<close> sectors, and every other sector is read before it
  is written: reading a sector past the end of the image returns no bytes, and the program exits.
\<close>

definition wsect :: "uint \<Rightarrow> block \<Rightarrow> image \<Rightarrow> image" where
  "wsect sec buf s = s\<lparr>img := (img s)(unat sec := buf)\<rparr>"

definition rsect :: "uint \<Rightarrow> image \<Rightarrow> block option" where
  "rsect sec s = (if unat sec < FSSIZE then Some (img s (unat sec)) else None)"

definition winode :: "uint \<Rightarrow> dinode \<Rightarrow> image \<Rightarrow> image option" where
  "winode inum ip s =
     (let bn = IBLOCK inum (msb s) in
      case rsect bn s of None \<Rightarrow> None | Some buf \<Rightarrow> Some (wsect bn (put_dinode inum ip buf) s))"

definition rinode :: "uint \<Rightarrow> image \<Rightarrow> dinode option" where
  "rinode inum s =
     (let bn = IBLOCK inum (msb s) in
      case rsect bn s of None \<Rightarrow> None | Some buf \<Rightarrow> Some (get_dinode inum buf))"

definition mk_ialloc :: "short \<Rightarrow> image \<Rightarrow> (uint \<times> image) option" where
  "mk_ialloc ty s =
     (let inum = freeinode s;
          din = \<lparr>d_type = ty, d_major = 0, d_minor = 0, d_nlink = 1, d_size = 0, d_addrs = (\<lambda>_. 0)\<rparr>
      in map_option (Pair inum) (winode inum din (s\<lparr>freeinode := freeinode s + 1\<rparr>)))"

text \<open>The bit map: the first \<open>used\<close> blocks are in use.\<close>

primrec mark_used :: "nat \<Rightarrow> block" where
  "mark_used 0 = (\<lambda>_. 0)"
| "mark_used (Suc i) = (mark_used i)(i div 8 := mark_used i (i div 8) OR bit_mask i)"

definition mk_balloc :: "uint \<Rightarrow> image \<Rightarrow> image option" where
  "mk_balloc used s =
     (if sint used < int (BSIZE * 8) then Some (wsect (sb_bmapstart (msb s)) (mark_used (nat (sint used))) s) else None)"

section \<open>iappend\<close>

text \<open>
  The block of a file for block number \<open>fbn\<close>, allocated when there is none: its number, and the new
  i-node and image.
\<close>

definition fblock :: "nat \<Rightarrow> dinode \<Rightarrow> image \<Rightarrow> (uint \<times> dinode \<times> image) option" where
  "fblock fbn din s =
     (if fbn < NDIRECT then
        if d_addrs din fbn = 0 then
          Some (freeblock s, din\<lparr>d_addrs := (d_addrs din)(fbn := freeblock s)\<rparr>, s\<lparr>freeblock := freeblock s + 1\<rparr>)
        else Some (d_addrs din fbn, din, s)
      else
        let (din1, s1) = (if d_addrs din NDIRECT = 0
              then (din\<lparr>d_addrs := (d_addrs din)(NDIRECT := freeblock s)\<rparr>, s\<lparr>freeblock := freeblock s + 1\<rparr>) else (din, s))
        in case rsect (d_addrs din1 NDIRECT) s1 of
             None \<Rightarrow> None
           | Some indirect \<Rightarrow>
               let x = le32 indirect (4 * (fbn - NDIRECT)) in
               if x = 0 then
                 Some (freeblock s1, din1,
                   wsect (d_addrs din1 NDIRECT) (set_le32 (4 * (fbn - NDIRECT)) (freeblock s1) indirect) (s1\<lparr>freeblock := freeblock s1 + 1\<rparr>))
               else Some (x, din1, s1))"

definition put_at :: "nat \<Rightarrow> uchar list \<Rightarrow> block \<Rightarrow> block" where
  "put_at o' p d = (\<lambda>i. if o' \<le> i \<and> i < o' + length p then p ! (i - o') else d i)"

text \<open>One turn of the loop writes the bytes \<open>q\<close> to block \<open>fbn\<close>, at \<open>off\<close> in the file.\<close>

definition iappend_turn :: "nat \<Rightarrow> uchar list \<Rightarrow> nat \<Rightarrow> dinode \<Rightarrow> image \<Rightarrow> (dinode \<times> image) option" where
  "iappend_turn fbn q off din s =
     (case fblock fbn din s of
        None \<Rightarrow> None
      | Some (x, din1, s1) \<Rightarrow>
          case rsect x s1 of
            None \<Rightarrow> None
          | Some buf \<Rightarrow> Some (din1, wsect x (put_at (off - fbn * BSIZE) q buf) s1))"

function iappend_loop :: "uchar list \<Rightarrow> nat \<Rightarrow> dinode \<Rightarrow> image \<Rightarrow> (nat \<times> dinode \<times> image) option" where
  "iappend_loop p off din s =
     (if p = [] then Some (off, din, s)
      else
        let fbn = off div BSIZE;
            n1 = min (length p) ((fbn + 1) * BSIZE - off)
        in if \<not> fbn < MAXFILE then None
           else
             case iappend_turn fbn (take n1 p) off din s of
               None \<Rightarrow> None
             | Some r \<Rightarrow> iappend_loop (drop n1 p) (off + n1) (fst r) (snd r))"
  by pat_completeness auto
termination
proof (relation "measure (\<lambda>(p, off, din, s). length p)")
  fix p :: "uchar list" and off fbn n1 :: nat
  assume "p \<noteq> []" "fbn = off div BSIZE" "n1 = min (length p) ((fbn + 1) * BSIZE - off)"
  moreover have "off < (off div BSIZE + 1) * BSIZE" using dividend_less_div_times [of BSIZE off] by (simp add: BSIZE_def)
  ultimately have "0 < n1" by simp
  then have "length (drop n1 p) < length p" using \<open>p \<noteq> []\<close> by simp
  then show "((drop n1 p, a), p, b) \<in> measure (\<lambda>(p, off, din, s). length p)" for a b :: "nat \<times> dinode \<times> image"
    by (simp split: prod.split)
qed simp

declare iappend_loop.simps [simp del]

definition iappend :: "uint \<Rightarrow> uchar list \<Rightarrow> image \<Rightarrow> image option" where
  "iappend inum p s =
     (case rinode inum s of
        None \<Rightarrow> None
      | Some din \<Rightarrow>
          case iappend_loop p (unat (d_size din)) din s of
            None \<Rightarrow> None
          | Some (off, din', s') \<Rightarrow> winode inum (din'\<lparr>d_size := of_nat off\<rparr>) s')"

section \<open>main\<close>

definition put_sb :: "superblock \<Rightarrow> block \<Rightarrow> block" where
  "put_sb b d =
     set_le32 24 (sb_bmapstart b) (set_le32 20 (sb_inodestart b) (set_le32 16 (sb_logstart b) (set_le32 12 (sb_nlog b) (
     set_le32 8 (sb_ninodes b) (set_le32 4 (sb_nblocks b) (set_le32 0 (sb_size b) d))))))"

definition new_sb :: superblock where
  "new_sb = \<lparr>sb_size = of_nat FSSIZE, sb_nblocks = of_nat (FSSIZE - nmeta), sb_ninodes = of_nat NINODES, sb_nlog = of_nat nlog,
     sb_logstart = 2, sb_inodestart = of_nat (2 + nlog), sb_bmapstart = of_nat (2 + nlog + ninodeblocks)\<rparr>"

definition empty_image :: image where
  "empty_image = wsect 1 (put_sb new_sb (\<lambda>_. 0)) \<lparr>img = (\<lambda>_ _. 0), msb = new_sb, freeinode = 1, freeblock = of_nat nmeta\<rparr>"

text \<open>The bytes of a directory entry: the name is cut to \<open>DIRSIZ\<close> bytes or filled up with null bytes.\<close>

definition de_bytes :: "uint \<Rightarrow> uchar list \<Rightarrow> uchar list" where
  "de_bytes inum name = [ucast inum, ucast (drop_bit 8 inum)] @ take DIRSIZ (name @ replicate DIRSIZ 0)"

text \<open>What the reads of a host file return.\<close>

fun chop :: "nat \<Rightarrow> uchar list \<Rightarrow> uchar list list" where
  "chop n p = (if p = [] \<or> n = 0 then [] else take n p # chop n (drop n p))"

declare chop.simps [simp del]

primrec iappends :: "uint \<Rightarrow> uchar list list \<Rightarrow> image \<Rightarrow> image option" where
  "iappends inum [] s = Some s"
| "iappends inum (p # ps) s = Option.bind (iappend inum p s) (iappends inum ps)"

definition add_file :: "uchar list \<times> uchar list \<Rightarrow> image \<Rightarrow> image option" where
  "add_file f s = (case f of (argv, contents) \<Rightarrow>
     if 47 \<in> set argv then None
     else
       let name = (if argv \<noteq> [] \<and> hd argv = 95 then tl argv else argv)
       in case mk_ialloc T_FILE s of
            None \<Rightarrow> None
          | Some (inum, s1) \<Rightarrow> Option.bind (iappend ROOTINO (de_bytes inum name) s1) (iappends inum (chop BSIZE contents)))"

primrec add_files :: "(uchar list \<times> uchar list) list \<Rightarrow> image \<Rightarrow> image option" where
  "add_files [] s = Some s"
| "add_files (f # fs) s = Option.bind (add_file f s) (add_files fs)"

definition fix_root :: "image \<Rightarrow> image option" where
  "fix_root s =
     (case rinode ROOTINO s of
        None \<Rightarrow> None
      | Some din \<Rightarrow> winode ROOTINO (din\<lparr>d_size := (d_size din div of_nat BSIZE + 1) * of_nat BSIZE\<rparr>) s)"

definition mkfs :: "(uchar list \<times> uchar list) list \<Rightarrow> image option" where
  "mkfs files =
     (case mk_ialloc T_DIR empty_image of
        None \<Rightarrow> None
      | Some (rootino, s) \<Rightarrow>
          if rootino \<noteq> ROOTINO then None
          else
            Option.bind (iappend rootino (de_bytes rootino [46]) s) (\<lambda>s.
            Option.bind (iappend rootino (de_bytes rootino [46, 46]) s) (\<lambda>s.
            Option.bind (add_files files s) (\<lambda>s.
            Option.bind (fix_root s) (\<lambda>s.
            mk_balloc (freeblock s) s)))))"

section \<open>The kernel's view\<close>

lemma superblock_read:
  "le32 (put_sb b d) 0 = sb_size b" "le32 (put_sb b d) 4 = sb_nblocks b" "le32 (put_sb b d) 8 = sb_ninodes b"
  "le32 (put_sb b d) 12 = sb_nlog b" "le32 (put_sb b d) 16 = sb_logstart b" "le32 (put_sb b d) 20 = sb_inodestart b"
  "le32 (put_sb b d) 24 = sb_bmapstart b"
  by (simp_all add: put_sb_def le32_set_other)

lemma mark_used_bit: "mark_used n (b div 8) AND bit_mask b = 0 \<longleftrightarrow> n \<le> b"
proof (induction n)
  case 0
  then show ?case by simp
next
  case (Suc n)
  show ?case
  proof (cases "b = n")
    case True
    then show ?thesis using mark_self [of "mark_used n (n div 8)" n] by simp
  next
    case False
    then have "mark_used (Suc n) (b div 8) AND bit_mask b = mark_used n (b div 8) AND bit_mask b"
      using mark_other [of n b "mark_used n"] by simp
    then show ?thesis using Suc.IH False by (simp only:) linarith
  qed
qed

lemma find_upt_le: "find (\<lambda>i. u \<le> i) [0..<n] = (if u < n then Some u else None)"
  by (auto simp: find_upt_Some_iff find_upt_None_iff)

section \<open>Appending to a file\<close>

text \<open>The block that holds block \<open>f\<close> of a file, or 0, and byte \<open>i\<close> of its contents.\<close>

definition daddr :: "image \<Rightarrow> dinode \<Rightarrow> nat \<Rightarrow> uint" where
  "daddr s din f =
     (if f < NDIRECT then d_addrs din f
      else if d_addrs din NDIRECT = 0 then 0 else le32 (img s (unat (d_addrs din NDIRECT))) (4 * (f - NDIRECT)))"

definition fbyte :: "image \<Rightarrow> dinode \<Rightarrow> nat \<Rightarrow> uchar" where
  "fbyte s din i = img s (unat (daddr s din (i div BSIZE))) (i mod BSIZE)"

text \<open>
  A file whose first \<open>m\<close> blocks are allocated: the blocks are distinct, none of them is the indirect
  block, all of them are below the first free block, and everything from there on is zero.
\<close>

definition file_ok :: "image \<Rightarrow> dinode \<Rightarrow> nat \<Rightarrow> bool" where
  "file_ok s din m \<longleftrightarrow>
     m \<le> MAXFILE \<and> nmeta \<le> unat (freeblock s) \<and>
     (\<forall>f<m. nmeta \<le> unat (daddr s din f) \<and> unat (daddr s din f) < unat (freeblock s)) \<and>
     (\<forall>f. m \<le> f \<and> f < MAXFILE \<longrightarrow> daddr s din f = 0) \<and>
     (\<forall>f<m. \<forall>g<m. daddr s din f = daddr s din g \<longrightarrow> f = g) \<and>
     (if NDIRECT < m
      then nmeta \<le> unat (d_addrs din NDIRECT) \<and> unat (d_addrs din NDIRECT) < unat (freeblock s) \<and>
           (\<forall>f<m. daddr s din f \<noteq> d_addrs din NDIRECT)
      else d_addrs din NDIRECT = 0) \<and>
     (\<forall>b\<ge>unat (freeblock s). img s b = (\<lambda>_. 0))"

text \<open>The blocks that \<open>m\<close> blocks of data take, the indirect block included.\<close>

definition cost :: "nat \<Rightarrow> nat" where
  "cost m = m + (if NDIRECT < m then 1 else 0)"

definition owned :: "image \<Rightarrow> dinode \<Rightarrow> nat \<Rightarrow> nat set" where
  "owned s din m = (\<lambda>f. unat (daddr s din f)) ` {..<m} \<union> (if NDIRECT < m then {unat (d_addrs din NDIRECT)} else {})"

text \<open>From one image to the next the file keeps its blocks, and no block that was in use by another file changes.\<close>

definition grown :: "image \<Rightarrow> dinode \<Rightarrow> nat \<Rightarrow> image \<Rightarrow> dinode \<Rightarrow> nat \<Rightarrow> bool" where
  "grown s din m s' din' m' \<longleftrightarrow>
     file_ok s' din' m' \<and> m \<le> m' \<and> unat (freeblock s') + cost m = unat (freeblock s) + cost m' \<and>
     msb s' = msb s \<and> freeinode s' = freeinode s \<and>
     (\<forall>f<m. daddr s' din' f = daddr s din f) \<and>
     (\<forall>b<unat (freeblock s). b \<notin> owned s din m \<longrightarrow> img s' b = img s b) \<and>
     owned s' din' m' \<subseteq> owned s din m \<union> {unat (freeblock s)..}"

lemma cost_mono: "m \<le> m' \<Longrightarrow> cost m \<le> cost m'"
  by (simp add: cost_def)

lemma grown_freeblock: "grown s din m s' din' m' \<Longrightarrow> unat (freeblock s) \<le> unat (freeblock s')"
  using cost_mono [of m m'] unfolding grown_def by linarith

lemma grownD:
  assumes "grown s din m s' din' m'"
  shows "file_ok s' din' m'" "m \<le> m'" "unat (freeblock s') + cost m = unat (freeblock s) + cost m'"
    "msb s' = msb s" "freeinode s' = freeinode s" "f < m \<Longrightarrow> daddr s' din' f = daddr s din f"
    "b < unat (freeblock s) \<Longrightarrow> b \<notin> owned s din m \<Longrightarrow> img s' b = img s b"
    "b \<in> owned s' din' m' \<Longrightarrow> b < unat (freeblock s) \<Longrightarrow> b \<in> owned s din m"
proof -
  show "b \<in> owned s din m" if "b \<in> owned s' din' m'" "b < unat (freeblock s)"
  proof -
    have "b \<in> owned s din m \<union> {unat (freeblock s)..}" using assms that(1) unfolding grown_def by (elim conjE) (rule subsetD)
    then show ?thesis using that(2) by simp
  qed
qed (use assms in \<open>simp_all add: grown_def\<close>)

lemma grown_trans:
  assumes "grown s din m s1 din1 m1" "grown s1 din1 m1 s2 din2 m2"
  shows "grown s din m s2 din2 m2"
proof -
  note g1 = grownD [OF assms(1)] and g2 = grownD [OF assms(2)] and le = grown_freeblock [OF assms(1)]
  have keep: "img s2 b = img s b" if b: "b < unat (freeblock s)" "b \<notin> owned s din m" for b
  proof -
    have "b \<notin> owned s1 din1 m1" using g1(8) b by blast
    moreover have "b < unat (freeblock s1)" using le b(1) by linarith
    ultimately have "img s2 b = img s1 b" using g2(7) by blast
    then show ?thesis using g1(7) [OF b] by simp
  qed
  have own: "b \<in> owned s din m" if "b \<in> owned s2 din2 m2" "b < unat (freeblock s)" for b
    using g1(8) [OF g2(8) [OF that(1)]] that(2) le by linarith
  have "m \<le> m2" using g1(2) g2(2) by simp
  moreover have "unat (freeblock s2) + cost m = unat (freeblock s) + cost m2" using g1(3) g2(3) by linarith
  moreover have "daddr s2 din2 f = daddr s din f" if "f < m" for f using g1(2,6) g2(6) that by simp
  moreover have "owned s2 din2 m2 \<subseteq> owned s din m \<union> {unat (freeblock s)..}" using own by fastforce
  ultimately show ?thesis unfolding grown_def using keep g2(1,4,5) g1(4,5) by simp
qed

lemma file_okD:
  assumes "file_ok s din m"
  shows "f < m \<Longrightarrow> nmeta \<le> unat (daddr s din f)" "f < m \<Longrightarrow> unat (daddr s din f) < unat (freeblock s)"
    "m \<le> f \<Longrightarrow> f < MAXFILE \<Longrightarrow> daddr s din f = 0"
    "f < m \<Longrightarrow> g < m \<Longrightarrow> daddr s din f = daddr s din g \<Longrightarrow> f = g"
    "NDIRECT < m \<Longrightarrow> f < m \<Longrightarrow> daddr s din f \<noteq> d_addrs din NDIRECT"
    "unat (freeblock s) \<le> b \<Longrightarrow> img s b = (\<lambda>_. 0)" "m \<le> MAXFILE"
    "NDIRECT < m \<Longrightarrow> nmeta \<le> unat (d_addrs din NDIRECT)" "NDIRECT < m \<Longrightarrow> unat (d_addrs din NDIRECT) < unat (freeblock s)"
    "\<not> NDIRECT < m \<Longrightarrow> d_addrs din NDIRECT = 0"
  using assms unfolding file_ok_def by (auto split: if_splits)

lemma nmeta_pos: "0 < nmeta"
  by (simp add: nmeta_def)

lemma fresh_number:
  assumes "file_ok s din m" "unat (freeblock s) + k \<le> FSSIZE"
  shows "1 \<le> k \<Longrightarrow> unat (freeblock s + 1) = unat (freeblock s) + 1"
    "2 \<le> k \<Longrightarrow> unat (freeblock s + 1 + 1) = unat (freeblock s) + 2" "freeblock s \<noteq> 0"
proof -
  have le: "nmeta \<le> unat (freeblock s)" using assms unfolding file_ok_def by auto
  show "unat (freeblock s + 1) = unat (freeblock s) + 1" if "1 \<le> k"
    using assms(2) that by (simp add: unat_word_ariths FSSIZE_def)
  show "unat (freeblock s + 1 + 1) = unat (freeblock s) + 2" if "2 \<le> k"
    using assms(2) that by (simp add: unat_word_ariths FSSIZE_def)
  show "freeblock s \<noteq> 0" using le nmeta_pos by auto
qed

lemma grown_refl: "file_ok s din m \<Longrightarrow> grown s din m s din m"
  unfolding grown_def by auto

text \<open>One more block \<open>x\<close> for the file, with or without a new indirect block.\<close>

lemma file_ok_new:
  assumes ok: "file_ok s din m" and m: "m < MAXFILE"
    and x: "unat (freeblock s) \<le> unat x" "unat x < unat (freeblock s1)"
    and d: "\<And>f. f < MAXFILE \<Longrightarrow> daddr s1 din1 f = (if f = m then x else daddr s din f)"
    and ind: "m < NDIRECT \<Longrightarrow> d_addrs din1 NDIRECT = 0" "NDIRECT < m \<Longrightarrow> d_addrs din1 NDIRECT = d_addrs din NDIRECT"
      "m = NDIRECT \<Longrightarrow> unat (d_addrs din1 NDIRECT) = unat (freeblock s) \<and> unat x = unat (freeblock s) + 1"
    and img: "\<And>b. m < NDIRECT \<or> b \<noteq> unat (d_addrs din1 NDIRECT) \<Longrightarrow> img s1 b = img s b"
  shows "file_ok s1 din1 (Suc m)"
proof -
  note o = file_okD [OF ok]
  have base: "nmeta \<le> unat (freeblock s)" using ok unfolding file_ok_def by auto
  have le: "daddr s1 din1 f = (if f = m then x else daddr s din f)" if "f < Suc m" for f using d that m by simp
  have range: "nmeta \<le> unat (daddr s1 din1 f)" "unat (daddr s1 din1 f) < unat (freeblock s1)" if "f < Suc m" for f
    using le [OF that] that o(1,2) [of f] x base by (auto simp: less_Suc_eq)
  have new: "daddr s din f \<noteq> x" if "f < m" for f using o(2) [OF that] x(1) by auto
  have inj: "f = g" if "f < Suc m" "g < Suc m" "daddr s1 din1 f = daddr s1 din1 g" for f g
  proof -
    have eq: "(if f = m then x else daddr s din f) = (if g = m then x else daddr s din g)"
      using that(3) le [OF that(1)] le [OF that(2)] by (simp only:)
    show ?thesis
    proof (cases "f = m \<or> g = m")
      case True
      then show ?thesis using eq new [of f] new [of g] that(1,2) by (auto simp: less_Suc_eq split: if_splits)
    next
      case False
      then show ?thesis using eq o(4) [of f g] that(1,2) by simp
    qed
  qed
  have indirect: "nmeta \<le> unat (d_addrs din1 NDIRECT)" "unat (d_addrs din1 NDIRECT) < unat (freeblock s1)"
      "f < Suc m \<Longrightarrow> daddr s1 din1 f \<noteq> d_addrs din1 NDIRECT" if "NDIRECT < Suc m" for f
  proof -
    consider "m = NDIRECT" | "NDIRECT < m" using \<open>NDIRECT < Suc m\<close> by linarith
    then have "nmeta \<le> unat (d_addrs din1 NDIRECT) \<and> unat (d_addrs din1 NDIRECT) < unat (freeblock s1)"
      using ind(2,3) base x o(8,9) by cases simp_all
    then show "nmeta \<le> unat (d_addrs din1 NDIRECT)" "unat (d_addrs din1 NDIRECT) < unat (freeblock s1)" by blast+
    show "daddr s1 din1 f \<noteq> d_addrs din1 NDIRECT" if "f < Suc m"
    proof (cases "f = m")
      case True
      have "unat (d_addrs din1 NDIRECT) < unat x"
      proof (cases "m = NDIRECT")
        case False
        then have "NDIRECT < m" using \<open>NDIRECT < Suc m\<close> by simp
        then show ?thesis using ind(2) o(9) x(1) by simp
      qed (use ind(3) in simp)
      then show ?thesis using le [OF that] True by auto
    next
      case False
      then have f: "f < m" using that by simp
      show ?thesis
      proof (cases "m = NDIRECT")
        case True
        then have "unat (daddr s din f) < unat (d_addrs din1 NDIRECT)" using o(2) [OF f] ind(3) by simp
        then show ?thesis using le [OF that] \<open>f \<noteq> m\<close> by auto
      next
        case False
        then show ?thesis using \<open>NDIRECT < Suc m\<close> le [OF that] \<open>f \<noteq> m\<close> ind(2) o(5) [OF _ f] by simp
      qed
    qed
  qed
  have zero: "img s1 b = (\<lambda>_. 0)" if "unat (freeblock s1) \<le> b" for b
  proof -
    have "m < NDIRECT \<or> b \<noteq> unat (d_addrs din1 NDIRECT)" using indirect(2) that by (cases "m < NDIRECT") auto
    then show ?thesis using img o(6) x that by simp
  qed
  have free: "daddr s1 din1 f = 0" if "Suc m \<le> f" "f < MAXFILE" for f using d [OF that(2)] o(3) [of f] that by simp
  have ind': "if NDIRECT < Suc m
      then nmeta \<le> unat (d_addrs din1 NDIRECT) \<and> unat (d_addrs din1 NDIRECT) < unat (freeblock s1) \<and>
           (\<forall>f<Suc m. daddr s1 din1 f \<noteq> d_addrs din1 NDIRECT)
      else d_addrs din1 NDIRECT = 0"
    using indirect ind(1) by simp
  have "Suc m \<le> MAXFILE" "nmeta \<le> unat (freeblock s1)" using m base x by linarith+
  with range free inj ind' zero show ?thesis unfolding file_ok_def by blast
qed

lemma grown_new:
  assumes ok: "file_ok s din m" and m: "m < MAXFILE"
    and x: "unat (freeblock s) \<le> unat x" "unat x < unat (freeblock s1)"
    and d: "\<And>f. f < MAXFILE \<Longrightarrow> daddr s1 din1 f = (if f = m then x else daddr s din f)"
    and ind: "m < NDIRECT \<Longrightarrow> d_addrs din1 NDIRECT = 0" "NDIRECT < m \<Longrightarrow> d_addrs din1 NDIRECT = d_addrs din NDIRECT"
      "m = NDIRECT \<Longrightarrow> unat (d_addrs din1 NDIRECT) = unat (freeblock s) \<and> unat x = unat (freeblock s) + 1"
    and img: "\<And>b. m < NDIRECT \<or> b \<noteq> unat (d_addrs din1 NDIRECT) \<Longrightarrow> img s1 b = img s b"
    and same: "msb s1 = msb s" "freeinode s1 = freeinode s" "unat (freeblock s1) + cost m = unat (freeblock s) + cost (Suc m)"
  shows "grown s din m s1 din1 (Suc m)"
    "f < m \<Longrightarrow> img s1 (unat (daddr s din f)) = img s (unat (daddr s din f))"
proof -
  note o = file_okD [OF ok]
  have fok: "file_ok s1 din1 (Suc m)" by (rule file_ok_new [OF ok m x d ind img])
  have keep: "img s1 b = img s b" if "b < unat (freeblock s)" "b \<notin> owned s din m" for b
  proof (rule img)
    consider "m < NDIRECT" | "m = NDIRECT" | "NDIRECT < m" by linarith
    then show "m < NDIRECT \<or> b \<noteq> unat (d_addrs din1 NDIRECT)"
      using that ind(2,3) by cases (auto simp: owned_def)
  qed
  have own: "owned s1 din1 (Suc m) \<subseteq> owned s din m \<union> {unat (freeblock s)..}"
  proof
    fix b assume b: "b \<in> owned s1 din1 (Suc m)"
    consider f where "f < Suc m" "b = unat (daddr s1 din1 f)" | "NDIRECT < Suc m" "b = unat (d_addrs din1 NDIRECT)"
      using b by (auto simp: owned_def split: if_splits)
    then show "b \<in> owned s din m \<union> {unat (freeblock s)..}"
    proof cases
      case 1
      then show ?thesis using d [of f] m x(1) by (cases "f = m") (auto simp: owned_def)
    next
      case 2
      then show ?thesis using ind(2,3) by (cases "m = NDIRECT") (auto simp: owned_def)
    qed
  qed
  show "grown s din m s1 din1 (Suc m)" unfolding grown_def
  proof (intro conjI)
    show "\<forall>f<m. daddr s1 din1 f = daddr s din f" using d m by simp
  qed (use fok keep own same in simp_all)
  show "img s1 (unat (daddr s din f)) = img s (unat (daddr s din f))" if "f < m"
  proof (rule img)
    consider "m < NDIRECT" | "m = NDIRECT" | "NDIRECT < m" by linarith
    then show "m < NDIRECT \<or> unat (daddr s din f) \<noteq> unat (d_addrs din1 NDIRECT)"
      using that ind(2,3) o(2,5) [of f] by cases (auto simp: word_unat_eq_iff)
  qed
qed

text \<open>\<open>fblock\<close> returns the block of the file, a fresh one where the file ends, as long as the image has room.\<close>

definition block_got :: "image \<Rightarrow> dinode \<Rightarrow> nat \<Rightarrow> nat \<Rightarrow> (uint \<times> dinode \<times> image) option \<Rightarrow> bool" where
  "block_got s din m fbn r \<longleftrightarrow> (case r of None \<Rightarrow> False | Some (x, din1, s1) \<Rightarrow>
     grown s din m s1 din1 (max m (Suc fbn)) \<and> x = daddr s1 din1 fbn \<and>
     (\<forall>f<m. img s1 (unat (daddr s din f)) = img s (unat (daddr s din f))))"

lemma fblock_old:
  assumes ok: "file_ok s din m" and f: "fbn < m" and room: "unat (freeblock s) \<le> FSSIZE"
  shows "block_got s din m fbn (fblock fbn din s)"
proof -
  have nz: "daddr s din fbn \<noteq> 0" using file_okD(1) [OF ok f] nmeta_pos by auto
  have "fblock fbn din s = Some (daddr s din fbn, din, s)"
  proof (cases "fbn < NDIRECT")
    case True
    then show ?thesis using nz by (simp add: fblock_def daddr_def)
  next
    case False
    then have "unat (d_addrs din NDIRECT) < FSSIZE" using file_okD(9) [OF ok] f room by simp
    then show ?thesis using nz False by (auto simp: fblock_def daddr_def rsect_def split: if_splits)
  qed
  moreover have "max m (Suc fbn) = m" using f by simp
  ultimately show ?thesis using grown_refl [OF ok] by (simp add: block_got_def)
qed

lemma fblock_direct:
  assumes ok: "file_ok s din m" and m: "m < NDIRECT" and room: "unat (freeblock s) + 1 \<le> FSSIZE"
  shows "block_got s din m m (fblock m din s)"
proof -
  have M: "m < MAXFILE" using m by (simp add: MAXFILE_def)
  note o = file_okD [OF ok] and n = fresh_number [OF ok room]
  let ?din = "din\<lparr>d_addrs := (d_addrs din)(m := freeblock s)\<rparr>" and ?s = "s\<lparr>freeblock := freeblock s + 1\<rparr>"
  have z: "d_addrs din m = 0" using o(3) [of m] M m by (simp add: daddr_def)
  have i: "d_addrs din NDIRECT = 0" using o(10) m by simp
  have d: "daddr ?s ?din f = (if f = m then freeblock s else daddr s din f)" for f
    using m i by (auto simp: daddr_def)
  have "grown s din m ?s ?din (Suc m)"
    and "\<And>f. f < m \<Longrightarrow> img ?s (unat (daddr s din f)) = img s (unat (daddr s din f))"
    by (rule grown_new [OF ok M, where x = "freeblock s" and ?s1.0 = ?s and ?din1.0 = ?din]; use m i n d in \<open>simp add: cost_def\<close>)+
  then show ?thesis using z m d by (simp add: block_got_def fblock_def max_def)
qed

lemma fblock_indirect:
  assumes ok: "file_ok s din m" and m: "NDIRECT < m" "m < MAXFILE" and room: "unat (freeblock s) + 1 \<le> FSSIZE"
  shows "block_got s din m m (fblock m din s)"
proof -
  note o = file_okD [OF ok] and n = fresh_number [OF ok room]
  let ?I = "d_addrs din NDIRECT"
  let ?s = "wsect ?I (set_le32 (4 * (m - NDIRECT)) (freeblock s) (img s (unat ?I))) (s\<lparr>freeblock := freeblock s + 1\<rparr>)"
  have i: "?I \<noteq> 0" using o(8) m(1) nmeta_pos by auto
  have z: "le32 (img s (unat ?I)) (4 * (m - NDIRECT)) = 0" using o(3) [of m] m i by (simp add: daddr_def)
  have d: "daddr ?s din f = (if f = m then freeblock s else daddr s din f)" for f
  proof (cases "f < NDIRECT \<or> f = m")
    case False
    then have "4 * (m - NDIRECT) + 4 \<le> 4 * (f - NDIRECT) \<or> 4 * (f - NDIRECT) + 4 \<le> 4 * (m - NDIRECT)" using m(1) by linarith
    then show ?thesis using i False by (simp add: daddr_def wsect_def le32_set_other)
  qed (use i m in \<open>auto simp: daddr_def wsect_def\<close>)
  have "grown s din m ?s din (Suc m)"
    and "\<And>f. f < m \<Longrightarrow> img ?s (unat (daddr s din f)) = img s (unat (daddr s din f))"
    by (rule grown_new [OF ok m(2), where x = "freeblock s" and ?s1.0 = ?s and ?din1.0 = din];
        use m n d in \<open>simp add: wsect_def cost_def\<close>)+
  moreover have "rsect ?I s = Some (img s (unat ?I))" using o(9) m(1) room by (simp add: rsect_def)
  then have "fblock m din s = Some (freeblock s, din, ?s)" using z m i by (simp add: fblock_def)
  ultimately show ?thesis using d by (simp add: block_got_def max_def)
qed

lemma fblock_first_indirect:
  assumes ok: "file_ok s din NDIRECT" and room: "unat (freeblock s) + 2 \<le> FSSIZE"
  shows "block_got s din NDIRECT NDIRECT (fblock NDIRECT din s)"
proof -
  have M: "NDIRECT < MAXFILE" by (simp add: MAXFILE_def NINDIRECT_def)
  note o = file_okD [OF ok] and n = fresh_number [OF ok room]
  let ?I = "freeblock s"
  let ?din = "din\<lparr>d_addrs := (d_addrs din)(NDIRECT := ?I)\<rparr>"
  let ?s = "wsect ?I (set_le32 0 (?I + 1) (\<lambda>_. 0)) (s\<lparr>freeblock := ?I + 1 + 1\<rparr>)"
  have i: "d_addrs din NDIRECT = 0" using o(10) by simp
  have z: "img s (unat ?I) = (\<lambda>_. 0)" using o(6) by simp
  have d: "daddr ?s ?din f = (if f = NDIRECT then ?I + 1 else daddr s din f)" for f
  proof (cases "f \<le> NDIRECT")
    case False
    then have "4 \<le> 4 * (f - NDIRECT)" by linarith
    then have "le32 (set_le32 0 (?I + 1) (\<lambda>_. 0)) (4 * (f - NDIRECT)) = le32 (\<lambda>_. 0) (4 * (f - NDIRECT))"
      by (intro le32_set_other) simp
    then show ?thesis using i n(3) False by (simp add: daddr_def wsect_def le32_def)
  qed (use i n(3) in \<open>auto simp: daddr_def wsect_def\<close>)
  have "grown s din NDIRECT ?s ?din (Suc NDIRECT)"
    and "\<And>f. f < NDIRECT \<Longrightarrow> img ?s (unat (daddr s din f)) = img s (unat (daddr s din f))"
    by (rule grown_new [OF ok M, where x = "?I + 1" and ?s1.0 = ?s and ?din1.0 = ?din]; use n d in \<open>simp add: wsect_def cost_def\<close>)+
  moreover have "fblock NDIRECT din s = Some (?I + 1, ?din, ?s)"
    using z i room by (simp add: fblock_def rsect_def le32_def)
  ultimately show ?thesis using d by (simp add: block_got_def max_def)
qed

lemma fblock_got:
  assumes "file_ok s din m" "fbn \<le> m" "fbn < MAXFILE"
    and "unat (freeblock s) + cost (max m (Suc fbn)) \<le> FSSIZE + cost m"
  shows "block_got s din m fbn (fblock fbn din s)"
proof -
  consider "fbn < m" | "fbn = m" "m < NDIRECT" | "fbn = m" "m = NDIRECT" | "fbn = m" "NDIRECT < m" using assms(2) by linarith
  then show ?thesis
  proof cases
    case 1
    then have "max m (Suc fbn) = m" by simp
    then show ?thesis using fblock_old [OF assms(1) 1] assms(4) by simp
  qed (use assms fblock_direct fblock_first_indirect fblock_indirect in \<open>auto simp: cost_def max_def\<close>)
qed

text \<open>Writing to a data block changes no block number.\<close>

lemma daddr_wsect:
  assumes "file_ok s din m" "fbn < m"
  shows "daddr (wsect (daddr s din fbn) buf s) din f = daddr s din f"
proof (cases "NDIRECT < m")
  case True
  then have "unat (d_addrs din NDIRECT) \<noteq> unat (daddr s din fbn)" using file_okD(5) [OF assms(1) True assms(2)] by (auto simp: word_unat_eq_iff)
  then show ?thesis by (simp add: daddr_def wsect_def)
next
  case False
  then show ?thesis using file_okD(10) [OF assms(1)] by (simp add: daddr_def)
qed

lemma grown_wsect:
  assumes ok: "file_ok s din m" and f: "fbn < m"
  shows "grown s din m (wsect (daddr s din fbn) buf s) din m"
proof -
  let ?s = "wsect (daddr s din fbn) buf s"
  note d = daddr_wsect [OF ok f] and o = file_okD(2) [OF ok f]
  have same: "freeblock ?s = freeblock s" "msb ?s = msb s" "freeinode ?s = freeinode s" by (simp_all add: wsect_def)
  have z: "img ?s b = img s b" if "b \<noteq> unat (daddr s din fbn)" for b using that by (simp add: wsect_def)
  have ok': "file_ok ?s din m" using ok o unfolding file_ok_def d same by (auto simp: z)
  have own: "owned ?s din m = owned s din m" by (simp add: owned_def d)
  have "unat (daddr s din fbn) \<in> owned s din m" using f by (auto simp: owned_def)
  then have "img ?s b = img s b" if "b \<notin> owned s din m" for b using z [of b] that by auto
  then show ?thesis unfolding grown_def own d same using ok' by simp
qed

definition nblk :: "nat \<Rightarrow> nat" where
  "nblk off = (off + (BSIZE - 1)) div BSIZE"

lemma nblk_covers: "i < off \<Longrightarrow> i div BSIZE < nblk off" "off div BSIZE \<le> nblk off"
  by (simp_all add: nblk_def BSIZE_def)

lemma nblk_step:
  assumes "0 < n" "off + n \<le> (off div BSIZE + 1) * BSIZE"
  shows "nblk (off + n) = max (nblk off) (Suc (off div BSIZE))"
  using assms unfolding nblk_def BSIZE_def by (simp add: max_def) linarith

lemma same_block:
  assumes "i < n" "off + n \<le> (off div BSIZE + 1) * BSIZE"
  shows "(off + i) div BSIZE = off div BSIZE" "(off + i) mod BSIZE = off - off div BSIZE * BSIZE + i"
proof -
  show 1: "(off + i) div BSIZE = off div BSIZE"
  proof (rule div_nat_eqI)
    show "BSIZE * (off div BSIZE) \<le> off + i" using times_div_less_eq_dividend [of BSIZE off] by linarith
    show "off + i < BSIZE * Suc (off div BSIZE)" using assms by (simp add: mult.commute)
  qed
  show "(off + i) mod BSIZE = off - off div BSIZE * BSIZE + i"
    using 1 minus_div_mult_eq_mod [of "off + i" BSIZE] div_times_less_eq_dividend [of off BSIZE] by simp
qed

lemma append_step:
  assumes ok: "file_ok s din (nblk off)" and fbn: "fbn = off div BSIZE" "fbn < MAXFILE"
    and n: "0 < n" "off + n \<le> (fbn + 1) * BSIZE" "length q = n"
    and room: "unat (freeblock s) + cost (nblk (off + n)) \<le> FSSIZE + cost (nblk off)"
  obtains din1 s2 where "iappend_turn fbn q off din s = Some (din1, s2)"
    "grown s din (nblk off) s2 din1 (nblk (off + n))"
    "\<And>i. i < off \<Longrightarrow> fbyte s2 din1 i = fbyte s din i" "\<And>i. i < n \<Longrightarrow> fbyte s2 din1 (off + i) = q ! i"
proof -
  let ?m = "nblk off" and ?m1 = "nblk (off + n)"
  have m1: "?m1 = max ?m (Suc fbn)" using nblk_step n fbn(1) by simp
  have "block_got s din ?m fbn (fblock fbn din s)"
    using fblock_got [OF ok, of fbn] nblk_covers(2) [of off] fbn room m1 by simp
  then obtain x din1 s1 where got: "fblock fbn din s = Some (x, din1, s1)" and g: "grown s din ?m s1 din1 ?m1" "x = daddr s1 din1 fbn"
      "\<And>f. f < ?m \<Longrightarrow> img s1 (unat (daddr s din f)) = img s (unat (daddr s din f))"
    unfolding block_got_def m1 by (auto split: option.splits)
  note ok1 = grownD(1) [OF g(1)] and keep = grownD(6) [OF g(1)]
  have f1: "fbn < ?m1" using m1 by simp
  define s2 where "s2 = wsect x (put_at (off - fbn * BSIZE) q (img s1 (unat x))) s1"
  have "unat x < FSSIZE" using file_okD(2) [OF ok1 f1] grownD(3) [OF g(1)] room unfolding g(2) by linarith
  then have turn: "iappend_turn fbn q off din s = Some (din1, s2)" by (simp add: iappend_turn_def got rsect_def s2_def)
  have grow: "grown s din ?m s2 din1 ?m1" using grown_trans [OF g(1) grown_wsect [OF ok1 f1]] s2_def g(2) by simp
  have d: "daddr s2 din1 f = daddr s1 din1 f" for f using daddr_wsect [OF ok1 f1] s2_def g(2) by simp
  have new: "fbyte s2 din1 (off + i) = q ! i" if "i < n" for i
  proof -
    have "(off + i) div BSIZE = fbn" "(off + i) mod BSIZE = off - fbn * BSIZE + i"
      using same_block [OF that, of off] n(2) fbn(1) by simp_all
    then have "fbyte s2 din1 (off + i) = img s2 (unat x) (off - fbn * BSIZE + i)" using d [of fbn] g(2) by (simp add: fbyte_def)
    then show ?thesis using that n(3) by (simp add: s2_def wsect_def put_at_def)
  qed
  have old: "fbyte s2 din1 i = fbyte s din i" if "i < off" for i
  proof -
    have b: "i div BSIZE < ?m" using nblk_covers(1) that .
    have "img s2 (unat (daddr s1 din1 (i div BSIZE))) (i mod BSIZE) = img s1 (unat (daddr s1 din1 (i div BSIZE))) (i mod BSIZE)"
    proof (cases "i div BSIZE = fbn")
      case True
      then have "i mod BSIZE < off - fbn * BSIZE" using that div_mult_mod_eq [of i BSIZE] by simp
      then show ?thesis using True g(2) by (simp add: s2_def wsect_def put_at_def)
    next
      case False
      moreover have "i div BSIZE < ?m1" using b m1 by simp
      ultimately have "unat (daddr s1 din1 (i div BSIZE)) \<noteq> unat x"
        using file_okD(4) [OF ok1 _ f1] g(2) by (auto simp: word_unat_eq_iff)
      then show ?thesis by (simp add: s2_def wsect_def)
    qed
    then show ?thesis using g(3) [OF b] keep [OF b] by (simp add: fbyte_def d)
  qed
  show thesis by (rule that [OF turn grow old new])
qed

lemma nblk_mono: "i \<le> j \<Longrightarrow> nblk i \<le> nblk j"
  by (simp add: nblk_def div_le_mono)

text \<open>What the loop promises: the blocks that are there stay, and the bytes \<open>p\<close> follow the first \<open>off\<close> bytes.\<close>

definition appended :: "uchar list \<Rightarrow> nat \<Rightarrow> dinode \<Rightarrow> image \<Rightarrow> nat \<times> dinode \<times> image \<Rightarrow> bool" where
  "appended p off din s r \<longleftrightarrow> (case r of (off', din', s') \<Rightarrow>
     off' = off + length p \<and> grown s din (nblk off) s' din' (nblk off') \<and>
     (\<forall>i<off. fbyte s' din' i = fbyte s din i) \<and> (\<forall>i<length p. fbyte s' din' (off + i) = p ! i))"

lemma appended_append:
  assumes "appended q off din s (off + length q, din1, s1)" "appended p (off + length q) din1 s1 r"
  shows "appended (q @ p) off din s r"
proof -
  obtain off' din' s' where r: "r = (off', din', s')" by (cases r)
  have "fbyte s' din' (off + i) = (q @ p) ! i" if "i < length (q @ p)" for i
  proof (cases "i < length q")
    case False
    define j where "j = i - length q"
    have j: "i = length q + j" "j < length p" using that False by (simp_all add: j_def)
    then have "fbyte s' din' (off + length q + j) = p ! j" using assms(2) by (simp add: appended_def r)
    then show ?thesis by (simp add: j(1) add.assoc)
  qed (use assms in \<open>simp add: appended_def r nth_append\<close>)
  moreover have "grown s din (nblk off) s1 din1 (nblk (off + length q))" "grown s1 din1 (nblk (off + length q)) s' din' (nblk off')"
    using assms unfolding appended_def r prod.case by blast+
  then have "grown s din (nblk off) s' din' (nblk off')" by (rule grown_trans)
  ultimately show ?thesis using assms by (simp add: appended_def r)
qed

lemma iappend_loop_appends:
  assumes "file_ok s din (nblk off)" "off + length p \<le> MAXFILE * BSIZE"
    and "unat (freeblock s) + cost (nblk (off + length p)) \<le> FSSIZE + cost (nblk off)"
  shows "\<exists>r. iappend_loop p off din s = Some r \<and> appended p off din s r"
  using assms
proof (induction p off din s rule: iappend_loop.induct)
  case (1 p off din s)
  show ?case
  proof (cases "p = []")
    case True
    then show ?thesis using grown_refl [OF 1(2)] by (simp add: iappend_loop.simps appended_def)
  next
    case False
    define fbn n where "fbn = off div BSIZE" and "n = min (length p) ((fbn + 1) * BSIZE - off)"
    have "off < MAXFILE * BSIZE" using 1(3) False by (cases p) simp_all
    then have lt: "fbn < MAXFILE" by (simp add: fbn_def less_mult_imp_div_less)
    have "off < (fbn + 1) * BSIZE" using dividend_less_div_times [of BSIZE off] by (simp add: BSIZE_def fbn_def)
    then have n: "0 < n" "off + n \<le> (fbn + 1) * BSIZE" "length (take n p) = n" using False by (auto simp: n_def)
    then have le: "off + n \<le> off + length p" and len: "off + n + length (drop n p) = off + length p" by simp_all
    have room: "unat (freeblock s) + cost (nblk (off + n)) \<le> FSSIZE + cost (nblk off)"
      using 1(4) cost_mono [OF nblk_mono [OF le]] by linarith
    obtain din1 s2 where turn: "iappend_turn fbn (take n p) off din s = Some (din1, s2)"
        and g: "grown s din (nblk off) s2 din1 (nblk (off + n))"
        and old: "\<And>i. i < off \<Longrightarrow> fbyte s2 din1 i = fbyte s din i" and new: "\<And>i. i < n \<Longrightarrow> fbyte s2 din1 (off + i) = take n p ! i"
      by (rule append_step [OF 1(2) fbn_def lt n room]) blast
    have step: "appended (take n p) off din s (off + length (take n p), din1, s2)"
      using g old new by (simp only: appended_def prod.case n(3)) blast
    have "\<exists>r. iappend_loop (drop n p) (off + n) (fst (din1, s2)) (snd (din1, s2)) = Some r \<and>
        appended (drop n p) (off + n) (fst (din1, s2)) (snd (din1, s2)) r"
      using 1(1) [OF False fbn_def n_def _ turn] lt grownD(1,3) [OF g] 1(3,4) len by simp
    then obtain r where r: "iappend_loop (drop n p) (off + n) din1 s2 = Some r" "appended (drop n p) (off + n) din1 s2 r" by auto
    have "min (length p) ((fbn + 1) * BSIZE - off) = n" by (simp only: n_def)
    then have "iappend_loop p off din s = Some r"
      by (subst iappend_loop.simps) (use False lt turn r(1) in \<open>simp add: fbn_def [symmetric] Let_def\<close>)
    moreover have "appended (take n p @ drop n p) off din s r" by (rule appended_append [OF step]) (use r(2) n(3) in simp)
    ultimately show ?thesis by simp
  qed
qed

end
