(* ===== verification/Image.thy ===== *)
theory Image
  imports Mkfs
begin

text \<open>
  What \<^verbatim>\<open>mkfs.c\<close> promises: the image holds the files.  \<open>contents\<close> abstracts an i-node of the image to the bytes of its
  file, and \<open>files_ok\<close> says that every file is well formed and that no block belongs to two files.  Every operation of \<open>Mkfs\<close> keeps
  the invariant and has its effect on the contents: \<open>ialloc\<close> adds an empty file, \<open>iappend\<close> appends to one file and leaves the
  others as they are.  Blocks are counted exactly (\<open>fcost\<close>), so that \<open>mkfs\<close> succeeds when the files fit.
\<close>

section \<open>All files of the image\<close>

definition din_of :: "image \<Rightarrow> uint \<Rightarrow> dinode" where
  "din_of s i = get_dinode i (img s (unat (IBLOCK i (msb s))))"

definition fsize :: "image \<Rightarrow> uint \<Rightarrow> nat" where
  "fsize s i = unat (d_size (din_of s i))"

text \<open>The abstraction: the bytes of a file.\<close>

definition contents :: "image \<Rightarrow> uint \<Rightarrow> uchar list" where
  "contents s i = map (fbyte s (din_of s i)) [0..<fsize s i]"

definition fown :: "image \<Rightarrow> uint \<Rightarrow> nat set" where
  "fown s i = owned s (din_of s i) (nblk (fsize s i))"

definition inums :: "image \<Rightarrow> uint set" where
  "inums s = {i. 1 \<le> i \<and> i < freeinode s}"

text \<open>The invariant: every file is well formed, and no block belongs to two files.\<close>

definition files_ok :: "image \<Rightarrow> bool" where
  "files_ok s \<longleftrightarrow>
     msb s = new_sb \<and> img s 1 = put_sb new_sb (\<lambda>_. 0) \<and> 1 \<le> freeinode s \<and> unat (freeinode s) \<le> NINODES \<and> nmeta \<le> unat (freeblock s) \<and>
     (\<forall>b\<ge>unat (freeblock s). img s b = (\<lambda>_. 0)) \<and>
     (\<forall>i\<in>inums s. file_ok s (din_of s i) (nblk (fsize s i))) \<and>
     (\<forall>i\<in>inums s. \<forall>j\<in>inums s. i \<noteq> j \<longrightarrow> fown s i \<inter> fown s j = {})"

lemma length_contents [simp]: "length (contents s i) = fsize s i"
  by (simp add: contents_def)

text \<open>The fields of an i-node that say where a file is.\<close>

definition same_file :: "dinode \<Rightarrow> dinode \<Rightarrow> bool" where
  "same_file d d' \<longleftrightarrow> d_size d = d_size d' \<and> (\<forall>k\<le>NDIRECT. d_addrs d k = d_addrs d' k)"

lemma file_kept:
  assumes ok: "file_ok s din m" and d: "\<forall>k\<le>NDIRECT. d_addrs din' k = d_addrs din k"
    and img: "\<And>b. b \<in> owned s din m \<Longrightarrow> img s' b = img s b"
    and free: "unat (freeblock s) \<le> unat (freeblock s')" "\<And>b. unat (freeblock s') \<le> b \<Longrightarrow> img s' b = (\<lambda>_. 0)"
  shows "file_ok s' din' m" "owned s' din' m = owned s din m" "i div BSIZE < m \<Longrightarrow> fbyte s' din' i = fbyte s din i"
proof -
  have I: "d_addrs din' NDIRECT = d_addrs din NDIRECT" using d by simp
  have a: "daddr s' din' f = daddr s din f" for f
  proof (cases "NDIRECT < m")
    case True
    then have "img s' (unat (d_addrs din NDIRECT)) = img s (unat (d_addrs din NDIRECT))" by (intro img) (simp add: owned_def)
    then show ?thesis using d I by (simp add: daddr_def)
  next
    case False
    then show ?thesis using d I file_okD(10) [OF ok] by (simp add: daddr_def)
  qed
  show own: "owned s' din' m = owned s din m" by (simp add: owned_def a I)
  show "fbyte s' din' i = fbyte s din i" if "i div BSIZE < m"
  proof -
    have "unat (daddr s din (i div BSIZE)) \<in> owned s din m" using that by (simp add: owned_def)
    then show ?thesis using img by (simp add: fbyte_def a)
  qed
  have "nmeta \<le> unat (freeblock s')" using ok free(1) unfolding file_ok_def by linarith
  moreover have "unat (daddr s din f) < unat (freeblock s')" if "f < m" for f using file_okD(2) [OF ok that] free(1) by linarith
  moreover have "NDIRECT < m \<Longrightarrow> unat (d_addrs din NDIRECT) < unat (freeblock s')" using file_okD(9) [OF ok] free(1) by linarith
  ultimately show "file_ok s' din' m"
    using ok free(2) unfolding file_ok_def a I by (simp split: if_splits)
qed

lemma unat_IBLOCK:
  assumes "unat i < NINODES"
  shows "unat (IBLOCK i new_sb) = 32 + unat i div 8"
proof -
  have "unat (i div 8) = unat i div 8" by (simp add: unat_div)
  moreover have "unat i div 8 < 25" using assms by (simp add: NINODES_def less_mult_imp_div_less)
  ultimately show ?thesis
    by (simp add: IBLOCK_def new_sb_def IPB_def nlog_def LOGSIZE_def unat_word_ariths)
qed

lemma IBLOCK_low:
  assumes "unat i < NINODES"
  shows "unat (IBLOCK i new_sb) < nmeta" "unat (IBLOCK i new_sb) < FSSIZE"
proof -
  have "unat i div 8 < 25" using assms by (simp add: NINODES_def less_mult_imp_div_less)
  then show "unat (IBLOCK i new_sb) < nmeta" "unat (IBLOCK i new_sb) < FSSIZE"
    by (simp_all add: unat_IBLOCK [OF assms] nmeta_def nlog_def LOGSIZE_def ninodeblocks_def NINODES_def IPB_def FSSIZE_def)
qed

lemma rinode_din_of: "msb s = new_sb \<Longrightarrow> unat i < NINODES \<Longrightarrow> rinode i s = Some (din_of s i)"
  using IBLOCK_low(2) by (simp add: rinode_def rsect_def din_of_def)

lemma put_dinode_other:
  assumes "unat i mod IPB \<noteq> unat j mod IPB"
  shows "same_file (get_dinode j (put_dinode i x d)) (get_dinode j d)"
proof -
  have keep: "put_dinode i x d (dinode_off j + k) = d (dinode_off j + k)" if "k < 64" for k
  proof (rule put_dinode_out)
    consider "unat i mod IPB + 1 \<le> unat j mod IPB" | "unat j mod IPB + 1 \<le> unat i mod IPB" using assms by linarith
    then show "dinode_off j + k < dinode_off i \<or> dinode_off i + 64 \<le> dinode_off j + k"
      by cases (use that in \<open>simp_all add: dinode_off_def\<close>)
  qed
  have "le32 (put_dinode i x d) (dinode_off j + k) = le32 d (dinode_off j + k)" if "k + 4 \<le> 64" for k
    using that keep [of k] keep [of "k + 1"] keep [of "k + 2"] keep [of "k + 3"] by (simp add: le32_def add.assoc)
  from this [of 8] this [of "12 + 4 * k" for k] show ?thesis
    by (simp add: same_file_def get_dinode_def Let_def NDIRECT_def add.assoc)
qed

text \<open>What \<open>winode\<close> does: one i-node gets a new value, and every block outside the i-node blocks stays.\<close>

lemma winode_effect:
  assumes sb: "msb s = new_sb" and i: "unat i < NINODES"
  obtains s' where "winode i d s = Some s'" "msb s' = msb s" "freeinode s' = freeinode s" "freeblock s' = freeblock s"
    "\<And>b. nmeta \<le> b \<Longrightarrow> img s' b = img s b" "same_file (din_of s' i) d" "img s' 1 = img s 1"
    "\<And>j. unat j < NINODES \<Longrightarrow> j \<noteq> i \<Longrightarrow> same_file (din_of s' j) (din_of s j)"
proof
  let ?bn = "IBLOCK i new_sb"
  let ?s = "wsect ?bn (put_dinode i d (img s (unat ?bn))) s"
  note low = IBLOCK_low [OF i]
  show "winode i d s = Some ?s" using low(2) by (simp add: winode_def rsect_def sb Let_def)
  show "msb ?s = msb s" "freeinode ?s = freeinode s" "freeblock ?s = freeblock s" by (simp_all add: wsect_def)
  show "img ?s b = img s b" if "nmeta \<le> b" for b using low(1) that by (auto simp: wsect_def)
  show "img ?s 1 = img s 1" using unat_IBLOCK [OF i] by (simp add: wsect_def)
  show "same_file (din_of ?s i) d" by (simp add: din_of_def wsect_def sb get_put_dinode same_file_def)
  show "same_file (din_of ?s j) (din_of s j)" if j: "unat j < NINODES" "j \<noteq> i" for j
  proof (cases "unat i div 8 = unat j div 8")
    case True
    moreover have "unat i \<noteq> unat j" using j(2) by (simp add: word_unat_eq_iff)
    ultimately have "unat i mod IPB \<noteq> unat j mod IPB" 
      unfolding IPB_def by (metis div_mult_mod_eq)
    moreover have "unat (IBLOCK j new_sb) = unat ?bn" using True by (simp add: unat_IBLOCK i j(1))
    ultimately show ?thesis using put_dinode_other by (simp add: din_of_def wsect_def sb)
  next
    case False
    then have "unat (IBLOCK j new_sb) \<noteq> unat ?bn" by (simp add: unat_IBLOCK i j(1))
    then show ?thesis by (simp add: din_of_def wsect_def sb same_file_def)
  qed
qed

lemma files_okD:
  assumes "files_ok s"
  shows "msb s = new_sb" "1 \<le> freeinode s" "unat (freeinode s) \<le> NINODES" "nmeta \<le> unat (freeblock s)"
    "unat (freeblock s) \<le> b \<Longrightarrow> img s b = (\<lambda>_. 0)" "i \<in> inums s \<Longrightarrow> file_ok s (din_of s i) (nblk (fsize s i))"
    "i \<in> inums s \<Longrightarrow> j \<in> inums s \<Longrightarrow> i \<noteq> j \<Longrightarrow> fown s i \<inter> fown s j = {}" "i \<in> inums s \<Longrightarrow> unat i < NINODES"
    "img s 1 = put_sb new_sb (\<lambda>_. 0)"
proof -
  show "unat i < NINODES" if "i \<in> inums s"
    using assms that unat_mono [of i "freeinode s"] unfolding files_ok_def inums_def by simp
qed (use assms in \<open>simp_all add: files_ok_def\<close>)

lemma fown_bounds:
  assumes "files_ok s" "i \<in> inums s" "b \<in> fown s i"
  shows "nmeta \<le> b" "b < unat (freeblock s)"
  using assms(3) file_okD(1,2,8,9) [OF files_okD(6) [OF assms(1,2)]] unfolding fown_def owned_def by (auto split: if_splits)

text \<open>A file that a step leaves alone has the same contents afterwards.\<close>

lemma other_kept:
  assumes ok: "files_ok s" and i: "i \<in> inums s" and d: "same_file (din_of s' i) (din_of s i)"
    and img: "\<And>b. b \<in> fown s i \<Longrightarrow> img s' b = img s b"
    and free: "unat (freeblock s) \<le> unat (freeblock s')" "\<And>b. unat (freeblock s') \<le> b \<Longrightarrow> img s' b = (\<lambda>_. 0)"
  shows "file_ok s' (din_of s' i) (nblk (fsize s' i))" "fown s' i = fown s i" "contents s' i = contents s i"
proof -
  have sz: "fsize s' i = fsize s i" using d by (simp add: fsize_def same_file_def)
  have a: "\<forall>k\<le>NDIRECT. d_addrs (din_of s' i) k = d_addrs (din_of s i) k" using d by (simp add: same_file_def)
  note kept = file_kept [OF files_okD(6) [OF ok i] a img [unfolded fown_def] free]
  show "file_ok s' (din_of s' i) (nblk (fsize s' i))" unfolding sz by (rule kept(1))
  show "fown s' i = fown s i" unfolding fown_def sz by (rule kept(2))
  show "contents s' i = contents s i" using kept(3) nblk_covers(1) by (simp add: contents_def sz)
qed

section \<open>The operations keep the files\<close>

text \<open>Every other file keeps its contents.\<close>

definition others_same :: "uint \<Rightarrow> image \<Rightarrow> image \<Rightarrow> bool" where
  "others_same i s s' \<longleftrightarrow> (\<forall>j\<in>inums s. j \<noteq> i \<longrightarrow> contents s' j = contents s j)"

text \<open>
  The last step of \<open>iappend\<close>: the new i-node of file \<open>i\<close>, whose blocks have grown in \<open>s1\<close>, goes to the image.
\<close>

lemma grown_files:
  assumes ok: "files_ok s" and i: "i \<in> inums s" and sz: "unat sz = n"
    and g: "grown s (din_of s i) (nblk (fsize s i)) s1 din (nblk n)"
    and w: "winode i (din\<lparr>d_size := sz\<rparr>) s1 = Some s'"
  shows "files_ok s'" "freeinode s' = freeinode s" "freeblock s' = freeblock s1" "others_same i s s'"
    "contents s' i = map (fbyte s1 din) [0..<n]"
proof -
  note o = files_okD [OF ok] and g' = grownD [OF g] and fb = grown_freeblock [OF g]
  have sb: "msb s1 = new_sb" using g'(4) o(1) by simp
  obtain t where t: "winode i (din\<lparr>d_size := sz\<rparr>) s1 = Some t" "msb t = msb s1" "freeinode t = freeinode s1" "freeblock t = freeblock s1"
    "\<And>b. nmeta \<le> b \<Longrightarrow> img t b = img s1 b" "same_file (din_of t i) (din\<lparr>d_size := sz\<rparr>)" "img t 1 = img s1 1"
    "\<And>j. unat j < NINODES \<Longrightarrow> j \<noteq> i \<Longrightarrow> same_file (din_of t j) (din_of s1 j)"
    by (rule winode_effect [OF sb o(8) [OF i]]) blast
  have t': "s' = t" using w t(1) by simp
  have low: "img s1 b = img s b" if "b < nmeta" for b
    using g'(7) [of b] fown_bounds(1) [OF ok i, of b] that o(4) unfolding fown_def by linarith
  have zero: "img t b = (\<lambda>_. 0)" if "unat (freeblock t) \<le> b" for b
    using t(4,5) that file_okD(6) [OF g'(1), of b] fb o(4) by simp
  have size: "fsize t i = n" using t(6) sz by (simp add: fsize_def same_file_def)
  have own: "nmeta \<le> b" if "b \<in> owned s1 din (nblk n)" for b
    using that file_okD(1,8) [OF g'(1)] unfolding owned_def by (auto split: if_splits)
  have a: "\<forall>k\<le>NDIRECT. d_addrs (din_of t i) k = d_addrs din k" using t(6) by (simp add: same_file_def)
  note self = file_kept [OF g'(1) a t(5) [OF own] _ zero, unfolded t(4), OF _ order.refl]
  have din: "din_of s1 j = din_of s j" if "j \<in> inums s" for j
    using low IBLOCK_low(1) [OF o(8) [OF that]] by (simp add: din_of_def sb o(1))
  have other: "file_ok t (din_of t j) (nblk (fsize t j))" "fown t j = fown s j" "contents t j = contents s j"
    if j: "j \<in> inums s" "j \<noteq> i" for j
  proof -
    have "same_file (din_of t j) (din_of s j)" using t(8) [OF o(8) [OF j(1)] j(2)] din [OF j(1)] by simp
    moreover have "img t b = img s b" if "b \<in> fown s j" for b
      using t(5) g'(7) [of b] fown_bounds [OF ok j(1) that] o(7) [OF j(1) i j(2)] that unfolding fown_def by auto
    ultimately show "file_ok t (din_of t j) (nblk (fsize t j))" "fown t j = fown s j" "contents t j = contents s j"
      using other_kept [OF ok j(1), of t] zero fb t(4) by simp_all
  qed
  show "contents s' i = map (fbyte s1 din) [0..<n]"
    using self(3) nblk_covers(1) by (simp add: contents_def size t')
  show "freeinode s' = freeinode s" "freeblock s' = freeblock s1" using t(3,4) g'(5) by (simp_all add: t')
  show "others_same i s s'" using other(3) by (simp add: others_same_def t')
  have new: "fown t i = owned s1 din (nblk n)" using self(2) by (simp add: fown_def size)
  have dis: "fown t i \<inter> fown t j = {}" if j: "j \<in> inums s" "j \<noteq> i" for j
    using g'(8) fown_bounds(2) [OF ok j(1)] o(7) [OF i j(1)] j(2) unfolding other(2) [OF j] new fown_def [of s i] by blast
  show "files_ok s'"
  proof -
    have "inums t = inums s" using t(3) g'(5) by (simp add: inums_def)
    moreover have "file_ok t (din_of t j) (nblk (fsize t j))" if "j \<in> inums s" for j
      using other(1) self(1) that size by (cases "j = i") simp_all
    moreover have "fown t j \<inter> fown t k = {}" if "j \<in> inums s" "k \<in> inums s" "j \<noteq> k" for j k
      using that dis other(2) o(7) by (cases "j = i"; cases "k = i") (auto simp: Int_commute)
    moreover have "img t 1 = img s 1" using t(7) low [of 1] by (simp add: nmeta_def)
    ultimately show ?thesis
      using o(2,3,4,9) t(2,3,4) g'(5) sb fb zero by (simp add: files_ok_def t')
  qed
qed

text \<open>The blocks that a file of \<open>n\<close> bytes takes.\<close>

definition fcost :: "nat \<Rightarrow> nat" where
  "fcost n = cost (nblk n)"

lemma fcost_mono: "i \<le> j \<Longrightarrow> fcost i \<le> fcost j"
  by (simp add: fcost_def cost_mono nblk_mono)

lemma iappend_ok:
  assumes ok: "files_ok s" and i: "i \<in> inums s" and len: "fsize s i + length p \<le> MAXFILE * BSIZE"
    and room: "unat (freeblock s) + fcost (fsize s i + length p) \<le> FSSIZE + fcost (fsize s i)"
  obtains s' where "iappend i p s = Some s'" "files_ok s'" "freeinode s' = freeinode s"
    "unat (freeblock s') + fcost (fsize s i) = unat (freeblock s) + fcost (fsize s i + length p)"
    "contents s' i = contents s i @ p" "others_same i s s'"
proof -
  note o = files_okD [OF ok]
  let ?n = "fsize s i + length p"
  obtain din s1 where loop: "iappend_loop p (fsize s i) (din_of s i) s = Some (?n, din, s1)"
    and app: "appended p (fsize s i) (din_of s i) s (?n, din, s1)"
    using iappend_loop_appends [OF o(6) [OF i] len room [unfolded fcost_def]] by (auto simp: appended_def)
  have g: "grown s (din_of s i) (nblk (fsize s i)) s1 din (nblk ?n)" using app by (simp add: appended_def)
  have sz: "unat (of_nat ?n :: uint) = ?n"
    using len by (subst unat_of_nat) (simp add: MAXFILE_def NDIRECT_def NINDIRECT_def BSIZE_def)
  have "msb s1 = new_sb" using grownD(4) [OF g] o(1) by simp
  then obtain s' where w: "winode i (din\<lparr>d_size := of_nat ?n\<rparr>) s1 = Some s'"
    by (rule winode_effect [OF _ o(8) [OF i]]) blast
  note new = grown_files [OF ok i sz g w]
  have run: "iappend i p s = Some s'"
    using rinode_din_of [OF o(1) o(8) [OF i]] loop w by (simp add: iappend_def fsize_def [symmetric])
  have "map (fbyte s1 din) [0..<?n] = contents s i @ p"
  proof (rule nth_equalityI)
    fix k assume "k < length (map (fbyte s1 din) [0..<?n])"
    then have k: "k < ?n" by simp
    have new: "fbyte s1 din (fsize s i + j) = p ! j" if "j < length p" for j using app that by (simp add: appended_def)
    show "map (fbyte s1 din) [0..<?n] ! k = (contents s i @ p) ! k"
    proof (cases "k < fsize s i")
      case True
      then show ?thesis using app by (simp add: appended_def contents_def nth_append)
    next
      case False
      then show ?thesis using new [of "k - fsize s i"] k by (simp add: nth_append)
    qed
  qed simp
  then have cont: "contents s' i = contents s i @ p" using new(5) by simp
  have "unat (freeblock s') + fcost (fsize s i) = unat (freeblock s) + fcost ?n"
    using grownD(3) [OF g] new(3) by (simp add: fcost_def)
  from that [OF run new(1,2) this cont new(4)] show thesis .
qed

lemma inums_same: "freeinode s' = freeinode s \<Longrightarrow> inums s' = inums s"
  by (simp add: inums_def)

lemma others_same_trans:
  "others_same i s s1 \<Longrightarrow> others_same i s1 s2 \<Longrightarrow> inums s1 = inums s \<Longrightarrow> others_same i s s2"
  by (simp add: others_same_def)

lemma iappends_ok:
  assumes "files_ok s" "i \<in> inums s" "fsize s i + length (concat ps) \<le> MAXFILE * BSIZE"
    and "unat (freeblock s) + fcost (fsize s i + length (concat ps)) \<le> FSSIZE + fcost (fsize s i)"
  shows "\<exists>s'. iappends i ps s = Some s' \<and> files_ok s' \<and> freeinode s' = freeinode s \<and>
    unat (freeblock s') + fcost (fsize s i) = unat (freeblock s) + fcost (fsize s i + length (concat ps)) \<and>
    contents s' i = contents s i @ concat ps \<and> others_same i s s'"
  using assms
proof (induction ps arbitrary: s)
  case Nil
  then show ?case by (simp add: others_same_def)
next
  case (Cons p ps)
  have "fcost (fsize s i + length p) \<le> fcost (fsize s i + length (concat (p # ps)))" by (rule fcost_mono) simp
  then have "unat (freeblock s) + fcost (fsize s i + length p) \<le> FSSIZE + fcost (fsize s i)" using Cons.prems(4) by linarith
  moreover have "fsize s i + length p \<le> MAXFILE * BSIZE" using Cons.prems(3) by simp
  ultimately obtain s1 where s1: "iappend i p s = Some s1" "files_ok s1" "freeinode s1 = freeinode s"
      "unat (freeblock s1) + fcost (fsize s i) = unat (freeblock s) + fcost (fsize s i + length p)"
      "contents s1 i = contents s i @ p" "others_same i s s1"
    using iappend_ok [OF Cons.prems(1,2)] by metis
  have sz: "fsize s1 i = fsize s i + length p" using arg_cong [OF s1(5), of length] by simp
  note same = inums_same [OF s1(3)]
  have "\<exists>s'. iappends i ps s1 = Some s' \<and> files_ok s' \<and> freeinode s' = freeinode s1 \<and>
      unat (freeblock s') + fcost (fsize s1 i) = unat (freeblock s1) + fcost (fsize s1 i + length (concat ps)) \<and>
      contents s' i = contents s1 i @ concat ps \<and> others_same i s1 s'"
    by (rule Cons.IH) (use Cons.prems s1(2,4) same sz in \<open>simp_all add: add.assoc\<close>)
  then show ?case using s1 sz others_same_trans [OF s1(6) _ same] by (auto simp: add.assoc)
qed

lemma concat_chop: "0 < n \<Longrightarrow> concat (chop n p) = p"
  by (induction n p rule: chop.induct) (subst chop.simps, simp)

lemma mk_ialloc_ok:
  assumes ok: "files_ok s" and i: "unat (freeinode s) < NINODES"
  obtains s' where "mk_ialloc ty s = Some (freeinode s, s')" "files_ok s'" "inums s' = insert (freeinode s) (inums s)"
    "freeinode s' = freeinode s + 1" "freeblock s' = freeblock s" "contents s' (freeinode s) = []"
    "\<And>j. j \<in> inums s \<Longrightarrow> contents s' j = contents s j"
proof -
  note o = files_okD [OF ok]
  let ?i = "freeinode s" and ?s = "s\<lparr>freeinode := freeinode s + 1\<rparr>"
  let ?din = "\<lparr>d_type = ty, d_major = 0, d_minor = 0, d_nlink = 1, d_size = 0, d_addrs = (\<lambda>_. 0)\<rparr>"
  have sb: "msb ?s = new_sb" using o(1) by simp
  obtain t where t: "winode ?i ?din ?s = Some t" "msb t = msb ?s" "freeinode t = freeinode ?s" "freeblock t = freeblock ?s"
    "\<And>b. nmeta \<le> b \<Longrightarrow> img t b = img ?s b" "same_file (din_of t ?i) ?din" "img t 1 = img ?s 1"
    "\<And>j. unat j < NINODES \<Longrightarrow> j \<noteq> ?i \<Longrightarrow> same_file (din_of t j) (din_of ?s j)"
    by (rule winode_effect [OF sb i]) blast
  have suc: "unat (?i + 1) = unat ?i + 1" using i by (simp add: unat_word_ariths NINODES_def)
  have ins: "inums t = insert ?i (inums s)"
    using o(2) suc by (auto simp: inums_def t(3) word_less_nat_alt word_le_nat_alt word_unat_eq_iff)
  have ne: "j \<noteq> ?i" if "j \<in> inums s" for j using that by (auto simp: inums_def)
  have zero: "img t b = (\<lambda>_. 0)" if "unat (freeblock t) \<le> b" for b using t(4,5) o(4,5) that by simp
  have other: "file_ok t (din_of t j) (nblk (fsize t j))" "fown t j = fown s j" "contents t j = contents s j"
    if j: "j \<in> inums s" for j
  proof -
    have "same_file (din_of t j) (din_of s j)" using t(8) [OF o(8) [OF j] ne [OF j]] by (simp add: din_of_def)
    moreover have "img t b = img s b" if "b \<in> fown s j" for b using t(5) fown_bounds(1) [OF ok j that] by simp
    ultimately show "file_ok t (din_of t j) (nblk (fsize t j))" "fown t j = fown s j" "contents t j = contents s j"
      using other_kept [OF ok j, of t] zero t(4) by simp_all
  qed
  have size: "fsize t ?i = 0" "nblk 0 = 0" using t(6) by (simp_all add: fsize_def same_file_def nblk_def BSIZE_def)
  have "daddr t (din_of t ?i) f = 0" for f using t(6) by (simp add: daddr_def same_file_def)
  then have empty: "file_ok t (din_of t ?i) (nblk (fsize t ?i))" "fown t ?i = {}"
    using zero o(4) t(4,6) by (simp_all add: size file_ok_def fown_def owned_def same_file_def)
  have "files_ok t" unfolding files_ok_def ins
  proof (intro conjI ballI impI)
    show "file_ok t (din_of t j) (nblk (fsize t j))" if "j \<in> insert ?i (inums s)" for j using that empty(1) other(1) by auto
    show "fown t j \<inter> fown t k = {}" if "j \<in> insert ?i (inums s)" "k \<in> insert ?i (inums s)" "j \<noteq> k" for j k
      using that empty(2) other(2) o(7) [of j k] by (cases "j = ?i"; cases "k = ?i") simp_all
    show "1 \<le> freeinode t" using suc t(3) by (simp add: word_le_nat_alt)
    show "unat (freeinode t) \<le> NINODES" using suc t(3) i by simp
  qed (use o(1,4,9) t(2,4,7) zero in simp_all)
  moreover have "mk_ialloc ty s = Some (?i, t)" using t(1) by (simp add: mk_ialloc_def Let_def)
  ultimately show thesis using ins t(3,4) other(3) size by (intro that [of t]) (simp_all add: contents_def)
qed

lemma length_de_bytes [simp]: "length (de_bytes i name) = 16"
  by (simp add: de_bytes_def DIRSIZ_def)

text \<open>The name in the directory entry, and the entries of the root directory for files with i-node numbers from \<open>i\<close> on.\<close>

definition entry_name :: "uchar list \<Rightarrow> uchar list" where
  "entry_name argv = (if argv \<noteq> [] \<and> hd argv = 95 then tl argv else argv)"

primrec entries :: "uint \<Rightarrow> (uchar list \<times> uchar list) list \<Rightarrow> uchar list" where
  "entries i [] = []"
| "entries i (f # fs) = de_bytes i (entry_name (fst f)) @ entries (i + 1) fs"

text \<open>The files that \<open>mkfs\<close> accepts: a name without a slash, and contents that an i-node can hold.\<close>

definition fits :: "uchar list \<times> uchar list \<Rightarrow> bool" where
  "fits f \<longleftrightarrow> 47 \<notin> set (fst f) \<and> length (snd f) \<le> MAXFILE * BSIZE"

lemma add_file_ok:
  assumes ok: "files_ok s" and root: "ROOTINO \<in> inums s" and i: "unat (freeinode s) < NINODES" and f: "fits f"
    and dir: "fsize s ROOTINO + 16 \<le> MAXFILE * BSIZE"
    and room: "unat (freeblock s) + fcost (fsize s ROOTINO + 16) + fcost (length (snd f)) \<le> FSSIZE + fcost (fsize s ROOTINO)"
  obtains s' where "add_file f s = Some s'" "files_ok s'" "inums s' = insert (freeinode s) (inums s)" "freeinode s' = freeinode s + 1"
    "unat (freeblock s') + fcost (fsize s ROOTINO) = unat (freeblock s) + fcost (fsize s ROOTINO + 16) + fcost (length (snd f))"
    "contents s' (freeinode s) = snd f" "contents s' ROOTINO = contents s ROOTINO @ de_bytes (freeinode s) (entry_name (fst f))"
    "\<And>j. j \<in> inums s \<Longrightarrow> j \<noteq> ROOTINO \<Longrightarrow> contents s' j = contents s j"
proof -
  let ?i = "freeinode s" and ?de = "de_bytes (freeinode s) (entry_name (fst f))"
  have ne: "?i \<noteq> ROOTINO" using root by (auto simp: inums_def)
  obtain s1 where s1: "mk_ialloc T_FILE s = Some (?i, s1)" "files_ok s1" "inums s1 = insert ?i (inums s)" "freeinode s1 = ?i + 1"
    "freeblock s1 = freeblock s" "contents s1 ?i = []" "\<And>j. j \<in> inums s \<Longrightarrow> contents s1 j = contents s j"
    by (rule mk_ialloc_ok [OF ok i]) blast
  have sz: "fsize s1 ROOTINO = fsize s ROOTINO" using arg_cong [OF s1(7) [OF root], of length] by simp
  obtain s2 where s2: "iappend ROOTINO ?de s1 = Some s2" "files_ok s2" "freeinode s2 = freeinode s1"
    "unat (freeblock s2) + fcost (fsize s1 ROOTINO) = unat (freeblock s1) + fcost (fsize s1 ROOTINO + length ?de)"
    "contents s2 ROOTINO = contents s1 ROOTINO @ ?de" "others_same ROOTINO s1 s2"
    by (rule iappend_ok [OF s1(2), of ROOTINO ?de]) (use root dir room s1(3,5) sz in auto)
  note in2 = inums_same [OF s2(3)]
  have e2: "contents s2 ?i = []" using s2(6) s1(3,6) ne by (simp add: others_same_def)
  then have z: "fsize s2 ?i = 0" using length_contents [of s2 ?i] by simp
  have c0: "fcost 0 = 0" by (simp add: fcost_def cost_def nblk_def BSIZE_def)
  have cat: "concat (chop BSIZE (snd f)) = snd f" by (rule concat_chop) (simp add: BSIZE_def)
  obtain s3 where s3: "iappends ?i (chop BSIZE (snd f)) s2 = Some s3" "files_ok s3" "freeinode s3 = freeinode s2"
    "unat (freeblock s3) = unat (freeblock s2) + fcost (length (snd f))" "contents s3 ?i = snd f" "others_same ?i s2 s3"
    using iappends_ok [OF s2(2), of ?i "chop BSIZE (snd f)"] s1(3,5) s2(4) f room sz e2 z c0 cat in2 by (auto simp: fits_def)
  have run: "add_file f s = Some s3"
    using s1(1) s2(1) s3(1) f by (simp add: add_file_def fits_def entry_name_def Let_def split: prod.split) (auto simp: entry_name_def)
  have c3: "contents s3 j = contents s2 j" if "j \<in> inums s" for j
    using s3(6) that in2 s1(3) by (auto simp: others_same_def inums_def)
  have c2: "contents s2 j = contents s j" if "j \<in> inums s" "j \<noteq> ROOTINO" for j
    using s2(6) that s1(3,7) by (simp add: others_same_def)
  show thesis
  proof (rule that [OF run s3(2)])
    show "inums s3 = insert ?i (inums s)" "freeinode s3 = ?i + 1" using inums_same [OF s3(3)] in2 s1(3,4) s2(3) s3(3) by simp_all
    show "contents s3 ROOTINO = contents s ROOTINO @ ?de" using c3 [OF root] s2(5) s1(7) [OF root] by simp
    show "contents s3 j = contents s j" if "j \<in> inums s" "j \<noteq> ROOTINO" for j using c3 c2 that by simp
    show "unat (freeblock s3) + fcost (fsize s ROOTINO) = unat (freeblock s) + fcost (fsize s ROOTINO + 16) + fcost (length (snd f))"
      using s3(4) s2(4) s1(5) sz by simp
  qed (rule s3(5))
qed

lemma add_files_ok:
  assumes "files_ok s" "ROOTINO \<in> inums s" "unat (freeinode s) + length fs \<le> NINODES" "\<forall>f\<in>set fs. fits f"
    and "unat (freeblock s) + fcost (fsize s ROOTINO + 16 * length fs) + (\<Sum>f\<leftarrow>fs. fcost (length (snd f))) \<le> FSSIZE + fcost (fsize s ROOTINO)"
    and "fsize s ROOTINO + 16 * length fs \<le> MAXFILE * BSIZE"
  shows "\<exists>s'. add_files fs s = Some s' \<and> files_ok s' \<and> unat (freeinode s') = unat (freeinode s) + length fs \<and>
    unat (freeblock s') + fcost (fsize s ROOTINO) =
      unat (freeblock s) + fcost (fsize s ROOTINO + 16 * length fs) + (\<Sum>f\<leftarrow>fs. fcost (length (snd f))) \<and>
    contents s' ROOTINO = contents s ROOTINO @ entries (freeinode s) fs \<and>
    (\<forall>k<length fs. contents s' (freeinode s + of_nat k) = snd (fs ! k)) \<and>
    (\<forall>j\<in>inums s. j \<noteq> ROOTINO \<longrightarrow> contents s' j = contents s j) \<and> inums s \<subseteq> inums s'"
  using assms
proof (induction fs arbitrary: s)
  case Nil
  then show ?case by simp
next
  case (Cons f fs)
  let ?r = "fsize s ROOTINO" and ?i = "freeinode s"
  have i: "unat ?i < NINODES" using Cons.prems(3) by simp
  have "fcost (?r + 16) \<le> fcost (?r + 16 * length (f # fs))" by (rule fcost_mono) simp
  then have room: "unat (freeblock s) + fcost (?r + 16) + fcost (length (snd f)) \<le> FSSIZE + fcost ?r" using Cons.prems(5) by simp
  have "fits f" "?r + 16 \<le> MAXFILE * BSIZE" using Cons.prems(4,6) by simp_all
  then obtain s1 where s1: "add_file f s = Some s1" "files_ok s1" "inums s1 = insert ?i (inums s)" "freeinode s1 = ?i + 1"
      "unat (freeblock s1) + fcost ?r = unat (freeblock s) + fcost (?r + 16) + fcost (length (snd f))"
      "contents s1 ?i = snd f" "contents s1 ROOTINO = contents s ROOTINO @ de_bytes ?i (entry_name (fst f))"
      "\<And>j. j \<in> inums s \<Longrightarrow> j \<noteq> ROOTINO \<Longrightarrow> contents s1 j = contents s j"
    by (rule add_file_ok [OF Cons.prems(1,2) i _ _ room]) blast
  have sz: "fsize s1 ROOTINO = ?r + 16" using arg_cong [OF s1(7), of length] by simp
  have suc: "unat (?i + 1) = unat ?i + 1" using i by (simp add: unat_word_ariths NINODES_def)
  have ne: "?i \<noteq> ROOTINO" using Cons.prems(2) by (auto simp: inums_def)
  have "\<exists>s'. add_files fs s1 = Some s' \<and> files_ok s' \<and> unat (freeinode s') = unat (freeinode s1) + length fs \<and>
      unat (freeblock s') + fcost (fsize s1 ROOTINO) =
        unat (freeblock s1) + fcost (fsize s1 ROOTINO + 16 * length fs) + (\<Sum>f\<leftarrow>fs. fcost (length (snd f))) \<and>
      contents s' ROOTINO = contents s1 ROOTINO @ entries (freeinode s1) fs \<and>
      (\<forall>k<length fs. contents s' (freeinode s1 + of_nat k) = snd (fs ! k)) \<and>
      (\<forall>j\<in>inums s1. j \<noteq> ROOTINO \<longrightarrow> contents s' j = contents s1 j) \<and> inums s1 \<subseteq> inums s'"
    by (rule Cons.IH) (use Cons.prems s1 sz suc in \<open>simp_all add: algebra_simps\<close>)
  then obtain s' where s': "add_files fs s1 = Some s'" "files_ok s'" "unat (freeinode s') = unat (freeinode s1) + length fs"
      "unat (freeblock s') + fcost (?r + 16) = unat (freeblock s1) + fcost (?r + 16 + 16 * length fs) + (\<Sum>f\<leftarrow>fs. fcost (length (snd f)))"
      "contents s' ROOTINO = contents s1 ROOTINO @ entries (?i + 1) fs"
      "\<And>k. k < length fs \<Longrightarrow> contents s' (?i + 1 + of_nat k) = snd (fs ! k)"
      "\<And>j. j \<in> inums s1 \<Longrightarrow> j \<noteq> ROOTINO \<Longrightarrow> contents s' j = contents s1 j" "inums s1 \<subseteq> inums s'"
    unfolding sz s1(4) by blast
  have each: "contents s' (?i + of_nat k) = snd ((f # fs) ! k)" if "k < length (f # fs)" for k
  proof (cases k)
    case 0
    then show ?thesis using s'(7) [of ?i] s1(3,6) ne by simp
  next
    case (Suc n)
    then show ?thesis using s'(6) [of n] that by (simp add: algebra_simps)
  qed
  have "unat (freeblock s') + fcost ?r =
      unat (freeblock s) + fcost (?r + 16 * length (f # fs)) + (\<Sum>f\<leftarrow>f # fs. fcost (length (snd f)))"
    using s'(4) s1(5) by (simp add: add.commute add.left_commute)
  moreover have "contents s' ROOTINO = contents s ROOTINO @ entries ?i (f # fs)" using s'(5) s1(7) by simp
  moreover have "unat (freeinode s') = unat ?i + length (f # fs)" using s'(3) s1(4) suc by simp
  moreover have "\<forall>j\<in>inums s. j \<noteq> ROOTINO \<longrightarrow> contents s' j = contents s j" using s'(7) s1(3,8) by simp
  moreover have "inums s \<subseteq> inums s'" using s'(8) s1(3) by simp
  moreover have "add_files (f # fs) s = Some s'" using s1(1) s'(1) by simp
  ultimately show ?case using s'(2) each by blast
qed

lemma nmeta_eq: "nmeta = 59"
  by (simp add: nmeta_def nlog_def LOGSIZE_def ninodeblocks_def NINODES_def IPB_def nbitmap_def FSSIZE_def BSIZE_def)

lemma empty_image_ok: "files_ok empty_image" "freeinode empty_image = 1" "unat (freeblock empty_image) = nmeta"
  by (auto simp: files_ok_def empty_image_def wsect_def inums_def NINODES_def nmeta_eq)

lemma bmap_block: "unat (sb_bmapstart new_sb) = 58"
  by (simp add: new_sb_def nlog_def LOGSIZE_def ninodeblocks_def NINODES_def IPB_def)

text \<open>
  The end of \<open>main\<close>: the size of the root directory grows to the end of a block, and the bit map is
  written; every file keeps its contents.
\<close>

lemma finish_ok:
  assumes ok: "files_ok s" and root: "ROOTINO \<in> inums s" and room: "unat (freeblock s) \<le> FSSIZE"
    and sz: "fsize s ROOTINO \<le> MAXFILE * BSIZE"
  obtains s' where "Option.bind (fix_root s) (\<lambda>s. mk_balloc (freeblock s) s) = Some s'"
    "img s' 1 = put_sb new_sb (\<lambda>_. 0)" "img s' 58 = mark_used (unat (freeblock s))"
    "\<And>j. j \<in> inums s \<Longrightarrow> j \<noteq> ROOTINO \<Longrightarrow> contents s' j = contents s j"
    "fsize s' ROOTINO = (fsize s ROOTINO div BSIZE + 1) * BSIZE" "take (fsize s ROOTINO) (contents s' ROOTINO) = contents s ROOTINO"
    "\<And>f. nblk (fsize s ROOTINO) \<le> f \<Longrightarrow> f < MAXFILE \<Longrightarrow> daddr s' (din_of s' ROOTINO) f = 0"
proof -
  note o = files_okD [OF ok]
  let ?d = "din_of s ROOTINO" and ?n = "fsize s ROOTINO"
  let ?sz = "(d_size ?d div of_nat BSIZE + 1) * of_nat BSIZE :: uint"
  obtain t where t: "winode ROOTINO (?d\<lparr>d_size := ?sz\<rparr>) s = Some t" "msb t = msb s" "freeinode t = freeinode s" "freeblock t = freeblock s"
    "\<And>b. nmeta \<le> b \<Longrightarrow> img t b = img s b" "same_file (din_of t ROOTINO) (?d\<lparr>d_size := ?sz\<rparr>)" "img t 1 = img s 1"
    "\<And>j. unat j < NINODES \<Longrightarrow> j \<noteq> ROOTINO \<Longrightarrow> same_file (din_of t j) (din_of s j)"
    by (rule winode_effect [OF o(1) o(8) [OF root]]) blast
  have u: "uint (freeblock s) = int (unat (freeblock s))" by simp
  have le: "uint (freeblock s) \<le> 1000" using room unfolding u FSSIZE_def by linarith
  have "signed_take_bit (LENGTH(32) - Suc 0) (uint (freeblock s)) = uint (freeblock s)"
    by (rule signed_take_bit_int_eq_self) (use le in \<open>auto intro: order.trans [of _ 0]\<close>)
  then have "sint (freeblock s) = int (unat (freeblock s))" by (simp add: sint_uint)
  then have used: "sint (freeblock s) < int (BSIZE * 8)" "nat (sint (freeblock s)) = unat (freeblock s)"
    using le by (simp_all add: BSIZE_def)
  define u where "u = wsect (sb_bmapstart new_sb) (mark_used (unat (freeblock s))) t"
  have run: "Option.bind (fix_root s) (\<lambda>s. mk_balloc (freeblock s) s) = Some u"
    using rinode_din_of [OF o(1) o(8) [OF root]] t(1,2,4) used o(1) by (simp add: fix_root_def mk_balloc_def u_def)
  have img: "img u b = img t b" if "b \<noteq> 58" for b using that by (simp add: u_def wsect_def bmap_block)
  have "unat i div 8 < 25" if "unat i < NINODES" for i :: uint using that by (simp add: NINODES_def less_mult_imp_div_less)
  then have "unat (IBLOCK i new_sb) \<noteq> 58" if "unat i < NINODES" for i using that unat_IBLOCK [OF that] by fastforce
  then have din: "din_of u i = din_of t i" if "unat i < NINODES" for i
    using that t(2) o(1) img by (simp add: din_of_def u_def wsect_def bmap_block)
  have high: "img u b = img s b" if "nmeta \<le> b" for b using img t(5) that by (simp add: nmeta_eq)
  have fb: "freeblock u = freeblock s" using t(4) by (simp add: u_def wsect_def)
  have zero: "img u b = (\<lambda>_. 0)" if "unat (freeblock u) \<le> b" for b using high o(4,5) fb that by simp
  have other: "contents u j = contents s j" if j: "j \<in> inums s" "j \<noteq> ROOTINO" for j
    by (rule other_kept [OF ok j(1)]) (use t(8) [OF o(8) [OF j(1)] j(2)] din [OF o(8) [OF j(1)]] high fown_bounds(1) [OF ok j(1)] fb zero in simp_all)
  have dr: "same_file (din_of u ROOTINO) (?d\<lparr>d_size := ?sz\<rparr>)" using t(6) din o(8) [OF root] by simp
  have "unat ?sz = (?n div BSIZE + 1) * BSIZE"
    using sz by (simp add: fsize_def unat_word_ariths unat_div BSIZE_def MAXFILE_def NDIRECT_def NINDIRECT_def)
  then have size: "fsize u ROOTINO = (?n div BSIZE + 1) * BSIZE" using dr by (simp add: fsize_def same_file_def)
  have a: "\<forall>k\<le>NDIRECT. d_addrs (din_of u ROOTINO) k = d_addrs ?d k" using dr by (simp add: same_file_def)
  have "img u b = img s b" if "b \<in> owned s ?d (nblk ?n)" for b using that high fown_bounds(1) [OF ok root] by (simp add: fown_def)
  note kept = file_kept [OF o(6) [OF root] a this _ zero, unfolded fb, OF _ order.refl]
  have "fbyte u (din_of u ROOTINO) k = fbyte s ?d k" if "k < ?n" for k using kept(3) nblk_covers(1) [OF that] by simp
  moreover have "?n \<le> fsize u ROOTINO" using size dividend_less_div_times [of BSIZE ?n] by (simp add: BSIZE_def)
  ultimately have pre: "take ?n (contents u ROOTINO) = contents s ROOTINO"
    by (intro nth_equalityI) (simp_all add: contents_def)
  have "img u 1 = put_sb new_sb (\<lambda>_. 0)" using img [of 1] t(7) o(9) by simp
  moreover have "img u 58 = mark_used (unat (freeblock s))" by (simp add: u_def wsect_def bmap_block)
  ultimately show thesis using run other size pre file_okD(3) [OF kept(1)] by (intro that [of u])
qed

text \<open>The blocks in use at the end.\<close>

definition used_blocks :: "(uchar list \<times> uchar list) list \<Rightarrow> nat" where
  "used_blocks files = nmeta + fcost (16 * (length files + 2)) + (\<Sum>f\<leftarrow>files. fcost (length (snd f)))"

text \<open>The root directory before the files are added.\<close>

lemma root_ok:
  assumes "nmeta + fcost 32 \<le> FSSIZE"
  obtains s0 s1 s2 where "mk_ialloc T_DIR empty_image = Some (ROOTINO, s0)" "iappend ROOTINO (de_bytes ROOTINO [46]) s0 = Some s1"
    "iappend ROOTINO (de_bytes ROOTINO [46, 46]) s1 = Some s2" "files_ok s2" "freeinode s2 = 2" "ROOTINO \<in> inums s2"
    "unat (freeblock s2) = nmeta + fcost 32" "contents s2 ROOTINO = de_bytes ROOTINO [46] @ de_bytes ROOTINO [46, 46]"
proof -
  note e = empty_image_ok
  have R: "freeinode empty_image = ROOTINO" by (simp add: e ROOTINO_def)
  have lt: "unat (freeinode empty_image) < NINODES" by (simp add: e NINODES_def)
  obtain s0 where s0: "mk_ialloc T_DIR empty_image = Some (ROOTINO, s0)" "files_ok s0" "inums s0 = insert ROOTINO (inums empty_image)"
      "freeinode s0 = ROOTINO + 1" "freeblock s0 = freeblock empty_image" "contents s0 ROOTINO = []"
    by (rule mk_ialloc_ok [OF e(1) lt, unfolded R]) blast
  have r0: "ROOTINO \<in> inums s0" using s0(3) by simp
  have z0: "fsize s0 ROOTINO = 0" using s0(6) length_contents [of s0 ROOTINO] by simp
  have c: "fcost 0 = 0" "fcost 16 = 1" "fcost 32 = 1" by (simp_all add: fcost_def cost_def nblk_def BSIZE_def NDIRECT_def)
  have M: "32 \<le> MAXFILE * BSIZE" by (simp add: MAXFILE_def NDIRECT_def NINDIRECT_def BSIZE_def)
  obtain s1 where s1: "iappend ROOTINO (de_bytes ROOTINO [46]) s0 = Some s1" "files_ok s1" "freeinode s1 = freeinode s0"
      "unat (freeblock s1) + fcost (fsize s0 ROOTINO) = unat (freeblock s0) + fcost (fsize s0 ROOTINO + length (de_bytes ROOTINO [46]))"
      "contents s1 ROOTINO = contents s0 ROOTINO @ de_bytes ROOTINO [46]"
    by (rule iappend_ok [OF s0(2) r0, of "de_bytes ROOTINO [46]"]) (use z0 M c assms e(3) s0(5) in auto)
  have r1: "ROOTINO \<in> inums s1" using inums_same [OF s1(3)] r0 by simp
  have z1: "fsize s1 ROOTINO = 16" using arg_cong [OF s1(5), of length] z0 by simp
  have f1: "unat (freeblock s1) = nmeta + 1" using s1(4) s0(5) e(3) z0 c by simp
  obtain s2 where s2: "iappend ROOTINO (de_bytes ROOTINO [46, 46]) s1 = Some s2" "files_ok s2" "freeinode s2 = freeinode s1"
      "unat (freeblock s2) + fcost (fsize s1 ROOTINO) = unat (freeblock s1) + fcost (fsize s1 ROOTINO + length (de_bytes ROOTINO [46, 46]))"
      "contents s2 ROOTINO = contents s1 ROOTINO @ de_bytes ROOTINO [46, 46]"
    by (rule iappend_ok [OF s1(2) r1, of "de_bytes ROOTINO [46, 46]"]) (use z1 M c assms f1 in auto)
  show thesis
  proof (rule that [OF s0(1) s1(1) s2(1,2)])
    show "freeinode s2 = 2" using s2(3) s1(3) s0(4) by (simp add: ROOTINO_def)
    show "unat (freeblock s2) = nmeta + fcost 32" using s2(4) z1 c f1 by simp
  qed (use inums_same [OF s2(3)] r1 s2(5) s1(5) s0(6) in simp_all)
qed

text \<open>The whole run.\<close>

lemma mkfs_image:
  assumes "\<forall>f\<in>set files. fits f" "length files + 2 \<le> NINODES" "used_blocks files \<le> FSSIZE"
  obtains s where "mkfs files = Some s" "\<And>k. k < length files \<Longrightarrow> contents s (of_nat (k + 2)) = snd (files ! k)"
    "take (16 * (length files + 2)) (contents s ROOTINO) = de_bytes ROOTINO [46] @ de_bytes ROOTINO [46, 46] @ entries 2 files"
    "img s 1 = put_sb new_sb (\<lambda>_. 0)" "img s (unat (sb_bmapstart new_sb)) = mark_used (used_blocks files)"
    "fsize s ROOTINO = (16 * (length files + 2) div BSIZE + 1) * BSIZE"
    "\<And>f. nblk (16 * (length files + 2)) \<le> f \<Longrightarrow> f < MAXFILE \<Longrightarrow> daddr s (din_of s ROOTINO) f = 0"
proof -
  let ?L = "16 * (length files + 2)"
  have L: "?L \<le> MAXFILE * BSIZE" using assms(2) by (simp add: NINODES_def MAXFILE_def NDIRECT_def NINDIRECT_def BSIZE_def)
  have "fcost 32 \<le> fcost ?L" by (rule fcost_mono) simp
  then have "nmeta + fcost 32 \<le> FSSIZE" using assms(3) by (simp add: used_blocks_def)
  then obtain s0 s1 s2 where s: "mk_ialloc T_DIR empty_image = Some (ROOTINO, s0)" "iappend ROOTINO (de_bytes ROOTINO [46]) s0 = Some s1"
    "iappend ROOTINO (de_bytes ROOTINO [46, 46]) s1 = Some s2" "files_ok s2" "freeinode s2 = 2" "ROOTINO \<in> inums s2"
    "unat (freeblock s2) = nmeta + fcost 32" "contents s2 ROOTINO = de_bytes ROOTINO [46] @ de_bytes ROOTINO [46, 46]"
    by (rule root_ok) blast
  have z: "fsize s2 ROOTINO = 32" using arg_cong [OF s(8), of length] by simp
  have l: "32 + 16 * length files = ?L" by simp
  obtain s3 where s3: "add_files files s2 = Some s3" "files_ok s3" "unat (freeinode s3) = length files + 2"
      "unat (freeblock s3) = used_blocks files" "contents s3 ROOTINO = contents s2 ROOTINO @ entries 2 files"
      "\<And>k. k < length files \<Longrightarrow> contents s3 (2 + of_nat k) = snd (files ! k)" "inums s2 \<subseteq> inums s3"
    using add_files_ok [OF s(4,6) _ assms(1)] assms(2,3) s(5,7) L unfolding z l used_blocks_def by auto
  have root: "ROOTINO \<in> inums s3" using s(6) s3(7) by blast
  have len: "length (entries i fs) = 16 * length fs" for i fs by (induction fs arbitrary: i) simp_all
  have z3: "fsize s3 ROOTINO = ?L" using arg_cong [OF s3(5), of length] z by (simp add: len)
  obtain s' where s': "Option.bind (fix_root s3) (\<lambda>s. mk_balloc (freeblock s) s) = Some s'"
      "img s' 1 = put_sb new_sb (\<lambda>_. 0)" "img s' 58 = mark_used (unat (freeblock s3))"
      "\<And>j. j \<in> inums s3 \<Longrightarrow> j \<noteq> ROOTINO \<Longrightarrow> contents s' j = contents s3 j"
      "fsize s' ROOTINO = (fsize s3 ROOTINO div BSIZE + 1) * BSIZE" "take (fsize s3 ROOTINO) (contents s' ROOTINO) = contents s3 ROOTINO"
      "\<And>f. nblk (fsize s3 ROOTINO) \<le> f \<Longrightarrow> f < MAXFILE \<Longrightarrow> daddr s' (din_of s' ROOTINO) f = 0"
    by (rule finish_ok [OF s3(2) root]) (use s3(4) assms(3) z3 L in auto)
  have each: "contents s' (of_nat (k + 2)) = snd (files ! k)" if "k < length files" for k
  proof -
    have "unat (of_nat (k + 2) :: uint) = k + 2" using that assms(2) by (subst unat_of_nat) (simp add: NINODES_def)
    then have "of_nat (k + 2) \<in> inums s3" "of_nat (k + 2) \<noteq> ROOTINO"
      using that s3(3) by (auto simp: inums_def ROOTINO_def word_less_nat_alt word_le_nat_alt word_unat_eq_iff simp del: of_nat_add)
    then show ?thesis using s'(4) s3(6) [OF that] by (simp add: add.commute)
  qed
  have "mkfs files = Some s'" using s(1-3) s3(1) s'(1) by (simp add: mkfs_def)
  from that [OF this each] show thesis using s'(2,3,5,6,7) s3(4,5) s(8) bmap_block unfolding z3 by simp
qed

text \<open>C11: the image that \<open>mkfs\<close> builds holds exactly the files it was given.  If no name contains a slash, every
  file fits in an i-node, and there are enough i-nodes and blocks, then \<open>mkfs\<close> succeeds; the file given at position
  \<open>k\<close> is in i-node \<open>k + 2\<close>; the root directory starts with the entries for \<open>.\<close>, \<open>..\<close> and the files; the superblock
  is in block 1; and the bit map marks as free exactly the blocks after the last one used.
\<close>

theorem mkfs_holds_files:
  assumes "\<forall>f\<in>set files. fits f" "length files + 2 \<le> NINODES" "used_blocks files \<le> FSSIZE"
  shows "\<exists>s. mkfs files = Some s \<and> (\<forall>k<length files. contents s (of_nat (k + 2)) = snd (files ! k)) \<and>
    take (16 * (length files + 2)) (contents s ROOTINO) = de_bytes ROOTINO [46] @ de_bytes ROOTINO [46, 46] @ entries 2 files \<and>
    img s 1 = put_sb new_sb (\<lambda>_. 0) \<and>
    (\<forall>b. img s (unat (sb_bmapstart new_sb)) (b div 8) AND bit_mask b = 0 \<longleftrightarrow> used_blocks files \<le> b)"
proof -
  obtain s where s: "mkfs files = Some s" "\<And>k. k < length files \<Longrightarrow> contents s (of_nat (k + 2)) = snd (files ! k)"
    "take (16 * (length files + 2)) (contents s ROOTINO) = de_bytes ROOTINO [46] @ de_bytes ROOTINO [46, 46] @ entries 2 files"
    "img s 1 = put_sb new_sb (\<lambda>_. 0)" "img s (unat (sb_bmapstart new_sb)) = mark_used (used_blocks files)"
    by (rule mkfs_image [OF assms]) blast
  show ?thesis
  proof (intro exI [of _ s] conjI allI impI)
    show "img s (unat (sb_bmapstart new_sb)) (b div 8) AND bit_mask b = 0 \<longleftrightarrow> used_blocks files \<le> b" for b
      unfolding s(5) by (rule mark_used_bit)
  qed (use s in blast)+
qed

text \<open>
  When the entries of the root directory fill its blocks exactly, the rounding gives it one block more than it
  has: the size covers a block number 0.
\<close>

lemma mkfs_root_hole:
  assumes "\<forall>f\<in>set files. fits f" "length files + 2 \<le> NINODES" "used_blocks files \<le> FSSIZE" "length files + 2 = 32 * k"
  shows "\<exists>s. mkfs files = Some s \<and> fsize s ROOTINO = (k + 1) * BSIZE \<and> daddr s (din_of s ROOTINO) k = 0"
proof -
  obtain s where s: "mkfs files = Some s" "fsize s ROOTINO = (16 * (length files + 2) div BSIZE + 1) * BSIZE"
    "\<And>f. nblk (16 * (length files + 2)) \<le> f \<Longrightarrow> f < MAXFILE \<Longrightarrow> daddr s (din_of s ROOTINO) f = 0"
    by (rule mkfs_image [OF assms(1-3)]) blast
  have "16 * (length files + 2) = k * BSIZE" using assms(4) by (simp only: BSIZE_def)
  moreover have "nblk (k * BSIZE) = k" by (simp add: nblk_def BSIZE_def)
  moreover have "k < MAXFILE" using assms(2,4) by (simp add: NINODES_def MAXFILE_def NDIRECT_def NINDIRECT_def)
  ultimately show ?thesis using s(1,2) s(3) [of k] by (simp add: BSIZE_def)
qed

text \<open>A program \<open>_a\<close> of three bytes and an empty file \<open>b\<close>.\<close>

theorem mkfs_holds_files_witness:
  "\<exists>s. mkfs [([95, 97], [1, 2, 3]), ([98], [])] = Some s \<and> contents s 2 = [1, 2, 3] \<and> contents s 3 = []"
proof -
  let ?files = "[([95, 97], [1, 2, 3]), ([98], [])] :: (uchar list \<times> uchar list) list"
  have fits: "\<forall>f\<in>set ?files. fits f" by (simp add: fits_def MAXFILE_def NDIRECT_def NINDIRECT_def BSIZE_def)
  have inodes: "length ?files + 2 \<le> NINODES" by (simp add: NINODES_def)
  have blocks: "used_blocks ?files \<le> FSSIZE"
    by (simp add: used_blocks_def nmeta_eq FSSIZE_def fcost_def cost_def nblk_def BSIZE_def NDIRECT_def)
  obtain s where s: "mkfs ?files = Some s" "\<forall>k<length ?files. contents s (of_nat (k + 2)) = snd (?files ! k)"
    using mkfs_holds_files [OF fits inodes blocks] by blast
  from s(2) [rule_format, of 0] s(2) [rule_format, of 1] have "contents s 2 = [1, 2, 3]" "contents s 3 = []" by simp_all
  then show ?thesis using s(1) by blast
qed

end
