(* ===== verification/Spec2Isabelle.thy ===== *)
theory Spec2Isabelle
  imports Trap Paging Paths Grep Shell Maekawa Image
begin

text \<open>
  A verification library for an xv6 kernel extended with message passing, signals and containers.  The
  sources are the C files of \<^verbatim>\<open>src/xv6\<close>; names of definitions are the names of the C functions.

  \<^bold>\<open>How the code is modelled.\<close>  A kernel function is a function of the machine (CPUs, interrupt flag,
  spin locks, console) and of the kernel state, and returns a value with the new machine and state or an
  error: \<open>Panic\<close> for \<open>panic()\<close>, \<open>Stuck\<close> for a spin lock that another CPU holds or a loop that is out of turns,
  \<open>Fault\<close> for an access that C leaves undefined (an index out of range, a null pointer, a page fault in
  the kernel).  The kernel state is a record that grows from theory to theory by extension, in the order
  in which the components use each other, so that every function works on every larger state.  A
  function that gives up the CPU also takes the list of episodes that happen while it is off the CPU, each of
  them any change of the machine and the state; theorems about it hold for every such list.  Integers
  have their C width (\<open>uint\<close> and \<open>short\<close> are words), except where the text of a theory says why a natural
  number is the same.

  \<^bold>\<open>The theories and the code.\<close>
  \<^item> \<open>Prelude\<close>: types, constants of \<^verbatim>\<open>param.h\<close>, shared lemmas.  \<open>Machine\<close>: \<^verbatim>\<open>spinlock.c\<close>, \<open>struct cpu\<close>, \<open>mycpu\<close>, \<open>myproc\<close>.
  \<^item> \<open>Console\<close>: the output half of \<^verbatim>\<open>console.c\<close>.  \<open>Cmem\<close>: \<^verbatim>\<open>string.c\<close> on byte-addressed memory.
  \<^item> \<open>Mqueue\<close>, \<open>Message\<close>: \<^verbatim>\<open>queue.c\<close> and \<^verbatim>\<open>message.c\<close>.
  \<^item> \<open>Kalloc\<close>, \<open>Vm\<close>, \<open>Paging\<close>: \<^verbatim>\<open>kalloc.c\<close> and \<^verbatim>\<open>vm.c\<close>, page tables as the words in memory that they are.
  \<^item> \<open>Container\<close>: \<^verbatim>\<open>container_manager.c\<close>.
  \<^item> \<open>Proc\<close>, \<open>Scheduler\<close>, \<open>Lifecycle\<close>: \<^verbatim>\<open>proc.c\<close> (table, sleeping, signals; the scheduler; \<open>fork\<close>, \<open>exit\<close>, \<open>wait\<close>, \<open>userinit\<close>).
  \<^item> \<open>Args\<close>, \<open>Sysproc\<close>, \<open>Sysfile\<close>, \<open>Trap\<close>: \<^verbatim>\<open>syscall.c\<close>, \<^verbatim>\<open>sysproc.c\<close>, \<^verbatim>\<open>sysfile.c\<close>, \<^verbatim>\<open>trap.c\<close> and \<^verbatim>\<open>main.c\<close>.
  \<^item> \<open>Sleeplock\<close>, \<open>Bio\<close>, \<open>Log\<close>, \<open>Recovery\<close>: \<^verbatim>\<open>sleeplock.c\<close>, \<^verbatim>\<open>bio.c\<close> over \<^verbatim>\<open>memide.c\<close>, \<^verbatim>\<open>log.c\<close>.
  \<^item> \<open>Inode\<close>, \<open>Fs\<close>, \<open>Paths\<close>, \<open>File\<close>, \<open>Exec\<close>: \<^verbatim>\<open>fs.c\<close> with the input half of \<^verbatim>\<open>console.c\<close>, \<^verbatim>\<open>file.c\<close>, \<^verbatim>\<open>pipe.c\<close>, \<^verbatim>\<open>exec.c\<close>.
  \<^item> \<open>Mkfs\<close>, \<open>Image\<close>: \<^verbatim>\<open>mkfs.c\<close>, the program for the host that builds the disk image, in the kernel's formats.
  \<^item> \<open>Kbd\<close>: \<^verbatim>\<open>kbd.c\<close> and the interrupt half of \<^verbatim>\<open>uart.c\<close>.
  \<^item> \<open>Ulib\<close>, \<open>Grep\<close>, \<open>Shell\<close>, \<open>Maekawa\<close>: user programs, as functions of what they read (\<^verbatim>\<open>ulib.c\<close>, \<^verbatim>\<open>printf.c\<close>, \<^verbatim>\<open>grep.c\<close>, \<^verbatim>\<open>sh.c\<close>, \<^verbatim>\<open>maekawa.c\<close>).

  \<^bold>\<open>What is shown.\<close>  The interfaces between components are locales, interpreted on the code: \<open>bounded_fifo\<close> by
  the circular queue, by the pipe and by the request queue of \<^verbatim>\<open>maekawa.c\<close>, \<open>page_allocator\<close> by \<open>kalloc\<close> and \<open>kfree\<close>, \<open>mailboxes\<close> by the message buffers.
  On them and on the component lemmas rest the properties.  Memory: a page has one owner, \<open>mappages\<close>
  extends the translation by the pages it is given, the loops over an address space end, the string
  functions have their closed forms.  Processes: the scheduler runs only members of the container whose turn it is
  (or of container 0), containers and processes take turns, no wakeup is lost between \<open>sleep\<close> and \<open>wakeup\<close>, the child of
  \<open>fork\<close> shares the open files with exact reference counts, a signal enters its handler.  Messages: sending
  and receiving implement one mailbox per receiver.  Storage: the block cache returns current blocks,
  buffers are recycled in least-recently-used order, a crash at any write of a commit leaves all or nothing of the
  transaction, the block allocator returns free cleared blocks, a pipe is a bounded queue of bytes, a path is walked
  along its components, and the image of \<^verbatim>\<open>mkfs.c\<close> holds the files it was given, with no block in two of them and
  exactly the others free.  Entry: accepted user pointers lie inside the process, a call on a file of
  another container is refused, an unknown call gets -1.  User programs: \<open>grep\<close> decides the language of its pattern,
  the parser of the shell inverts printing, two quorums of \<^verbatim>\<open>maekawa.c\<close> meet.  The theorems of kind error show what the code does where
  it does not do what it is meant to.

  \<^bold>\<open>Bounds.\<close>  The recursions over a number of turns take it from the data: \<open>copyout\<close> one turn per byte,
  \<open>deallocuvm\<close> one per page of the old size, the loops of \<open>mappages\<close> and \<open>allocuvm\<close> the number of pages, a string at
  most \<open>KERNBASE\<close> bytes (it lies in one half of the address space), the shell parser four calls per character; that they are
  enough is proved for \<open>copyout\<close>, \<open>deallocuvm\<close> and the parser and holds by counting for the others.  Loops that wait (\<open>sleep\<close> in a condition) take a turn per episode.  \<open>scheduler\<close> and \<open>main\<close> are given the number of turns to run,
  because they never return.

  \<^bold>\<open>Not modelled.\<close>  Assembly (\<open>swtch\<close> is the point where episodes happen, traps start at \<open>trap\<close>), segment
  and interrupt descriptors, interrupt controllers, the start of other processors, the boot loader, the port I/O
  of \<^verbatim>\<open>ide.c\<close> and \<^verbatim>\<open>uart.c\<close>: they only program hardware.  Interleaving with another CPU inside a critical section is
  excluded by the locks, and races outside of one are not modelled except for the window of \<open>sys_recv\<close>.
  Of the user programs, those that only pass arguments to system calls, the allocator \<^verbatim>\<open>umalloc.c\<close>, the floating-point demonstrations
  and the tests are left out, as are the scripts for the host system.
\<close>

section \<open>Entering the kernel\<close>

lemma syscalls_length [simp]: "length (syscalls :: ('a devstate_scheme, uint option) bkm list) = 44"
  by (simp add: syscalls_def)

text \<open>A system call of a process that is not killed, as far as the dispatch goes.\<close>

definition enter :: "nat \<Rightarrow> trapframe \<Rightarrow> 'a devstate_scheme \<Rightarrow> 'a devstate_scheme" where
  "enter p tf k = upd_proc p (\<lambda>q. q\<lparr>p_tf := tf\<rparr>) k"

lemma enter_sel [simp]:
  "p_tf (ptab (enter p tf k) p) = tf" "p_killed (ptab (enter p tf k) p) = p_killed (ptab k p)" "sys_trace (enter p tf k) = sys_trace k"
  "container_id (ptab (enter p tf k) p) = container_id (ptab k p)" "ftab (enter p tf k) = ftab k" "icache (enter p tf k) = icache k"
  by (simp_all add: enter_def upd_proc_def)

lemma set_eax_enter: "set_eax p v (enter p tf k) = enter p (tf\<lparr>tf_eax := v\<rparr>) k"
  by (simp add: set_eax_def enter_def upd_proc_def)

lemma runs_ids:
  assumes "runs p m"
  shows "curproc_id m k = Inr (p, m, k)" "my f m k = Inr (f (ptab k p), m, k)" "upd_my g m k = Inr ((), m, upd_proc p g k)"
  using curproc_id_ok my_ok upd_my_ok runsD(1,2) [OF assms] quiet_ok by blast+

lemma trap_dispatches:
  assumes "runs p m" "tf_trapno tf = T_SYSCALL" "\<not> p_killed (ptab k p)" "syscall junk es m (enter p tf k) = Inr (Some ((), es'), m', k')"
    and "mach_ok m'" "curproc (cpu_of m') = Some p" "\<not> p_killed (ptab k' p)"
  shows "trap tf dv junk es m k = Inr (Some ((), es'), m', k')"
  using assms(2-) by (simp add: trap_def km_simps runs_ids [OF assms(1)] my_ok [OF assms(5,6)] flip: enter_def)

lemma syscall_calls:
  assumes "runs p m" "sys_trace k \<noteq> 1" "sint (tf_eax tf) = int n" "0 < n" "n \<le> 44"
    and "(syscalls ! (n - 1)) es m (enter p tf k) = Inr (Some (Some v, es'), m', enter p tf k)"
  shows "syscall junk es m (enter p tf k) = Inr (Some ((), es'), m', enter p (tf\<lparr>tf_eax := v\<rparr>) k)"
  using assms by (simp add: syscall_def count_syscall_def km_simps set_eax_enter runs_ids)

lemma read_write_refused:
  assumes "runs p m" "argfd 0 m k = Inr (Some (fd, f), m, k)" "argint 1 m k = Inr (Some a, m, k)" "argint 2 m k = Inr (Some n, m, k)"
    and "f_ip (ftab k f) = Some ip" "i_container_id (icache k ip) \<notin> {0, container_id (ptab k p)}"
  shows "sys_read es m k = Inr (Some (-1, es), m, k)" "sys_write es m k = Inr (Some (-1, es), m, k)"
proof -
  have "argptr 1 (sint n) m k = Inr (None, m, k) \<or> argptr 1 (sint n) m k = Inr (Some a, m, k)"
    using assms(3) by (simp add: argptr_def km_simps runs_ids [OF assms(1)])
  then show "sys_read es m k = Inr (Some (-1, es), m, k)" "sys_write es m k = Inr (Some (-1, es), m, k)"
    using assms(2-) by (auto simp: sys_read_def sys_write_def rw_args_def file_container_def km_simps runs_ids [OF assms(1)])
qed

section \<open>Properties\<close>


text \<open>Process 0 of container 1 has, by descriptor 16, a file of container 2 open.  Its arguments are on its stack.\<close>

definition foreign_file :: devstate where
  "foreign_file = (kernel.extend (filestate.extend small_files (kernel.fields True (0, 0))) (devstate.fields 0 False))
     \<lparr>ram := ram arg_example, cr3 := cr3 arg_example, sys_trace := 0,
      ptab := (\<lambda>_. unused_proc\<lparr>p_sz := 0x1000, container_id := 1, p_ofile := (\<lambda>_. Some 7)\<rparr>),
      ftab := (\<lambda>_. \<lparr>f_type = FD_INODE, f_ref = 1, f_readable = True, f_writable = True, f_pipe = 0, f_ip = Some 3, f_off = 0\<rparr>),
      icache := (\<lambda>i. (icache small_files i)\<lparr>i_container_id := 2\<rparr>)\<rparr>"

definition call_frame :: "uint \<Rightarrow> trapframe" where
  "call_frame n = idle_tf\<lparr>tf_trapno := T_SYSCALL, tf_eax := n, tf_esp := 0xF00\<rparr>"

lemma vread_cong: "ram k = ram k' \<Longrightarrow> cr3 k = cr3 k' \<Longrightarrow> vread k a = vread k' a"
  by (simp add: vread_def kaddr_def)

lemma foreign_file_arg:
  assumes "k = enter 0 (call_frame n) foreign_file" "unat (0xF04 + 4 * of_nat i :: uint) + 4 \<le> 4096" "vread32 arg_example (0xF04 + 4 * of_nat i) = Some v"
  shows "argint i (idle_mach (Some 0)) k = Inr (Some v, idle_mach (Some 0), k)"
proof -
  have k: "ram k = ram arg_example" "cr3 k = cr3 arg_example" "p_sz (ptab k 0) = 0x1000" "tf_esp (p_tf (ptab k 0)) = 0xF00"
    unfolding assms(1) by (simp_all add: enter_def upd_proc_def foreign_file_def call_frame_def)
  have "vread k a = vread arg_example a" for a by (rule vread_cong [OF k(1,2)])
  then have "vread32 k a = vread32 arg_example a" for a by (simp add: vread32_def)
  then have v: "get32 (0xF04 + 4 * of_nat i) (idle_mach (Some 0)) k = Inr (v, idle_mach (Some 0), k)"
    using assms(3) by (simp add: get32_Inr)
  define a :: uint where "a = 0xF04 + 4 * of_nat i"
  have "\<not> 0x1000 \<le> a" "\<not> 0x1000 < a + 4"
    using assms(2) unat32_add [of a 4] by (simp_all add: word_le_nat_alt word_less_nat_alt flip: a_def)
  then show ?thesis
    using v k(3,4) unfolding a_def by (simp add: argint_def fetchint_def km_simps runs_ids [OF runs_idle])
qed

lemma arg_example_words:
  "vread32 arg_example 0xF04 = Some 0x10" "vread32 arg_example 0xF08 = Some 0" "vread32 arg_example 0xF0C = Some 0"
proof -
  have "vread arg_example va = Some (ram arg_example (0x80402000 + (va AND 0xFFF)))"
    if "PDX va = 0" "PTX va = 0" "\<not> 0x80000000 \<le> va" for va
    using that arg_example_translate [of va] by (simp add: vread_def kaddr_def const_defs P2V_def) (simp add: arg_example_def)
  note v = this
  show "vread32 arg_example 0xF04 = Some 0x10" by (simp add: vread32_def arg_example_vread)
  show "vread32 arg_example 0xF08 = Some 0" "vread32 arg_example 0xF0C = Some 0"
    by (simp_all add: vread32_def v PDX_def PTX_def) (simp_all add: arg_example_def sig_example_def wr32_def)
qed




end
